(* ===== verification/Prelude.thy ===== *)
theory Prelude
  imports Main "HOL-Library.Word" "HOL-Library.Sublist" "HOL-Library.Code_Target_Nat"
begin

text \<open>
  Shared vocabulary of the ndn-cxx development: machine integer and buffer types, the
  exceptions the library throws as values of one error type, sequencing of fallible steps,
  sub-ranges of buffers (what a pair of C++ iterators denotes), the big-endian reading of byte
  strings that \<open>boost::endian\<close> provides, decimal printing, and the generic lemmas on lists that
  the component theories use.
\<close>

unbundle bit_operations_syntax

section \<open>Machine integers and buffers\<close>

type_synonym byte = "8 word"
type_synonym uint16 = "16 word"
type_synonym uint32 = "32 word"
type_synonym uint64 = "64 word"
type_synonym buffer = "byte list"

named_theorems bytes_simps \<open>big-endian byte strings and their values\<close>
named_theorems bslice_simps \<open>sub-ranges of buffers\<close>
named_theorems result_simps \<open>sequencing of fallible steps\<close>

section \<open>Exceptions as values\<close>

text \<open>
  One constructor per \<open>NDN_THROW\<close> message.  The payload holds the number the message prints.
\<close>

datatype error =
    EmptyBuffer
  | InsufficientData
  | IllegalTlvType uint64
  | InvalidNniLength nat
  | InsufficientNni
  | TransformClosed
  | TransformWrongInputByte
  | TransformIncompleteInput
  | StringHelperError error
  | NullBuffer
  | NotEnoughBytes
  | BufferIsEmpty
  | IteratorsOutsideBuffer
  | LengthMismatch
  | StreamExceedsLimit
  | StreamNotEnough
  | WireIsEmpty
  | SizeOfInvalidBlock
  | EmptyTlvValue
  | SubElementOverflow uint32
  | NoSubElement uint32 uint32
  | OddHexDigits
  | ValueTooLarge uint32
  | InvalidDoubleLength
  | TlvError string
  | ComponentError string
  | NameError string
  | MetaInfoError string
  | KeyLocatorError string
  | SignatureInfoError string
  | DataError string
  | InterestError string
  | InvalidArgument string
  | OutOfRange string
  | LogicError string
  | RuntimeError string
  | ClassError string string

type_synonym 'a result = "error + 'a"

definition bindE :: "'e + 'a \<Rightarrow> ('a \<Rightarrow> 'e + 'b) \<Rightarrow> 'e + 'b" where
  "bindE m f = (case m of Inl e \<Rightarrow> Inl e | Inr x \<Rightarrow> f x)"

lemma bindE_Inl [simp, result_simps]: "bindE (Inl e) f = Inl e"
  by (simp add: bindE_def)

lemma bindE_Inr [simp, result_simps]: "bindE (Inr x) f = f x"
  by (simp add: bindE_def)

lemma bindE_eq_Inr: "bindE m f = Inr y \<longleftrightarrow> (\<exists>x. m = Inr x \<and> f x = Inr y)"
  by (auto simp: bindE_def split: sum.splits)

lemma bindE_eq_Inl: "bindE m f = Inl e \<longleftrightarrow> m = Inl e \<or> (\<exists>x. m = Inr x \<and> f x = Inl e)"
  by (auto simp: bindE_def split: sum.splits)

lemma bindE_cong [fundef_cong]:
  "m = m' \<Longrightarrow> (\<And>x. m' = Inr x \<Longrightarrow> f x = f' x) \<Longrightarrow> bindE m f = bindE m' f'"
  by (auto simp: bindE_def split: sum.splits)

lemma bindE_assoc: "bindE (bindE m f) g = bindE m (\<lambda>x. bindE (f x) g)"
  by (auto simp: bindE_def split: sum.splits)

definition guardE :: "bool \<Rightarrow> 'e \<Rightarrow> 'e + unit" where
  "guardE c e = (if c then Inl e else Inr ())"

lemma guardE_eq_Inr [simp]: "guardE c e = Inr u \<longleftrightarrow> \<not> c"
  by (simp add: guardE_def)

lemma guardE_eq_Inl [simp]: "guardE c e = Inl e' \<longleftrightarrow> c \<and> e = e'"
  by (simp add: guardE_def)

lemma guardE_simps [simp, result_simps]: "guardE True e = Inl e" "guardE False e = Inr ()"
  by (simp_all add: guardE_def)

section \<open>Ranges of a buffer\<close>

text \<open>The bytes between two iterators of one buffer, given by their offsets.\<close>

definition bslice :: "nat \<Rightarrow> nat \<Rightarrow> 'a list \<Rightarrow> 'a list" where
  "bslice b e xs = take (e - b) (drop b xs)"

lemma length_bslice [simp, bslice_simps]: "length (bslice b e xs) = min (e - b) (length xs - b)"
  by (simp add: bslice_def min.commute)

lemma bslice_same [simp, bslice_simps]: "bslice b b xs = []"
  by (simp add: bslice_def)

lemma bslice_full [simp, bslice_simps]: "bslice 0 (length xs) xs = xs"
  by (simp add: bslice_def)

lemma bslice_all: "length xs \<le> e \<Longrightarrow> bslice 0 e xs = xs"
  by (simp add: bslice_def)

lemma bslice_drop: "length xs \<le> e \<Longrightarrow> bslice b e xs = drop b xs"
  by (simp add: bslice_def)

lemma bslice_nil [simp]: "bslice b e [] = []"
  by (simp add: bslice_def)

lemma bslice_empty_iff: "e \<le> length xs \<Longrightarrow> bslice b e xs = [] \<longleftrightarrow> e \<le> b"
  by (auto simp: bslice_def)

lemma bslice_join [bslice_simps]: "b \<le> m \<Longrightarrow> m \<le> e \<Longrightarrow> bslice b m xs @ bslice m e xs = bslice b e xs"
proof -
  assume "b \<le> m" "m \<le> e"
  then obtain i j where "m = b + i" "e = b + i + j"
    by (metis le_iff_add)
  then show ?thesis
    by (simp add: bslice_def take_add add.commute)
qed

lemma bslice_append_left: "e \<le> length xs \<Longrightarrow> bslice b e (xs @ ys) = bslice b e xs"
  by (simp add: bslice_def)

lemma bslice_append_right: "length xs \<le> b \<Longrightarrow>
    bslice b e (xs @ ys) = bslice (b - length xs) (e - length xs) ys"
  by (simp add: bslice_def)

lemma bslice_mid: "bslice (length xs) (length xs + length ys) (xs @ ys @ zs) = ys"
  by (simp add: bslice_def)

lemma drop_bslice: "drop n (bslice b e xs) = bslice (b + n) e xs"
  by (simp add: bslice_def drop_take add.commute)

lemma take_bslice: "b + n \<le> e \<Longrightarrow> take n (bslice b e xs) = bslice b (b + n) xs"
  by (simp add: bslice_def min_def)

lemma bslice_slice: "b + e' \<le> e \<Longrightarrow> bslice b' e' (bslice b e xs) = bslice (b + b') (b + e') xs"
proof -
  assume "b + e' \<le> e"
  then have "min (e' - b') (e - (b + b')) = e' - b'"
    by linarith
  then show ?thesis
    by (simp add: bslice_def drop_take add.commute add.left_commute)
qed

text \<open>\<open>std::copy\<close> of \<open>xs\<close> to position \<open>i\<close> of a buffer that has room for it.\<close>

definition overwrite :: "nat \<Rightarrow> 'a list \<Rightarrow> 'a list \<Rightarrow> 'a list" where
  "overwrite i xs buf = take i buf @ xs @ drop (i + length xs) buf"

lemma length_overwrite [simp, bslice_simps]:
  "i + length xs \<le> length buf \<Longrightarrow> length (overwrite i xs buf) = length buf"
  by (simp add: overwrite_def)

lemma bslice_overwrite [bslice_simps]:
  "i + length xs \<le> length buf \<Longrightarrow> bslice i (i + length xs) (overwrite i xs buf) = xs"
  by (simp add: overwrite_def bslice_def)

lemma bslice_overwrite_after [bslice_simps]:
  "i + length xs \<le> length buf \<Longrightarrow> i + length xs \<le> b \<Longrightarrow>
     bslice b e (overwrite i xs buf) = bslice b e buf"
  by (simp add: overwrite_def bslice_def)

lemma bslice_overwrite_before [bslice_simps]:
  "i + length xs \<le> length buf \<Longrightarrow> e \<le> i \<Longrightarrow> bslice b e (overwrite i xs buf) = bslice b e buf"
proof -
  assume a: "i + length xs \<le> length buf" "e \<le> i"
  then have "bslice b e (overwrite i xs buf) = bslice b e (take i buf)"
    by (simp add: overwrite_def bslice_append_left)
  also have "\<dots> = bslice b e (take i buf @ drop i buf)"
    using a by (intro bslice_append_left [symmetric]) simp
  finally show ?thesis by simp
qed

lemma overwrite_overwrite:
  "i + length xs + length ys \<le> length buf \<Longrightarrow>
     overwrite i xs (overwrite (i + length xs) ys buf) = overwrite i (xs @ ys) buf"
  by (simp add: overwrite_def add.assoc)

lemma overwrite_full: "length xs = length buf \<Longrightarrow> overwrite 0 xs buf = xs"
  by (simp add: overwrite_def)

section \<open>Big-endian byte strings\<close>

text \<open>
  \<open>be_nat\<close> is the value of a byte string read most significant byte first, \<open>be_bytes n x\<close> the
  \<open>n\<close> low-order bytes of \<open>x\<close> in that order: what copying a \<open>boost::endian::native_to_big\<close> value
  leaves in memory, on any host byte order.
\<close>

definition be_nat :: "byte list \<Rightarrow> nat" where
  "be_nat bs = foldl (\<lambda>a b. a * 256 + unat b) 0 bs"

primrec be_bytes :: "nat \<Rightarrow> nat \<Rightarrow> byte list" where
  "be_bytes 0 x = []"
| "be_bytes (Suc n) x = be_bytes n (x div 256) @ [word_of_nat x]"

lemma foldl_be_nat: "foldl (\<lambda>a b. a * 256 + unat b) a bs = a * 256 ^ length bs + be_nat bs"
proof (induction bs rule: rev_induct)
  case Nil
  then show ?case by (simp add: be_nat_def)
next
  case (snoc b bs)
  then show ?case by (simp add: be_nat_def algebra_simps)
qed

lemma be_nat_Nil [simp, bytes_simps]: "be_nat [] = 0"
  by (simp add: be_nat_def)

lemma be_nat_snoc: "be_nat (bs @ [b]) = be_nat bs * 256 + unat b"
  by (simp add: be_nat_def)

lemma be_nat_Cons [bytes_simps]: "be_nat (b # bs) = unat b * 256 ^ length bs + be_nat bs"
  using foldl_be_nat [of "unat b" bs] by (simp add: be_nat_def)

lemma length_be_bytes [simp, bytes_simps]: "length (be_bytes n x) = n"
  by (induction n arbitrary: x) auto

lemma unat_byte_less: "unat (b :: byte) < 256"
  using unsigned_less [of b] by simp

lemma be_nat_less: "be_nat bs < 256 ^ length bs"
proof (induction bs rule: rev_induct)
  case Nil
  then show ?case by simp
next
  case (snoc b bs)
  have "be_nat bs * 256 + unat b < (be_nat bs + 1) * 256"
    using unat_byte_less [of b] by simp
  also have "\<dots> \<le> 256 ^ length bs * 256"
    using snoc by (intro mult_right_mono) auto
  finally show ?case by (simp add: be_nat_snoc)
qed

lemma be_nat_be_bytes [bytes_simps]: "be_nat (be_bytes n x) = x mod 256 ^ n"
proof (induction n arbitrary: x)
  case 0
  then show ?case by simp
next
  case (Suc n)
  have "unat (word_of_nat x :: byte) = x mod 256"
    by (simp add: unat_of_nat)
  with Suc show ?case
    by (simp add: be_nat_snoc mod_mult2_eq mult.commute)
qed

lemma be_bytes_be_nat [bytes_simps]: "be_bytes (length bs) (be_nat bs) = bs"
proof (induction bs rule: rev_induct)
  case Nil
  then show ?case by simp
next
  case (snoc b bs)
  have "(be_nat bs * 256 + unat b) div 256 = be_nat bs"
    using unat_byte_less [of b] by linarith
  moreover have "unat (word_of_nat (be_nat bs * 256 + unat b) :: byte) = unat b"
    using unat_byte_less [of b] by (subst unat_of_nat) simp
  then have "word_of_nat (be_nat bs * 256 + unat b) = b"
    by (simp only: word_unat_eq_iff)
  ultimately show ?case
    using snoc by (simp add: be_nat_snoc)
qed

lemma be_nat_inject: "length xs = length ys \<Longrightarrow> be_nat xs = be_nat ys \<longleftrightarrow> xs = ys"
  by (metis be_bytes_be_nat)

section \<open>Characters and bytes\<close>

text \<open>
  \<open>std::string\<close> holds \<open>char\<close>, buffers hold \<open>uint8_t\<close>; the code moves between the two with
  \<open>reinterpret_cast\<close>, which keeps the eight bits.
\<close>

definition byte_of :: "char \<Rightarrow> byte" where
  "byte_of c = of_char c"

definition char_of_byte :: "byte \<Rightarrow> char" where
  "char_of_byte b = char_of (unat b)"

lemma byte_of_char_of_byte [simp]: "byte_of (char_of_byte b) = b"
proof -
  have "(of_char (char_of (unat b)) :: nat) = unat b"
    using unat_byte_less [of b] by simp
  then show ?thesis
    by (metis byte_of_def char_of_byte_def of_char_of of_nat_of_char of_nat_unat ucast_id)
qed

lemma char_of_byte_of [simp]: "char_of_byte (byte_of c) = c"
proof -
  have "unat (of_char c :: byte) = of_char c"
    by (subst of_nat_of_char [symmetric]) (simp add: unat_of_nat)
  then show ?thesis
    by (simp add: byte_of_def char_of_byte_def)
qed

definition bytes_of :: "string \<Rightarrow> byte list" where
  "bytes_of s = map byte_of s"

definition string_of :: "byte list \<Rightarrow> string" where
  "string_of bs = map char_of_byte bs"

lemma bytes_of_string_of [simp]: "bytes_of (string_of bs) = bs"
  by (simp add: bytes_of_def string_of_def comp_def)

lemma string_of_bytes_of [simp]: "string_of (bytes_of s) = s"
  by (simp add: bytes_of_def string_of_def comp_def)

section \<open>Decimal printing\<close>

fun to_string :: "nat \<Rightarrow> string" where
  "to_string n = (if n < 10 then [char_of (48 + n)] else to_string (n div 10) @ [char_of (48 + n mod 10)])"

declare to_string.simps [simp del]

end
