(* ===== verification/Tlv.thy ===== *)
theory Tlv
  imports Prelude
begin

text \<open>
  The TLV primitives of \<open>ndn-cxx/encoding/tlv.hpp\<close> and \<open>tlv.cpp\<close>: the assigned numbers, reading and
  writing of VAR-NUMBER, TLV-TYPE and NonNegativeInteger.  An iterator pair \<open>[begin, end)\<close> is the
  list of bytes between the two; the by-reference \<open>begin\<close> is returned as the list that remains, a
  by-reference \<open>number\<close> is passed in and returned.  The template parameter \<open>Iterator\<close> only decides
  which of the two \<open>ReadNumber\<close> function objects is used, so it is the type \<open>iterator_kind\<close>.
\<close>

section \<open>Assigned numbers\<close>

abbreviation tlv_Invalid :: uint32 where "tlv_Invalid \<equiv> 0"
abbreviation tlv_Interest :: uint32 where "tlv_Interest \<equiv> 5"
abbreviation tlv_Data :: uint32 where "tlv_Data \<equiv> 6"
abbreviation tlv_Name :: uint32 where "tlv_Name \<equiv> 7"
abbreviation tlv_GenericNameComponent :: uint32 where "tlv_GenericNameComponent \<equiv> 8"
abbreviation tlv_ImplicitSha256DigestComponent :: uint32 where
  "tlv_ImplicitSha256DigestComponent \<equiv> 1"
abbreviation tlv_ParametersSha256DigestComponent :: uint32 where
  "tlv_ParametersSha256DigestComponent \<equiv> 2"
abbreviation tlv_CanBePrefix :: uint32 where "tlv_CanBePrefix \<equiv> 33"
abbreviation tlv_MustBeFresh :: uint32 where "tlv_MustBeFresh \<equiv> 18"
abbreviation tlv_ForwardingHint :: uint32 where "tlv_ForwardingHint \<equiv> 30"
abbreviation tlv_Nonce :: uint32 where "tlv_Nonce \<equiv> 10"
abbreviation tlv_InterestLifetime :: uint32 where "tlv_InterestLifetime \<equiv> 12"
abbreviation tlv_HopLimit :: uint32 where "tlv_HopLimit \<equiv> 34"
abbreviation tlv_ApplicationParameters :: uint32 where "tlv_ApplicationParameters \<equiv> 36"
abbreviation tlv_InterestSignatureInfo :: uint32 where "tlv_InterestSignatureInfo \<equiv> 44"
abbreviation tlv_InterestSignatureValue :: uint32 where "tlv_InterestSignatureValue \<equiv> 46"
abbreviation tlv_MetaInfo :: uint32 where "tlv_MetaInfo \<equiv> 20"
abbreviation tlv_Content :: uint32 where "tlv_Content \<equiv> 21"
abbreviation tlv_SignatureInfo :: uint32 where "tlv_SignatureInfo \<equiv> 22"
abbreviation tlv_SignatureValue :: uint32 where "tlv_SignatureValue \<equiv> 23"
abbreviation tlv_ContentType :: uint32 where "tlv_ContentType \<equiv> 24"
abbreviation tlv_FreshnessPeriod :: uint32 where "tlv_FreshnessPeriod \<equiv> 25"
abbreviation tlv_FinalBlockId :: uint32 where "tlv_FinalBlockId \<equiv> 26"
abbreviation tlv_SignatureType :: uint32 where "tlv_SignatureType \<equiv> 27"
abbreviation tlv_KeyLocator :: uint32 where "tlv_KeyLocator \<equiv> 28"
abbreviation tlv_KeyDigest :: uint32 where "tlv_KeyDigest \<equiv> 29"
abbreviation tlv_SignatureNonce :: uint32 where "tlv_SignatureNonce \<equiv> 38"
abbreviation tlv_SignatureTime :: uint32 where "tlv_SignatureTime \<equiv> 40"
abbreviation tlv_SignatureSeqNum :: uint32 where "tlv_SignatureSeqNum \<equiv> 42"
abbreviation tlv_LinkDelegation :: uint32 where "tlv_LinkDelegation \<equiv> 31"
abbreviation tlv_NameComponentMin :: uint32 where "tlv_NameComponentMin \<equiv> 1"
abbreviation tlv_NameComponentMax :: uint32 where "tlv_NameComponentMax \<equiv> 65535"
abbreviation tlv_KeywordNameComponent :: uint32 where "tlv_KeywordNameComponent \<equiv> 32"
abbreviation tlv_SegmentNameComponent :: uint32 where "tlv_SegmentNameComponent \<equiv> 50"
abbreviation tlv_ByteOffsetNameComponent :: uint32 where "tlv_ByteOffsetNameComponent \<equiv> 52"
abbreviation tlv_VersionNameComponent :: uint32 where "tlv_VersionNameComponent \<equiv> 54"
abbreviation tlv_TimestampNameComponent :: uint32 where "tlv_TimestampNameComponent \<equiv> 56"
abbreviation tlv_SequenceNumNameComponent :: uint32 where "tlv_SequenceNumNameComponent \<equiv> 58"
abbreviation tlv_ValidityPeriod :: uint32 where "tlv_ValidityPeriod \<equiv> 253"
abbreviation tlv_NotBefore :: uint32 where "tlv_NotBefore \<equiv> 254"
abbreviation tlv_NotAfter :: uint32 where "tlv_NotAfter \<equiv> 255"

definition MAX_NDN_PACKET_SIZE :: nat where
  "MAX_NDN_PACKET_SIZE = 8800"

text \<open>\<open>operator<<\<close> of the two enumerations with printed names.\<close>

definition expecting :: "string \<Rightarrow> uint32 \<Rightarrow> string" where
  "expecting expectedType actualType =
     ''Expecting '' @ expectedType @ '' element, but TLV has type '' @ to_string (unat actualType)"

definition print_SignatureTypeValue :: "uint16 \<Rightarrow> string" where
  "print_SignatureTypeValue st =
     (if st = 0 then ''DigestSha256''
      else if st = 1 then ''SignatureSha256WithRsa''
      else if st = 3 then ''SignatureSha256WithEcdsa''
      else if st = 4 then ''SignatureHmacWithSha256''
      else if st = 5 then ''SignatureSm3WithSm2''
      else if st = 200 then ''NullSignature''
      else ''Unknown('' @ to_string (unat st) @ '')'')"

definition print_ContentTypeValue :: "uint32 \<Rightarrow> string" where
  "print_ContentTypeValue ct =
     (if ct = 0 then ''Blob''
      else if ct = 1 then ''Link''
      else if ct = 2 then ''Key''
      else if ct = 3 then ''Nack''
      else if ct = 4 then ''Manifest''
      else if ct = 5 then ''PrefixAnn''
      else if ct = 1024 then ''FLIC''
      else (if ct \<le> 1023 then ''Reserved(''
            else if 9000 \<le> ct \<and> ct \<le> 9999 then ''Experimental(''
            else ''Unknown('') @ to_string (unat ct) @ '')'')"

definition isCriticalType :: "uint32 \<Rightarrow> bool" where
  "isCriticalType type \<longleftrightarrow> type \<le> 31 \<or> type AND 1 \<noteq> 0"

section \<open>Reading numbers\<close>

datatype iterator_kind = ContiguousIterator | OtherIterator

fun readNumberSlow_loop :: "nat \<Rightarrow> nat \<Rightarrow> uint64 \<Rightarrow> byte list \<Rightarrow> bool \<times> uint64 \<times> byte list" where
  "readNumberSlow_loop sz count number [] = (count = sz, number, [])"
| "readNumberSlow_loop sz count number (b # bs) =
     (if count < sz
      then readNumberSlow_loop sz (Suc count) (push_bit 8 number OR ucast b) bs
      else (count = sz, number, b # bs))"

definition ReadNumberSlow :: "nat \<Rightarrow> byte list \<Rightarrow> uint64 \<Rightarrow> bool \<times> uint64 \<times> byte list" where
  "ReadNumberSlow sz bs number = readNumberSlow_loop sz 0 0 bs"

text \<open>The last branch is \<open>NDN_CXX_UNREACHABLE\<close>: the callers pass 1, 2, 4 or 8 only.\<close>

definition ReadNumberFast :: "nat \<Rightarrow> byte list \<Rightarrow> uint64 \<Rightarrow> bool \<times> uint64 \<times> byte list" where
  "ReadNumberFast sz bs number =
     (if length bs < sz then (False, number, bs)
      else if sz = 1 then (True, ucast (hd bs), tl bs)
      else if sz = 2 then (True, ucast (word_of_nat (be_nat (take 2 bs)) :: uint16), drop 2 bs)
      else if sz = 4 then (True, ucast (word_of_nat (be_nat (take 4 bs)) :: uint32), drop 4 bs)
      else if sz = 8 then (True, word_of_nat (be_nat (take 8 bs)), drop 8 bs)
      else (False, number, bs))"

definition ReadNumber ::
  "iterator_kind \<Rightarrow> nat \<Rightarrow> byte list \<Rightarrow> uint64 \<Rightarrow> bool \<times> uint64 \<times> byte list" where
  "ReadNumber k = (case k of ContiguousIterator \<Rightarrow> ReadNumberFast | OtherIterator \<Rightarrow> ReadNumberSlow)"

definition readVarNumber_nothrow ::
  "iterator_kind \<Rightarrow> byte list \<Rightarrow> uint64 \<Rightarrow> bool \<times> uint64 \<times> byte list" where
  "readVarNumber_nothrow k bs number =
     (case bs of
        [] \<Rightarrow> (False, number, [])
      | firstOctet # rest \<Rightarrow>
          if firstOctet < 253 then (True, ucast firstOctet, rest)
          else ReadNumber k (if firstOctet = 253 then 2 else if firstOctet = 254 then 4 else 8)
                 rest number)"

definition readType_nothrow ::
  "iterator_kind \<Rightarrow> byte list \<Rightarrow> uint32 \<Rightarrow> bool \<times> uint32 \<times> byte list" where
  "readType_nothrow k bs type =
     (case readVarNumber_nothrow k bs 0 of (isOk, number, rest) \<Rightarrow>
        if \<not> isOk \<or> number = 0 \<or> number > 0xFFFFFFFF then (False, type, rest)
        else (True, ucast number, rest))"

definition readVarNumber :: "iterator_kind \<Rightarrow> byte list \<Rightarrow> (uint64 \<times> byte list) result" where
  "readVarNumber k bs =
     (if bs = [] then Inl EmptyBuffer
      else case readVarNumber_nothrow k bs 0 of (isOk, value, rest) \<Rightarrow>
        if \<not> isOk then Inl InsufficientData else Inr (value, rest))"

definition readType :: "iterator_kind \<Rightarrow> byte list \<Rightarrow> (uint32 \<times> byte list) result" where
  "readType k bs =
     bindE (readVarNumber k bs) (\<lambda>(type, rest).
       if type = 0 \<or> type > 0xFFFFFFFF then Inl (IllegalTlvType type)
       else Inr (ucast type, rest))"

definition readNonNegativeInteger ::
  "iterator_kind \<Rightarrow> nat \<Rightarrow> byte list \<Rightarrow> (uint64 \<times> byte list) result" where
  "readNonNegativeInteger k sz bs =
     (if sz \<noteq> 1 \<and> sz \<noteq> 2 \<and> sz \<noteq> 4 \<and> sz \<noteq> 8 then Inl (InvalidNniLength sz)
      else case ReadNumber k sz bs 0 of (isOk, number, rest) \<Rightarrow>
        if \<not> isOk then Inl InsufficientNni else Inr (number, rest))"

section \<open>Sizes and writing\<close>

definition sizeOfVarNumber :: "uint64 \<Rightarrow> nat" where
  "sizeOfVarNumber number =
     (if number < 253 then 1 else if number \<le> 0xFFFF then 3 else if number \<le> 0xFFFFFFFF then 5 else 9)"

definition sizeOfNonNegativeInteger :: "uint64 \<Rightarrow> nat" where
  "sizeOfNonNegativeInteger integer =
     (if integer \<le> 0xFF then 1 else if integer \<le> 0xFFFF then 2 else if integer \<le> 0xFFFFFFFF then 4 else 8)"

text \<open>
  The bytes of an integer in network order, and the two stream writers: the stream is the list of
  bytes written to it so far.
\<close>

definition native_to_big16 :: "uint64 \<Rightarrow> byte list" where
  "native_to_big16 n = be_bytes 2 (unat (ucast n :: uint16))"

definition native_to_big32 :: "uint64 \<Rightarrow> byte list" where
  "native_to_big32 n = be_bytes 4 (unat (ucast n :: uint32))"

definition native_to_big64 :: "uint64 \<Rightarrow> byte list" where
  "native_to_big64 n = be_bytes 8 (unat n)"

definition writeVarNumber :: "byte list \<Rightarrow> uint64 \<Rightarrow> nat \<times> byte list" where
  "writeVarNumber os number =
     (if number < 253 then (1, os @ [ucast number])
      else if number \<le> 0xFFFF then (3, (os @ [253]) @ native_to_big16 number)
      else if number \<le> 0xFFFFFFFF then (5, (os @ [254]) @ native_to_big32 number)
      else (9, (os @ [255]) @ native_to_big64 number))"

definition writeNonNegativeInteger :: "byte list \<Rightarrow> uint64 \<Rightarrow> nat \<times> byte list" where
  "writeNonNegativeInteger os integer =
     (if integer \<le> 0xFF then (1, os @ [ucast integer])
      else if integer \<le> 0xFFFF then (2, os @ native_to_big16 integer)
      else if integer \<le> 0xFFFFFFFF then (4, os @ native_to_big32 integer)
      else (8, os @ native_to_big64 integer))"

section \<open>Reference encodings\<close>

text \<open>The byte strings the NDN packet format assigns to a VAR-NUMBER and a NonNegativeInteger.\<close>

definition varNumber_bytes :: "uint64 \<Rightarrow> byte list" where
  "varNumber_bytes n =
     (if unat n < 253 then be_bytes 1 (unat n)
      else if unat n < 2 ^ 16 then 253 # be_bytes 2 (unat n)
      else if unat n < 2 ^ 32 then 254 # be_bytes 4 (unat n)
      else 255 # be_bytes 8 (unat n))"

definition nni_bytes :: "uint64 \<Rightarrow> byte list" where
  "nni_bytes n =
     (if unat n < 2 ^ 8 then be_bytes 1 (unat n)
      else if unat n < 2 ^ 16 then be_bytes 2 (unat n)
      else if unat n < 2 ^ 32 then be_bytes 4 (unat n)
      else be_bytes 8 (unat n))"

section \<open>Reading is big-endian, whichever iterator is used\<close>

lemma shift_or_byte: "push_bit 8 (w :: uint64) OR ucast (b :: byte) = w * 256 + ucast b"
proof -
  have "push_bit 8 w AND ucast b = (0 :: uint64)"
    by (rule bit_word_eqI) (auto simp: bit_simps dest: bit_imp_le_length)
  then have "push_bit 8 w + ucast b = push_bit 8 w OR (ucast b :: uint64)"
    by (rule disjunctive_add_eq_or)
  then show ?thesis by (simp add: push_bit_eq_mult)
qed

lemma readNumberSlow_loop_spec:
  "count \<le> sz \<Longrightarrow> number = word_of_nat m \<Longrightarrow> sz - count \<le> length bs \<Longrightarrow>
     readNumberSlow_loop sz count number bs =
       (True, word_of_nat (m * 256 ^ (sz - count) + be_nat (take (sz - count) bs)), drop (sz - count) bs)"
proof (induction sz count number bs arbitrary: m rule: readNumberSlow_loop.induct)
  case (1 sz count number)
  then show ?case by simp
next
  case (2 sz count number b bs)
  show ?case
  proof (cases "count < sz")
    case True
    then obtain d where d: "sz - count = Suc d" "sz - Suc count = d"
      by (metis Suc_diff_Suc)
    have num: "push_bit 8 number OR ucast b = word_of_nat (m * 256 + unat b)"
      using "2.prems"(2) by (simp add: shift_or_byte unsigned_of_nat)
    have "readNumberSlow_loop sz (Suc count) (push_bit 8 number OR ucast b) bs =
        (True, word_of_nat ((m * 256 + unat b) * 256 ^ d + be_nat (take d bs)), drop d bs)"
      using "2.IH" [OF True _ num] True "2.prems"(3) d by simp
    with True d show ?thesis
      using "2.prems"(3) by (simp add: be_nat_Cons algebra_simps)
  next
    case False
    with "2.prems" show ?thesis by simp
  qed
qed

lemma readNumberSlow_loop_short:
  "count \<le> sz \<Longrightarrow> length bs < sz - count \<Longrightarrow> \<not> fst (readNumberSlow_loop sz count number bs)"
  by (induction sz count number bs rule: readNumberSlow_loop.induct) auto

definition nni_sizes :: "nat set" where
  "nni_sizes = {1, 2, 4, 8}"

lemma ucast_word_of_nat_be_nat:
  assumes "length bs = n" and "8 * n \<le> LENGTH('a)"
  shows "(ucast (word_of_nat (be_nat bs) :: 'a::len word) :: uint64) = word_of_nat (be_nat bs)"
proof -
  have "(256 :: nat) ^ n = 2 ^ (8 * n)"
    by (simp add: power_mult)
  also have "\<dots> \<le> 2 ^ LENGTH('a)"
    using assms(2) by (intro power_increasing) auto
  finally have "be_nat bs < 2 ^ LENGTH('a)"
    using be_nat_less [of bs] assms(1) by simp
  then show ?thesis
    by (simp add: unsigned_of_nat take_bit_nat_eq_self)
qed

lemma take_Suc_0_be_nat: "bs \<noteq> [] \<Longrightarrow> be_nat (take (Suc 0) bs) = unat (hd bs)"
  by (cases bs) (simp_all add: be_nat_Cons)

lemma ReadNumberFast_enough:
  assumes "sz \<in> nni_sizes" and "sz \<le> length bs"
  shows "ReadNumberFast sz bs n0 = (True, word_of_nat (be_nat (take sz bs)), drop sz bs)"
proof -
  consider "sz = 1" | "sz = 2" | "sz = 4" | "sz = 8"
    using assms(1) by (auto simp: nni_sizes_def)
  then show ?thesis
  proof cases
    case 1
    with assms(2) show ?thesis
      by (cases bs) (auto simp: ReadNumberFast_def be_nat_Cons)
  qed (use assms(2) in \<open>simp_all add: ReadNumberFast_def ucast_word_of_nat_be_nat\<close>)
qed

lemma ReadNumberSlow_enough:
  "sz \<le> length bs \<Longrightarrow>
     ReadNumberSlow sz bs n0 = (True, word_of_nat (be_nat (take sz bs)), drop sz bs)"
  using readNumberSlow_loop_spec [of 0 sz 0 0 bs] by (simp add: ReadNumberSlow_def)

lemma ReadNumber_enough:
  "sz \<in> nni_sizes \<Longrightarrow> sz \<le> length bs \<Longrightarrow>
     ReadNumber k sz bs n0 = (True, word_of_nat (be_nat (take sz bs)), drop sz bs)"
  by (cases k) (simp_all add: ReadNumber_def ReadNumberFast_enough ReadNumberSlow_enough)

lemma ReadNumber_short: "length bs < sz \<Longrightarrow> \<not> fst (ReadNumber k sz bs n0)"
  using readNumberSlow_loop_short [of 0 sz bs 0]
  by (cases k) (simp_all add: ReadNumber_def ReadNumberFast_def ReadNumberSlow_def)

lemma ReadNumber_ok_iff: "sz \<in> nni_sizes \<Longrightarrow> fst (ReadNumber k sz bs n0) \<longleftrightarrow> sz \<le> length bs"
  using ReadNumber_enough ReadNumber_short by (metis fst_conv linorder_not_le)

section \<open>VAR-NUMBER\<close>

definition varNumber_extra :: "byte \<Rightarrow> nat" where
  "varNumber_extra b = (if b < 253 then 0 else if b = 253 then 2 else if b = 254 then 4 else 8)"

lemma varNumber_extra_sizes: "\<not> b < 253 \<Longrightarrow> varNumber_extra b \<in> nni_sizes"
  by (simp add: varNumber_extra_def nni_sizes_def)

lemma readVarNumber_Nil [simp]: "readVarNumber k [] = Inl EmptyBuffer"
  by (simp add: readVarNumber_def)

lemma readVarNumber_nothrow_Cons:
  "readVarNumber_nothrow k (b # r) n0 =
     (if b < 253 then (True, ucast b, r) else ReadNumber k (varNumber_extra b) r n0)"
  by (simp add: readVarNumber_nothrow_def varNumber_extra_def)

lemma readVarNumber_Cons:
  "readVarNumber k (b # r) =
     (if b < 253 then Inr (ucast b, r)
      else if varNumber_extra b \<le> length r
      then Inr (word_of_nat (be_nat (take (varNumber_extra b) r)), drop (varNumber_extra b) r)
      else Inl InsufficientData)"
proof (cases "b < 253")
  case True
  then show ?thesis by (simp add: readVarNumber_def readVarNumber_nothrow_Cons)
next
  case False
  note sizes = varNumber_extra_sizes [OF False]
  show ?thesis
  proof (cases "varNumber_extra b \<le> length r")
    case True
    with False sizes show ?thesis
      by (simp add: readVarNumber_def readVarNumber_nothrow_Cons ReadNumber_enough)
  next
    case short: False
    then have "\<not> fst (ReadNumber k (varNumber_extra b) r 0)"
      by (simp add: ReadNumber_short)
    then obtain a ba where "ReadNumber k (varNumber_extra b) r 0 = (False, a, ba)"
      by (cases "ReadNumber k (varNumber_extra b) r 0") auto
    with False short show ?thesis
      by (simp add: readVarNumber_def readVarNumber_nothrow_Cons)
  qed
qed

lemma readVarNumber_nothrow_iff:
  "fst (readVarNumber_nothrow k bs n0) \<longleftrightarrow> (\<exists>n r. readVarNumber k bs = Inr (n, r))"
proof (cases bs)
  case (Cons b r)
  then show ?thesis
    using ReadNumber_ok_iff [OF varNumber_extra_sizes]
    by (auto simp: readVarNumber_nothrow_Cons readVarNumber_Cons)
qed (simp add: readVarNumber_nothrow_def)

lemma readVarNumber_nothrow_Inr:
  "readVarNumber k bs = Inr (n, r) \<Longrightarrow> readVarNumber_nothrow k bs n0 = (True, n, r)"
proof (cases bs)
  case (Cons b r')
  assume "readVarNumber k bs = Inr (n, r)"
  with Cons show ?thesis
    using varNumber_extra_sizes [of b]
    by (auto simp: readVarNumber_nothrow_Cons readVarNumber_Cons ReadNumber_enough split: if_splits)
qed simp

lemma unat_ucast_small:
  "unat (n :: uint64) < 2 ^ LENGTH('a) \<Longrightarrow> unat (ucast n :: 'a::len word) = unat n"
  by (simp add: unsigned_ucast_eq take_bit_nat_eq_self)

lemma unat_ucast_byte: "unat (ucast (b :: byte) :: uint64) = unat b"
  using unat_byte_less [of b] by (simp add: unsigned_ucast_eq take_bit_nat_eq_self)

lemma ucast_byte_back: "(ucast (ucast (b :: byte) :: uint64) :: byte) = b"
  by (rule bit_word_eqI) (auto simp: bit_simps)

lemma be_bytes_1: "be_bytes (Suc 0) (unat n) = [ucast n]"
  by simp

lemma writeVarNumber_eq: "writeVarNumber os n = (sizeOfVarNumber n, os @ varNumber_bytes n)"
  by (auto simp: writeVarNumber_def sizeOfVarNumber_def varNumber_bytes_def native_to_big16_def
      native_to_big32_def native_to_big64_def word_less_nat_alt word_le_nat_alt unat_ucast_small be_bytes_1
      simp del: be_bytes.simps)

lemma writeNonNegativeInteger_eq:
  "writeNonNegativeInteger os n = (sizeOfNonNegativeInteger n, os @ nni_bytes n)"
  by (auto simp: writeNonNegativeInteger_def sizeOfNonNegativeInteger_def nni_bytes_def
      native_to_big16_def native_to_big32_def native_to_big64_def word_less_nat_alt word_le_nat_alt
      unat_ucast_small be_bytes_1 simp del: be_bytes.simps)

lemma length_varNumber_bytes [simp]: "length (varNumber_bytes n) = sizeOfVarNumber n"
  by (auto simp: varNumber_bytes_def sizeOfVarNumber_def word_less_nat_alt word_le_nat_alt)

lemma length_nni_bytes [simp]: "length (nni_bytes n) = sizeOfNonNegativeInteger n"
  by (auto simp: nni_bytes_def sizeOfNonNegativeInteger_def word_less_nat_alt word_le_nat_alt)

lemma varNumber_bytes_cases:
  obtains (one) "unat n < 253" "varNumber_bytes n = [ucast n]"
  | (two) "253 \<le> unat n" "unat n < 2 ^ 16" "varNumber_bytes n = 253 # be_bytes 2 (unat n)"
  | (four) "2 ^ 16 \<le> unat n" "unat n < 2 ^ 32" "varNumber_bytes n = 254 # be_bytes 4 (unat n)"
  | (eight) "2 ^ 32 \<le> unat n" "varNumber_bytes n = 255 # be_bytes 8 (unat n)"
proof -
  show ?thesis
  proof (cases "unat n < 253")
    case True
    then show ?thesis by (intro one) (simp_all add: varNumber_bytes_def)
  next
    case ge: False
    show ?thesis
    proof (cases "unat n < 2 ^ 16")
      case True
      with ge show ?thesis by (intro two) (simp_all add: varNumber_bytes_def)
    next
      case False
      then show ?thesis
        by (cases "unat n < 2 ^ 32") (auto simp: varNumber_bytes_def intro: four eight)
    qed
  qed
qed

lemma unat_uint64_less: "unat (n :: uint64) < 2 ^ 64"
  using unsigned_less [of n] by simp

lemma word_of_be_bytes:
  "unat (n :: uint64) < 256 ^ k \<Longrightarrow> word_of_nat (be_nat (be_bytes k (unat n))) = n"
  by (simp add: be_nat_be_bytes)

lemma readVarNumber_bytes: "readVarNumber k (varNumber_bytes n @ rest) = Inr (n, rest)"
proof (cases rule: varNumber_bytes_cases [of n])
  case one
  then have "(ucast n :: byte) < 253"
    by (simp add: word_less_nat_alt unat_ucast_small)
  moreover have "(ucast (ucast n :: byte) :: uint64) = n"
    using one by (simp only: word_unat_eq_iff unat_ucast_byte) (simp add: unat_ucast_small)
  ultimately show ?thesis
    using one by (simp add: readVarNumber_Cons)
next
  case two
  then show ?thesis
    using word_of_be_bytes [of n 2] by (simp add: readVarNumber_Cons varNumber_extra_def del: be_bytes.simps)
next
  case four
  then show ?thesis
    using word_of_be_bytes [of n 4] by (simp add: readVarNumber_Cons varNumber_extra_def del: be_bytes.simps)
next
  case eight
  then show ?thesis
    using word_of_be_bytes [of n 8] unat_uint64_less [of n]
    by (simp add: readVarNumber_Cons varNumber_extra_def del: be_bytes.simps)
qed

text \<open>A successful read consumes 1, 3, 5 or 9 octets, at least as many as the shortest form has.\<close>

lemma readVarNumber_Inr:
  assumes "readVarNumber k bs = Inr (n, rest)"
  obtains p where "bs = p @ rest" "length p \<in> {1, 3, 5, 9}" "sizeOfVarNumber n \<le> length p"
    "length p = sizeOfVarNumber n \<Longrightarrow> p = varNumber_bytes n"
proof (cases bs)
  case Nil
  with assms show ?thesis by simp
next
  case (Cons b r)
  show ?thesis
  proof (cases "b < 253")
    case True
    with assms Cons have n: "n = ucast b" and r: "rest = r"
      by (auto simp: readVarNumber_Cons)
    have small: "unat n < 253"
      using True unfolding n unat_ucast_byte by (simp add: word_less_nat_alt)
    moreover have "(ucast n :: byte) = b"
      unfolding n by (rule ucast_byte_back)
    ultimately show ?thesis
      using Cons r by (intro that [of "[b]"])
        (simp_all add: sizeOfVarNumber_def varNumber_bytes_def word_less_nat_alt)
  next
    case False
    define e where "e = varNumber_extra b"
    have e: "e \<le> length r" and n: "n = word_of_nat (be_nat (take e r))" and rest: "rest = drop e r"
      using assms Cons False by (auto simp: readVarNumber_Cons e_def split: if_splits)
    have bound: "be_nat (take e r) < 256 ^ e"
      using be_nat_less [of "take e r"] e by simp
    have "be_nat (take e r) < 2 ^ 64"
      using bound by (auto simp: e_def varNumber_extra_def split: if_splits)
    then have un: "unat n = be_nat (take e r)"
      unfolding n by (simp add: unat_of_nat)
    have bytes: "be_bytes e (unat n) = take e r"
      using be_bytes_be_nat [of "take e r"] e un by simp
    have b: "b = 255" if "b \<noteq> 253" "b \<noteq> 254"
      using False that unat_byte_less [of b] by (simp add: word_less_nat_alt word_unat_eq_iff)
    show ?thesis
    proof (rule that [of "b # take e r"])
      show "bs = (b # take e r) @ rest" by (simp add: Cons rest)
      show "length (b # take e r) \<in> {1, 3, 5, 9}"
        using e by (simp add: e_def varNumber_extra_def)
      show "sizeOfVarNumber n \<le> length (b # take e r)"
        using False bound e
        by (auto simp: sizeOfVarNumber_def word_less_nat_alt word_le_nat_alt un e_def varNumber_extra_def
            split: if_splits)
      assume "length (b # take e r) = sizeOfVarNumber n"
      then show "b # take e r = varNumber_bytes n"
        using False e bytes b
        by (auto simp: sizeOfVarNumber_def varNumber_bytes_def word_less_nat_alt word_le_nat_alt
            e_def varNumber_extra_def simp del: be_bytes.simps split: if_splits)
    qed
  qed
qed


lemma readVarNumber_consumes: "readVarNumber k bs = Inr (n, rest) \<Longrightarrow> length rest < length bs"
  by (elim readVarNumber_Inr) auto

lemma readVarNumber_suffix: "readVarNumber k bs = Inr (n, rest) \<Longrightarrow> suffix rest bs"
  by (elim readVarNumber_Inr) (simp add: suffix_def)

lemma readVarNumber_kind: "readVarNumber k bs = readVarNumber k' bs"
  by (cases bs) (simp_all add: readVarNumber_Cons)

section \<open>TLV-TYPE\<close>

lemma unat_uint32_less: "unat (t :: uint32) < 2 ^ 32"
  using unsigned_less [of t] by simp

lemma unat_ucast_uint32: "unat (ucast (t :: uint32) :: uint64) = unat t"
  using unat_uint32_less [of t] by (simp add: unsigned_ucast_eq take_bit_nat_eq_self)

lemma readType_kind: "readType k bs = readType k' bs"
  unfolding readType_def by (simp add: readVarNumber_kind [of k bs k'])

lemma readType_Inr:
  assumes "readType k bs = Inr (t, rest)"
  shows "t \<noteq> 0" and "readVarNumber k bs = Inr (ucast t, rest)"
proof -
  obtain n where n: "readVarNumber k bs = Inr (n, rest)" "n \<noteq> 0" "n \<le> 0xFFFFFFFF" "t = ucast n"
    using assms by (auto simp: readType_def bindE_eq_Inr split: if_splits)
  have small: "unat n < 2 ^ 32"
    using n(3) by (simp add: word_le_nat_alt)
  have t: "unat t = unat n"
    using small n(4) by (simp add: unat_ucast_small)
  show "t \<noteq> 0"
    using t n(2) by (metis unat_0 word_unat_eq_iff)
  have "ucast t = n"
    using t by (simp only: word_unat_eq_iff unat_ucast_uint32)
  with n(1) show "readVarNumber k bs = Inr (ucast t, rest)"
    by simp
qed

lemma ucast_uint32_le: "(ucast (t :: uint32) :: uint64) \<le> 0xFFFFFFFF"
  using unat_uint32_less [of t] by (simp add: word_le_nat_alt unat_ucast_uint32)

lemma ucast_uint32_back: "(ucast (ucast (t :: uint32) :: uint64) :: uint32) = t"
  by (rule bit_word_eqI) (auto simp: bit_simps)

lemma ucast_uint32_eq_0: "(ucast (t :: uint32) :: uint64) = 0 \<longleftrightarrow> t = 0"
  by (metis ucast_uint32_back ucast_0)

lemma readType_bytes: "t \<noteq> 0 \<Longrightarrow> readType k (varNumber_bytes (ucast t) @ rest) = Inr (t, rest)"
  using ucast_uint32_le [of t]
  by (simp add: readType_def readVarNumber_bytes ucast_uint32_eq_0 ucast_uint32_back not_less)

lemma readType_consumes: "readType k bs = Inr (t, rest) \<Longrightarrow> length rest < length bs"
  by (drule readType_Inr(2)) (rule readVarNumber_consumes)

lemma readType_suffix: "readType k bs = Inr (t, rest) \<Longrightarrow> suffix rest bs"
  by (drule readType_Inr(2)) (rule readVarNumber_suffix)

lemma readType_nothrow_iff:
  "fst (readType_nothrow k bs t0) \<longleftrightarrow> (\<exists>t r. readType k bs = Inr (t, r))"
proof (cases "readVarNumber k bs")
  case (Inl e)
  then have "\<not> fst (readVarNumber_nothrow k bs 0)"
    by (simp add: readVarNumber_nothrow_iff)
  with Inl show ?thesis
    by (auto simp: readType_nothrow_def readType_def split: prod.splits)
next
  case (Inr nr)
  then show ?thesis
    by (cases nr) (auto simp: readType_nothrow_def readType_def readVarNumber_nothrow_Inr)
qed

lemma readType_nothrow_Inr:
  "readType k bs = Inr (t, r) \<Longrightarrow> readType_nothrow k bs t0 = (True, t, r)"
  by (auto simp: readType_def bindE_eq_Inr readType_nothrow_def readVarNumber_nothrow_Inr split: if_splits)

section \<open>NonNegativeInteger\<close>

lemma readNonNegativeInteger_eq:
  "readNonNegativeInteger k sz bs =
     (if sz \<notin> nni_sizes then Inl (InvalidNniLength sz)
      else if length bs < sz then Inl InsufficientNni
      else Inr (word_of_nat (be_nat (take sz bs)), drop sz bs))"
proof (cases "sz \<in> nni_sizes")
  case True
  then have sz: "\<not> (sz \<noteq> 1 \<and> sz \<noteq> 2 \<and> sz \<noteq> 4 \<and> sz \<noteq> 8)"
    by (auto simp: nni_sizes_def)
  show ?thesis
  proof (cases "length bs < sz")
    case short: True
    then obtain a b where "ReadNumber k sz bs 0 = (False, a, b)"
      using ReadNumber_short [of bs sz k 0] by (cases "ReadNumber k sz bs 0") auto
    with True sz short show ?thesis by (simp add: readNonNegativeInteger_def)
  next
    case False
    with True sz show ?thesis by (simp add: readNonNegativeInteger_def ReadNumber_enough)
  qed
next
  case False
  then show ?thesis by (auto simp: readNonNegativeInteger_def nni_sizes_def)
qed

lemma nni_bytes_sizes: "sizeOfNonNegativeInteger n \<in> nni_sizes"
  by (simp add: sizeOfNonNegativeInteger_def nni_sizes_def)

lemma be_nat_nni_bytes: "be_nat (nni_bytes n) = unat n"
  using unat_uint64_less [of n] by (simp add: nni_bytes_def be_nat_be_bytes del: be_bytes.simps)

lemma readNonNegativeInteger_bytes:
  "readNonNegativeInteger k (length (nni_bytes n)) (nni_bytes n @ rest) = Inr (n, rest)"
  using nni_bytes_sizes [of n] be_nat_nni_bytes [of n]
  by (simp add: readNonNegativeInteger_eq flip: length_nni_bytes)

section \<open>Correctness of the number encodings\<close>

text \<open>
  C35: \<open>writeVarNumber\<close> appends exactly \<open>sizeOfVarNumber\<close> bytes to the stream, and \<open>readVarNumber\<close>,
  over either kind of iterator, gets the number back and stops right after those bytes.
\<close>

theorem varNumber_round_trip:
  "\<exists>w. writeVarNumber os n = (sizeOfVarNumber n, os @ w) \<and> length w = sizeOfVarNumber n \<and>
     readVarNumber k (w @ rest) = Inr (n, rest)"
  by (rule exI [of _ "varNumber_bytes n"]) (simp add: writeVarNumber_eq readVarNumber_bytes)

text \<open>
  \<open>writeNonNegativeInteger\<close> appends \<open>sizeOfNonNegativeInteger\<close> bytes, and
  \<open>readNonNegativeInteger\<close>, told that length, gets the number back and stops right after them.
\<close>

theorem nonNegativeInteger_round_trip:
  "\<exists>w. writeNonNegativeInteger os n = (sizeOfNonNegativeInteger n, os @ w) \<and>
     length w = sizeOfNonNegativeInteger n \<and>
     readNonNegativeInteger k (sizeOfNonNegativeInteger n) (w @ rest) = Inr (n, rest)"
  using readNonNegativeInteger_bytes [of k n rest]
  by (intro exI [of _ "nni_bytes n"]) (simp add: writeNonNegativeInteger_eq)

text \<open>
  C34: The readers specialised to contiguous iterators (\<open>ReadNumberFast\<close>, one big-endian load) and to
  other iterators (\<open>ReadNumberSlow\<close>, byte by byte) agree on every input: the value, the position
  after it, and the error raised.
\<close>

theorem readers_agree:
  "readVarNumber k bs = readVarNumber k' bs \<and> readType k bs = readType k' bs \<and>
   readNonNegativeInteger k sz bs = readNonNegativeInteger k' sz bs"
  by (simp add: readVarNumber_kind [of k bs k'] readType_kind [of k bs k'] readNonNegativeInteger_eq)

text \<open>
  What \<open>readVarNumber\<close> accepts: it consumes a prefix of 1, 3, 5 or 9 bytes, never fewer than
  \<open>sizeOfVarNumber\<close> of the value it returns, and a prefix of that least length is the one
  \<open>writeVarNumber\<close> writes.  Longer encodings of the same value are accepted.
\<close>

theorem readVarNumber_shortest:
  assumes "readVarNumber k bs = Inr (n, rest)"
  shows "\<exists>p. bs = p @ rest \<and> length p \<in> {1, 3, 5, 9} \<and> sizeOfVarNumber n \<le> length p \<and>
    (length p = sizeOfVarNumber n \<longrightarrow> writeVarNumber [] n = (length p, p))"
proof -
  obtain p where "bs = p @ rest" "length p \<in> {1, 3, 5, 9}" "sizeOfVarNumber n \<le> length p"
    "length p = sizeOfVarNumber n \<Longrightarrow> p = varNumber_bytes n"
    using readVarNumber_Inr [OF assms] by metis
  then show ?thesis by (intro exI [of _ p]) (simp add: writeVarNumber_eq)
qed

theorem readVarNumber_shortest_witness:
  "\<exists>p. [253, 0, 5, 7] = p @ [7] \<and> length p \<in> {1, 3, 5, 9} \<and> sizeOfVarNumber 5 \<le> length p \<and>
    (length p = sizeOfVarNumber 5 \<longrightarrow> writeVarNumber [] 5 = (length p, p))"
  by (rule readVarNumber_shortest [of ContiguousIterator]) code_simp

text \<open>
  \<open>readNonNegativeInteger\<close> fails exactly when the length is not 1, 2, 4 or 8 or fewer bytes than
  that remain.  More bytes than the length are accepted, contrary to its documentation.
\<close>

theorem readNonNegativeInteger_accepts:
  "(\<exists>n r. readNonNegativeInteger k sz bs = Inr (n, r)) \<longleftrightarrow>
     (sz = 1 \<or> sz = 2 \<or> sz = 4 \<or> sz = 8) \<and> sz \<le> length bs"
  by (cases "sz \<le> length bs") (auto simp: readNonNegativeInteger_eq nni_sizes_def not_less)

end
