(* ===== verification/Encoder.thy ===== *)
theory Encoder
  imports Tlv
begin

text \<open>
  The two encoders of \<open>ndn-cxx/encoding\<close>: \<open>Encoder\<close> (\<open>encoder.hpp\<close>, \<open>encoder.cpp\<close>), which writes
  into a growable buffer, mostly backwards, and \<open>Estimator\<close> (\<open>estimator.hpp\<close>), which only adds up
  sizes.  An \<open>Encoder\<close> is its buffer and the offsets of its two iterators.  Encoding routines of the
  library are templates over \<open>EncodingImpl<TAG>\<close>; they are modelled once, over the type
  \<open>encodingImpl\<close> whose two constructors are the two instances of the template.
\<close>

section \<open>Encoder\<close>

record encoder =
  e_buffer :: buffer
  e_begin :: nat
  e_end :: nat

definition mk_Encoder :: "nat \<Rightarrow> nat \<Rightarrow> encoder" where
  "mk_Encoder totalReserve reserveFromBack =
     (let pos = totalReserve - (if reserveFromBack < totalReserve then reserveFromBack else 0)
      in \<lparr>e_buffer = replicate totalReserve 0, e_begin = pos, e_end = pos\<rparr>)"

definition Encoder_capacity :: "encoder \<Rightarrow> nat" where
  "Encoder_capacity e = length (e_buffer e)"

definition Encoder_size :: "encoder \<Rightarrow> nat" where
  "Encoder_size e = e_end e - e_begin e"

definition Encoder_reserve :: "nat \<Rightarrow> bool \<Rightarrow> encoder \<Rightarrow> encoder" where
  "Encoder_reserve sz0 addInFront e =
     (let buf = e_buffer e;
          sz = (if sz0 < length buf then length buf else sz0)
      in if addInFront
         then let diffEnd = length buf - e_end e;
                  diffBegin = length buf - e_begin e;
                  buf' = replicate (sz - length buf) 0 @ buf
              in \<lparr>e_buffer = buf', e_begin = length buf' - diffBegin, e_end = length buf' - diffEnd\<rparr>
         else let diffEnd = e_end e;
                  diffBegin = e_begin e;
                  buf' = buf @ replicate (sz - length buf) 0
              in \<lparr>e_buffer = buf', e_begin = diffBegin, e_end = diffEnd\<rparr>)"

definition Encoder_reserveBack :: "nat \<Rightarrow> encoder \<Rightarrow> encoder" where
  "Encoder_reserveBack sz e =
     (if e_end e + sz > length (e_buffer e)
      then Encoder_reserve (length (e_buffer e) * 2 + sz) False e else e)"

definition Encoder_reserveFront :: "nat \<Rightarrow> encoder \<Rightarrow> encoder" where
  "Encoder_reserveFront sz e =
     (if sz > e_begin e then Encoder_reserve (length (e_buffer e) * 2 + sz) True e else e)"

definition Encoder_prependRange :: "byte list \<Rightarrow> encoder \<Rightarrow> nat \<times> encoder" where
  "Encoder_prependRange bytes e =
     (let len = length bytes;
          e1 = Encoder_reserveFront len e;
          b = e_begin e1 - len
      in (len, e1\<lparr>e_buffer := overwrite b bytes (e_buffer e1), e_begin := b\<rparr>))"

definition Encoder_appendRange :: "byte list \<Rightarrow> encoder \<Rightarrow> nat \<times> encoder" where
  "Encoder_appendRange bytes e =
     (let len = length bytes;
          e1 = Encoder_reserveBack len e
      in (len, e1\<lparr>e_buffer := overwrite (e_end e1) bytes (e_buffer e1), e_end := e_end e1 + len\<rparr>))"

definition Encoder_prependBytes :: "byte list \<Rightarrow> encoder \<Rightarrow> nat \<times> encoder" where
  "Encoder_prependBytes bytes e = Encoder_prependRange bytes e"

definition Encoder_appendBytes :: "byte list \<Rightarrow> encoder \<Rightarrow> nat \<times> encoder" where
  "Encoder_appendBytes bytes e = Encoder_appendRange bytes e"

definition Encoder_prependVarNumber :: "uint64 \<Rightarrow> encoder \<Rightarrow> nat \<times> encoder" where
  "Encoder_prependVarNumber varNumber e =
     (if varNumber < 253 then (1, snd (Encoder_prependBytes [ucast varNumber] e))
      else if varNumber \<le> 0xFFFF then
        (3, snd (Encoder_prependBytes [253] (snd (Encoder_prependBytes (native_to_big16 varNumber) e))))
      else if varNumber \<le> 0xFFFFFFFF then
        (5, snd (Encoder_prependBytes [254] (snd (Encoder_prependBytes (native_to_big32 varNumber) e))))
      else
        (9, snd (Encoder_prependBytes [255] (snd (Encoder_prependBytes (native_to_big64 varNumber) e)))))"

definition Encoder_appendVarNumber :: "uint64 \<Rightarrow> encoder \<Rightarrow> nat \<times> encoder" where
  "Encoder_appendVarNumber varNumber e =
     (if varNumber < 253 then (1, snd (Encoder_appendBytes [ucast varNumber] e))
      else if varNumber \<le> 0xFFFF then
        (3, snd (Encoder_appendBytes (native_to_big16 varNumber) (snd (Encoder_appendBytes [253] e))))
      else if varNumber \<le> 0xFFFFFFFF then
        (5, snd (Encoder_appendBytes (native_to_big32 varNumber) (snd (Encoder_appendBytes [254] e))))
      else
        (9, snd (Encoder_appendBytes (native_to_big64 varNumber) (snd (Encoder_appendBytes [255] e)))))"

definition Encoder_prependNonNegativeInteger :: "uint64 \<Rightarrow> encoder \<Rightarrow> nat \<times> encoder" where
  "Encoder_prependNonNegativeInteger varNumber e =
     (if varNumber \<le> 0xFF then Encoder_prependBytes [ucast varNumber] e
      else if varNumber \<le> 0xFFFF then Encoder_prependBytes (native_to_big16 varNumber) e
      else if varNumber \<le> 0xFFFFFFFF then Encoder_prependBytes (native_to_big32 varNumber) e
      else Encoder_prependBytes (native_to_big64 varNumber) e)"

definition Encoder_appendNonNegativeInteger :: "uint64 \<Rightarrow> encoder \<Rightarrow> nat \<times> encoder" where
  "Encoder_appendNonNegativeInteger varNumber e =
     (if varNumber \<le> 0xFF then Encoder_appendBytes [ucast varNumber] e
      else if varNumber \<le> 0xFFFF then Encoder_appendBytes (native_to_big16 varNumber) e
      else if varNumber \<le> 0xFFFFFFFF then Encoder_appendBytes (native_to_big32 varNumber) e
      else Encoder_appendBytes (native_to_big64 varNumber) e)"

definition Encoder_prependByteArrayBlock :: "uint32 \<Rightarrow> byte list \<Rightarrow> encoder \<Rightarrow> nat \<times> encoder" where
  "Encoder_prependByteArrayBlock type array e =
     (let (l1, e1) = Encoder_prependBytes array e;
          (l2, e2) = Encoder_prependVarNumber (word_of_nat (length array)) e1;
          (l3, e3) = Encoder_prependVarNumber (ucast type) e2
      in (l1 + l2 + l3, e3))"

definition Encoder_appendByteArrayBlock :: "uint32 \<Rightarrow> byte list \<Rightarrow> encoder \<Rightarrow> nat \<times> encoder" where
  "Encoder_appendByteArrayBlock type array e =
     (let (l1, e1) = Encoder_appendVarNumber (ucast type) e;
          (l2, e2) = Encoder_appendVarNumber (word_of_nat (length array)) e1;
          (l3, e3) = Encoder_appendBytes array e2
      in (l1 + l2 + l3, e3))"

section \<open>Estimator\<close>

definition Estimator_prependBytes :: "byte list \<Rightarrow> nat" where
  "Estimator_prependBytes bytes = length bytes"

definition Estimator_appendBytes :: "byte list \<Rightarrow> nat" where
  "Estimator_appendBytes bytes = length bytes"

definition Estimator_prependRange :: "byte list \<Rightarrow> nat" where
  "Estimator_prependRange bytes = length bytes"

definition Estimator_appendRange :: "byte list \<Rightarrow> nat" where
  "Estimator_appendRange bytes = length bytes"

definition Estimator_prependVarNumber :: "uint64 \<Rightarrow> nat" where
  "Estimator_prependVarNumber n = sizeOfVarNumber n"

definition Estimator_appendVarNumber :: "uint64 \<Rightarrow> nat" where
  "Estimator_appendVarNumber n = sizeOfVarNumber n"

definition Estimator_prependNonNegativeInteger :: "uint64 \<Rightarrow> nat" where
  "Estimator_prependNonNegativeInteger n = sizeOfNonNegativeInteger n"

definition Estimator_appendNonNegativeInteger :: "uint64 \<Rightarrow> nat" where
  "Estimator_appendNonNegativeInteger n = sizeOfNonNegativeInteger n"

definition Estimator_prependByteArrayBlock :: "uint32 \<Rightarrow> byte list \<Rightarrow> nat" where
  "Estimator_prependByteArrayBlock type array =
     sizeOfVarNumber (ucast type) + sizeOfVarNumber (word_of_nat (length array)) + length array"

definition Estimator_appendByteArrayBlock :: "uint32 \<Rightarrow> byte list \<Rightarrow> nat" where
  "Estimator_appendByteArrayBlock type array =
     sizeOfVarNumber (ucast type) + sizeOfVarNumber (word_of_nat (length array)) + length array"

section \<open>EncodingImpl\<close>

datatype encodingImpl = EstimatorImpl | EncoderImpl encoder

text \<open>
  An encoding routine returns the number of bytes it added, or throws.  \<open>runSteps\<close> is the body of a
  routine of the form \<open>totalLength = 0; totalLength += step1; totalLength += step2; ...\<close>: every step
  may use the running \<open>totalLength\<close>.
\<close>

type_synonym enc_op = "encodingImpl \<Rightarrow> (nat \<times> encodingImpl) result"

definition prependBytes :: "byte list \<Rightarrow> enc_op" where
  "prependBytes bytes impl = (case impl of
      EstimatorImpl \<Rightarrow> Inr (Estimator_prependBytes bytes, EstimatorImpl)
    | EncoderImpl e \<Rightarrow> (case Encoder_prependBytes bytes e of (l, e') \<Rightarrow> Inr (l, EncoderImpl e')))"

definition prependVarNumber :: "uint64 \<Rightarrow> enc_op" where
  "prependVarNumber n impl = (case impl of
      EstimatorImpl \<Rightarrow> Inr (Estimator_prependVarNumber n, EstimatorImpl)
    | EncoderImpl e \<Rightarrow> (case Encoder_prependVarNumber n e of (l, e') \<Rightarrow> Inr (l, EncoderImpl e')))"

definition prependNonNegativeInteger :: "uint64 \<Rightarrow> enc_op" where
  "prependNonNegativeInteger n impl = (case impl of
      EstimatorImpl \<Rightarrow> Inr (Estimator_prependNonNegativeInteger n, EstimatorImpl)
    | EncoderImpl e \<Rightarrow> (case Encoder_prependNonNegativeInteger n e of (l, e') \<Rightarrow> Inr (l, EncoderImpl e')))"

primrec runSteps_from :: "(nat \<Rightarrow> enc_op) list \<Rightarrow> nat \<Rightarrow> enc_op" where
  "runSteps_from [] totalLength impl = Inr (totalLength, impl)"
| "runSteps_from (s # ss) totalLength impl =
     bindE (s totalLength impl) (\<lambda>(l, impl'). runSteps_from ss (totalLength + l) impl')"

definition runSteps :: "(nat \<Rightarrow> enc_op) list \<Rightarrow> enc_op" where
  "runSteps ss = runSteps_from ss 0"

definition throwEnc :: "error \<Rightarrow> enc_op" where
  "throwEnc err impl = Inl err"

text \<open>The buffer that \<open>EncodingBuffer buffer(estimatedSize, 0)\<close> starts from.\<close>

definition estimate :: "enc_op \<Rightarrow> nat result" where
  "estimate f = bindE (f EstimatorImpl) (\<lambda>(l, _). Inr l)"

definition encodeInto :: "enc_op \<Rightarrow> encoder \<Rightarrow> encoder result" where
  "encodeInto f e = bindE (f (EncoderImpl e)) (\<lambda>(_, impl). case impl of
      EncoderImpl e' \<Rightarrow> Inr e' | EstimatorImpl \<Rightarrow> Inr e)"

text \<open>The two-pass scheme of every \<open>wireEncode() const\<close>: estimate, allocate, encode.\<close>

definition twoPass :: "enc_op \<Rightarrow> encoder result" where
  "twoPass f = bindE (estimate f) (\<lambda>estimatedSize. encodeInto f (mk_Encoder estimatedSize 0))"

section \<open>The Encoder keeps the written bytes contiguous\<close>

definition enc_inv :: "encoder \<Rightarrow> bool" where
  "enc_inv e \<longleftrightarrow> e_begin e \<le> e_end e \<and> e_end e \<le> length (e_buffer e)"

definition contents :: "encoder \<Rightarrow> byte list" where
  "contents e = bslice (e_begin e) (e_end e) (e_buffer e)"

lemma length_contents: "enc_inv e \<Longrightarrow> length (contents e) = Encoder_size e"
  by (simp add: enc_inv_def contents_def Encoder_size_def min_def diff_le_mono)

lemma mk_Encoder_inv [simp]: "enc_inv (mk_Encoder n r)"
  by (simp add: enc_inv_def mk_Encoder_def Let_def)

lemma mk_Encoder_contents [simp]: "contents (mk_Encoder n r) = []"
  by (simp add: contents_def mk_Encoder_def Let_def)

lemma reserve_inv: "enc_inv e \<Longrightarrow> enc_inv (Encoder_reserve n front e)"
  by (auto simp: enc_inv_def Encoder_reserve_def Let_def)

lemma reserve_contents: "enc_inv e \<Longrightarrow> contents (Encoder_reserve n front e) = contents e"
  by (auto simp: enc_inv_def contents_def Encoder_reserve_def Let_def bslice_append_left
      bslice_append_right)

lemma reserve_capacity: "max (length (e_buffer e)) n = length (e_buffer (Encoder_reserve n front e))"
  by (auto simp: Encoder_reserve_def Let_def)

lemma reserveFront_room: "enc_inv e \<Longrightarrow> n \<le> e_begin (Encoder_reserveFront n e)"
  by (auto simp: enc_inv_def Encoder_reserveFront_def Encoder_reserve_def Let_def)

lemma reserveBack_room:
  "enc_inv e \<Longrightarrow> e_end (Encoder_reserveBack n e) + n \<le> length (e_buffer (Encoder_reserveBack n e))"
  by (auto simp: enc_inv_def Encoder_reserveBack_def Encoder_reserve_def Let_def)

lemma reserveFront_inv: "enc_inv e \<Longrightarrow> enc_inv (Encoder_reserveFront n e)"
  by (simp add: Encoder_reserveFront_def reserve_inv)

lemma reserveBack_inv: "enc_inv e \<Longrightarrow> enc_inv (Encoder_reserveBack n e)"
  by (simp add: Encoder_reserveBack_def reserve_inv)

lemma reserveFront_contents: "enc_inv e \<Longrightarrow> contents (Encoder_reserveFront n e) = contents e"
  by (simp add: Encoder_reserveFront_def reserve_contents)

lemma reserveBack_contents: "enc_inv e \<Longrightarrow> contents (Encoder_reserveBack n e) = contents e"
  by (simp add: Encoder_reserveBack_def reserve_contents)

lemma prependRange_spec:
  assumes "enc_inv e" and "Encoder_prependRange bs e = (l, e')"
  shows "l = length bs" and "enc_inv e'" and "contents e' = bs @ contents e"
proof -
  let ?e1 = "Encoder_reserveFront (length bs) e"
  have inv: "enc_inv ?e1" and room: "length bs \<le> e_begin ?e1"
    using assms(1) by (simp_all add: reserveFront_inv reserveFront_room)
  have e': "e' = ?e1\<lparr>e_buffer := overwrite (e_begin ?e1 - length bs) bs (e_buffer ?e1),
      e_begin := e_begin ?e1 - length bs\<rparr>" and l: "l = length bs"
    using assms(2) by (auto simp: Encoder_prependRange_def Let_def)
  show "l = length bs" by (rule l)
  show "enc_inv e'"
    using inv room by (auto simp: e' enc_inv_def)
  have "contents e' = bslice (e_begin ?e1 - length bs) (e_begin ?e1) (e_buffer e') @
      bslice (e_begin ?e1) (e_end ?e1) (e_buffer e')"
    using inv room by (simp add: contents_def e' enc_inv_def bslice_join)
  also have "\<dots> = bs @ contents ?e1"
    using inv room bslice_overwrite [of "e_begin ?e1 - length bs" bs "e_buffer ?e1"]
    by (simp add: e' contents_def enc_inv_def bslice_overwrite_after)
  finally show "contents e' = bs @ contents e"
    using assms(1) by (simp add: reserveFront_contents)
qed

lemma appendRange_spec:
  assumes "enc_inv e" and "Encoder_appendRange bs e = (l, e')"
  shows "l = length bs" and "enc_inv e'" and "contents e' = contents e @ bs"
proof -
  let ?e1 = "Encoder_reserveBack (length bs) e"
  have inv: "enc_inv ?e1" and room: "e_end ?e1 + length bs \<le> length (e_buffer ?e1)"
    using assms(1) by (simp_all add: reserveBack_inv reserveBack_room)
  have e': "e' = ?e1\<lparr>e_buffer := overwrite (e_end ?e1) bs (e_buffer ?e1),
      e_end := e_end ?e1 + length bs\<rparr>" and l: "l = length bs"
    using assms(2) by (auto simp: Encoder_appendRange_def Let_def)
  show "l = length bs" by (rule l)
  show "enc_inv e'"
    using inv room by (auto simp: e' enc_inv_def)
  have "contents e' = bslice (e_begin ?e1) (e_end ?e1) (e_buffer e') @
      bslice (e_end ?e1) (e_end ?e1 + length bs) (e_buffer e')"
    using inv room by (simp add: contents_def e' enc_inv_def bslice_join)
  also have "\<dots> = contents ?e1 @ bs"
    using inv room by (simp add: e' contents_def enc_inv_def bslice_overwrite bslice_overwrite_before)
  finally show "contents e' = contents e @ bs"
    using assms(1) by (simp add: reserveBack_contents)
qed

lemma prependRange_in_place:
  "length bs \<le> e_begin e \<Longrightarrow> Encoder_prependRange bs e =
     (length bs, e\<lparr>e_buffer := overwrite (e_begin e - length bs) bs (e_buffer e),
                   e_begin := e_begin e - length bs\<rparr>)"
  by (simp add: Encoder_prependRange_def Encoder_reserveFront_def Let_def)

section \<open>What an encoding routine writes\<close>

text \<open>
  \<open>prepends f out\<close>: whichever instance of the template runs, \<open>f\<close> returns the length of \<open>out\<close>; the
  encoder instance puts \<open>out\<close> in front of what was written before, and does so in place when the
  buffer has the room.
\<close>

definition inPlace :: "byte list \<Rightarrow> encoder \<Rightarrow> encoder" where
  "inPlace out e = e\<lparr>e_buffer := overwrite (e_begin e - length out) out (e_buffer e),
                     e_begin := e_begin e - length out\<rparr>"

definition prepends :: "enc_op \<Rightarrow> byte list \<Rightarrow> bool" where
  "prepends f out \<longleftrightarrow>
     f EstimatorImpl = Inr (length out, EstimatorImpl) \<and>
     (\<forall>e. enc_inv e \<longrightarrow> (\<exists>e'. f (EncoderImpl e) = Inr (length out, EncoderImpl e') \<and> enc_inv e' \<and>
        contents e' = out @ contents e \<and> (length out \<le> e_begin e \<longrightarrow> e' = inPlace out e)))"

lemma prepends_estimate: "prepends f out \<Longrightarrow> estimate f = Inr (length out)"
  by (simp add: prepends_def estimate_def)

lemma prepends_encoder:
  assumes "prepends f out" and "enc_inv e"
  obtains e' where "f (EncoderImpl e) = Inr (length out, EncoderImpl e')" "enc_inv e'"
    "contents e' = out @ contents e" "length out \<le> e_begin e \<Longrightarrow> e' = inPlace out e"
  using assms by (auto simp: prepends_def)

lemma inPlace_append:
  assumes "enc_inv e" and "length o2 + length o1 \<le> e_begin e"
  shows "inPlace o2 (inPlace o1 e) = inPlace (o2 @ o1) e"
proof -
  obtain b where b: "e_begin e = b + length o2 + length o1"
    using assms(2) by (metis add.assoc le_add_diff_inverse2)
  then show ?thesis
    using assms(1) overwrite_overwrite [of b o2 o1 "e_buffer e"]
    by (simp add: inPlace_def enc_inv_def)
qed

lemma prepends_nothing: "prepends (\<lambda>impl. Inr (0, impl)) []"
  by (simp add: prepends_def inPlace_def overwrite_def)

lemma prepends_bytes [intro]: "prepends (prependBytes bs) bs"
proof -
  have "\<exists>e'. prependBytes bs (EncoderImpl e) = Inr (length bs, EncoderImpl e') \<and> enc_inv e' \<and>
      contents e' = bs @ contents e \<and> (length bs \<le> e_begin e \<longrightarrow> e' = inPlace bs e)"
    if "enc_inv e" for e
  proof -
    obtain l e' where p: "Encoder_prependRange bs e = (l, e')"
      by (cases "Encoder_prependRange bs e")
    with that prependRange_in_place [of bs e] show ?thesis
      by (auto simp: prependBytes_def Encoder_prependBytes_def prependRange_spec [OF that p] inPlace_def)
  qed
  then show ?thesis
    by (simp add: prepends_def prependBytes_def Estimator_prependBytes_def)
qed

text \<open>Sequential composition: what runs later stands further to the front.\<close>

definition seqEnc :: "enc_op \<Rightarrow> enc_op \<Rightarrow> enc_op" where
  "seqEnc f g impl = bindE (f impl) (\<lambda>(l1, impl1). bindE (g impl1) (\<lambda>(l2, impl2). Inr (l1 + l2, impl2)))"

lemma prepends_seq:
  assumes f: "prepends f o1" and g: "prepends g o2"
  shows "prepends (seqEnc f g) (o2 @ o1)"
proof -
  have "\<exists>e'. seqEnc f g (EncoderImpl e) = Inr (length (o2 @ o1), EncoderImpl e') \<and> enc_inv e' \<and>
      contents e' = (o2 @ o1) @ contents e \<and>
      (length (o2 @ o1) \<le> e_begin e \<longrightarrow> e' = inPlace (o2 @ o1) e)"
    if inv: "enc_inv e" for e
  proof -
    obtain e1 where e1: "f (EncoderImpl e) = Inr (length o1, EncoderImpl e1)" "enc_inv e1"
        "contents e1 = o1 @ contents e" "length o1 \<le> e_begin e \<Longrightarrow> e1 = inPlace o1 e"
      using prepends_encoder [OF f inv] by blast
    obtain e2 where e2: "g (EncoderImpl e1) = Inr (length o2, EncoderImpl e2)" "enc_inv e2"
        "contents e2 = o2 @ contents e1" "length o2 \<le> e_begin e1 \<Longrightarrow> e2 = inPlace o2 e1"
      using prepends_encoder [OF g e1(2)] by blast
    have "e2 = inPlace (o2 @ o1) e" if fits: "length o2 + length o1 \<le> e_begin e"
    proof -
      have "e1 = inPlace o1 e"
        using fits by (intro e1(4)) simp
      moreover from this have "e2 = inPlace o2 e1"
        using fits by (intro e2(4)) (simp add: inPlace_def)
      ultimately show ?thesis
        using inPlace_append [OF inv fits] by simp
    qed
    with e1 e2 show ?thesis
      by (auto simp: seqEnc_def add.commute)
  qed
  with f g show ?thesis
    by (simp add: prepends_def seqEnc_def)
qed

lemma prepends_Inr_cong: "(\<And>impl. f impl = g impl) \<Longrightarrow> prepends f out \<longleftrightarrow> prepends g out"
  by (simp add: prepends_def)

text \<open>The encoders' number writers are byte writers of the reference encodings.\<close>

lemma length_native_to_big [simp]:
  "length (native_to_big16 n) = 2" "length (native_to_big32 n) = 4" "length (native_to_big64 n) = 8"
  by (simp_all add: native_to_big16_def native_to_big32_def native_to_big64_def del: be_bytes.simps)

lemma length_prependBytes: "fst (Encoder_prependBytes bs e) = length bs"
  by (simp add: Encoder_prependBytes_def Encoder_prependRange_def Let_def)

lemma prependBytes_Encoder:
  "prependBytes bs (EncoderImpl e) = Inr (length bs, EncoderImpl (snd (Encoder_prependBytes bs e)))"
  using length_prependBytes [of bs e]
  by (cases "Encoder_prependBytes bs e") (simp add: prependBytes_def)

lemma prependBytes_Estimator [simp]: "prependBytes bs EstimatorImpl = Inr (length bs, EstimatorImpl)"
  by (simp add: prependBytes_def Estimator_prependBytes_def)

lemma prependVarNumber_steps:
  "prependVarNumber n impl =
     (if n < 253 then prependBytes [ucast n] impl
      else if n \<le> 0xFFFF then seqEnc (prependBytes (native_to_big16 n)) (prependBytes [253]) impl
      else if n \<le> 0xFFFFFFFF then seqEnc (prependBytes (native_to_big32 n)) (prependBytes [254]) impl
      else seqEnc (prependBytes (native_to_big64 n)) (prependBytes [255]) impl)"
  by (cases impl)
    (simp_all add: prependVarNumber_def Encoder_prependVarNumber_def Estimator_prependVarNumber_def
      sizeOfVarNumber_def seqEnc_def prependBytes_Encoder)

lemma prependNonNegativeInteger_steps:
  "prependNonNegativeInteger n impl =
     (if n \<le> 0xFF then prependBytes [ucast n] impl
      else if n \<le> 0xFFFF then prependBytes (native_to_big16 n) impl
      else if n \<le> 0xFFFFFFFF then prependBytes (native_to_big32 n) impl
      else prependBytes (native_to_big64 n) impl)"
proof (cases impl)
  case EstimatorImpl
  then show ?thesis
    by (simp add: prependNonNegativeInteger_def Estimator_prependNonNegativeInteger_def
        sizeOfNonNegativeInteger_def)
next
  case (EncoderImpl e)
  then show ?thesis
    by (simp add: prependNonNegativeInteger_def Encoder_prependNonNegativeInteger_def prependBytes_def)
qed

lemma varNumber_bytes_native:
  "varNumber_bytes n =
     (if n < 253 then [ucast n]
      else if n \<le> 0xFFFF then [253] @ native_to_big16 n
      else if n \<le> 0xFFFFFFFF then [254] @ native_to_big32 n
      else [255] @ native_to_big64 n)"
  using writeVarNumber_eq [of "[]" n] by (auto simp: writeVarNumber_def split: if_splits)

lemma nni_bytes_native:
  "nni_bytes n =
     (if n \<le> 0xFF then [ucast n] else if n \<le> 0xFFFF then native_to_big16 n
      else if n \<le> 0xFFFFFFFF then native_to_big32 n else native_to_big64 n)"
  using writeNonNegativeInteger_eq [of "[]" n] by (auto simp: writeNonNegativeInteger_def split: if_splits)

lemma prepends_varNumber [intro]: "prepends (prependVarNumber n) (varNumber_bytes n)"
proof -
  have "prepends (\<lambda>impl. prependVarNumber n impl) (varNumber_bytes n)"
    unfolding prependVarNumber_steps varNumber_bytes_native
    by (auto simp del: append.simps intro: prepends_seq prepends_bytes)
  then show ?thesis by simp
qed

lemma prepends_nni [intro]: "prepends (prependNonNegativeInteger n) (nni_bytes n)"
proof -
  have "prepends (\<lambda>impl. prependNonNegativeInteger n impl) (nni_bytes n)"
    unfolding prependNonNegativeInteger_steps nni_bytes_native by auto
  then show ?thesis by simp
qed

text \<open>Bodies made of several steps.\<close>

inductive prependsFrom :: "(nat \<Rightarrow> enc_op) list \<Rightarrow> nat \<Rightarrow> byte list \<Rightarrow> bool" where
  prependsFrom_Nil: "prependsFrom [] n []"
| prependsFrom_Cons: "prepends (s n) o1 \<Longrightarrow> prependsFrom ss (n + length o1) o2 \<Longrightarrow>
    prependsFrom (s # ss) n (o2 @ o1)"

lemma prependsFrom_append:
  "prependsFrom ss n o1 \<Longrightarrow> prependsFrom ts (n + length o1) o2 \<Longrightarrow> prependsFrom (ss @ ts) n (o2 @ o1)"
proof (induction ss n o1 rule: prependsFrom.induct)
  case (prependsFrom_Nil n)
  then show ?case by simp
next
  case (prependsFrom_Cons s n o1 ss o2')
  then have "prependsFrom (ss @ ts) (n + length o1) (o2 @ o2')"
    by (simp add: ac_simps)
  with prependsFrom_Cons.hyps(1) have "prependsFrom (s # ss @ ts) n ((o2 @ o2') @ o1)"
    by (rule prependsFrom.prependsFrom_Cons)
  then show ?case by simp
qed

primrec impl_inv :: "encodingImpl \<Rightarrow> bool" where
  "impl_inv EstimatorImpl = True"
| "impl_inv (EncoderImpl e) = enc_inv e"

lemma prepends_impl:
  assumes "prepends f out" and "impl_inv impl"
  obtains impl' where "f impl = Inr (length out, impl')" "impl_inv impl'"
  using assms by (cases impl) (auto simp: prepends_def)

lemma prepends_cong: "(\<And>impl. impl_inv impl \<Longrightarrow> f impl = g impl) \<Longrightarrow> prepends f out = prepends g out"
  using impl_inv.simps by (simp add: prepends_def)

lemma prependsFrom_run:
  "prependsFrom ss n out \<Longrightarrow>
     \<exists>g. prepends g out \<and>
       (\<forall>impl. impl_inv impl \<longrightarrow> runSteps_from ss n impl = bindE (g impl) (\<lambda>(l, i). Inr (n + l, i)))"
proof (induction ss n out rule: prependsFrom.induct)
  case (prependsFrom_Nil n)
  show ?case
    by (rule exI [of _ "\<lambda>impl. Inr (0, impl)"]) (simp add: prepends_nothing)
next
  case (prependsFrom_Cons s n o1 ss o2)
  from prependsFrom_Cons.IH obtain g where g: "prepends g o2"
    "\<And>impl. impl_inv impl \<Longrightarrow>
      runSteps_from ss (n + length o1) impl = bindE (g impl) (\<lambda>(l, i). Inr (n + length o1 + l, i))"
    by blast
  have "prepends (seqEnc (s n) g) (o2 @ o1)"
    using prependsFrom_Cons.hyps(1) g(1) by (rule prepends_seq)
  moreover have "runSteps_from (s # ss) n impl = bindE (seqEnc (s n) g impl) (\<lambda>(l, i). Inr (n + l, i))"
    if inv: "impl_inv impl" for impl
  proof -
    obtain impl' where "s n impl = Inr (length o1, impl')" "impl_inv impl'"
      using prepends_impl [OF prependsFrom_Cons.hyps(1) inv] by blast
    then show ?thesis
      by (simp add: seqEnc_def g(2) bindE_assoc) (simp add: bindE_def split_def add.assoc split: sum.split)
  qed
  ultimately show ?case by blast
qed

lemma prepends_steps: "prependsFrom ss 0 out \<Longrightarrow> prepends (runSteps ss) out"
proof -
  assume "prependsFrom ss 0 out"
  then obtain g where g: "prepends g out"
    "\<And>impl. impl_inv impl \<Longrightarrow> runSteps_from ss 0 impl = bindE (g impl) (\<lambda>(l, i). Inr (0 + l, i))"
    using prependsFrom_run by blast
  have "runSteps ss impl = g impl" if "impl_inv impl" for impl
    using g(2) [OF that] by (cases "g impl") (auto simp: runSteps_def)
  with g(1) show ?thesis
    using prepends_cong by blast
qed

text \<open>Repeated steps, as in the loops over a reversed container.\<close>

lemma prependsFrom_rev_map:
  "(\<And>x. x \<in> set xs \<Longrightarrow> prepends (f x) (out x)) \<Longrightarrow>
     prependsFrom (map (\<lambda>x _. f x) (rev xs)) n (concat (map out xs))"
proof (induction xs arbitrary: n)
  case Nil
  then show ?case by (simp add: prependsFrom_Nil)
next
  case (Cons x xs)
  have "prependsFrom [\<lambda>_. f x] m (out x)" for m
    using prependsFrom_Cons [OF Cons.prems [of x] prependsFrom_Nil] by simp
  then have "prependsFrom (map (\<lambda>x _. f x) (rev xs) @ [\<lambda>_. f x]) n (out x @ concat (map out xs))"
    using Cons by (intro prependsFrom_append) auto
  then show ?case by simp
qed

lemma prependsFrom_single: "prepends (s n) out \<Longrightarrow> prependsFrom [s] n out"
  using prependsFrom_Cons [OF _ prependsFrom_Nil] by simp

lemma prependsFrom_if:
  "(c \<Longrightarrow> prependsFrom ss n out) \<Longrightarrow> prependsFrom (if c then ss else []) n (if c then out else [])"
  by (simp add: prependsFrom_Nil)

text \<open>Optional steps and bodies made of several groups of steps.\<close>

lemma prependsFrom_opt:
  "(\<And>x. m = Some x \<Longrightarrow> prepends (f x) (out x)) \<Longrightarrow>
     prependsFrom (case m of None \<Rightarrow> [] | Some x \<Rightarrow> [\<lambda>_. f x]) n (case m of None \<Rightarrow> [] | Some x \<Rightarrow> out x)"
  by (cases m) (auto intro: prependsFrom_Nil prependsFrom_single)

lemma prependsFrom_cond:
  "(c \<Longrightarrow> prepends f out) \<Longrightarrow> prependsFrom (if c then [\<lambda>_. f] else []) n (if c then out else [])"
  by (auto intro: prependsFrom_Nil prependsFrom_single)

lemma prependsFrom_concat:
  "list_all2 (\<lambda>ss out. \<forall>n. prependsFrom ss n out) sss outs \<Longrightarrow> prependsFrom (concat sss) n (concat (rev outs))"
proof (induction arbitrary: n rule: list_all2_induct)
  case (Cons ss sss out outs)
  then have "prependsFrom (ss @ concat sss) n (concat (rev outs) @ out)" by (intro prependsFrom_append) auto
  then show ?case by simp
qed (simp add: prependsFrom_Nil)

section \<open>The two-pass scheme\<close>

lemma twoPass_prepends:
  assumes "prepends f out"
  shows "twoPass f = Inr \<lparr>e_buffer = out, e_begin = 0, e_end = length out\<rparr>"
proof -
  let ?e = "mk_Encoder (length out) 0"
  have b: "e_begin ?e = length out" "e_end ?e = length out" "length (e_buffer ?e) = length out"
    by (simp_all add: mk_Encoder_def Let_def)
  obtain e' where "f (EncoderImpl ?e) = Inr (length out, EncoderImpl e')" "e' = inPlace out ?e"
    using prepends_encoder [OF assms mk_Encoder_inv, of "length out" 0] b by auto
  then show ?thesis
    using b by (simp add: twoPass_def prepends_estimate [OF assms] encodeInto_def inPlace_def
        overwrite_full encoder.defs)
qed

section \<open>The members of Encoder by what they leave written\<close>

lemma Encoder_prependBytes_spec:
  assumes "enc_inv e"
  shows "enc_inv (snd (Encoder_prependBytes bs e))"
    and "contents (snd (Encoder_prependBytes bs e)) = bs @ contents e"
  using prependRange_spec [OF assms surjective_pairing, of bs]
  by (simp_all add: Encoder_prependBytes_def)

lemma Encoder_appendBytes_spec:
  assumes "enc_inv e"
  shows "enc_inv (snd (Encoder_appendBytes bs e))"
    and "contents (snd (Encoder_appendBytes bs e)) = contents e @ bs"
  using appendRange_spec [OF assms surjective_pairing, of bs]
  by (simp_all add: Encoder_appendBytes_def)

lemma Encoder_prependVarNumber_spec:
  assumes "enc_inv e"
  shows "enc_inv (snd (Encoder_prependVarNumber n e))"
    and "contents (snd (Encoder_prependVarNumber n e)) = varNumber_bytes n @ contents e"
proof -
  obtain e' where e': "prependVarNumber n (EncoderImpl e) = Inr (length (varNumber_bytes n), EncoderImpl e')"
      "enc_inv e'" "contents e' = varNumber_bytes n @ contents e"
    using prepends_encoder [OF prepends_varNumber assms, of n] by blast
  then have "snd (Encoder_prependVarNumber n e) = e'"
    by (cases "Encoder_prependVarNumber n e") (simp add: prependVarNumber_def)
  with e' show "enc_inv (snd (Encoder_prependVarNumber n e))"
    "contents (snd (Encoder_prependVarNumber n e)) = varNumber_bytes n @ contents e" by simp_all
qed

lemma Encoder_prependNonNegativeInteger_spec:
  assumes "enc_inv e"
  shows "enc_inv (snd (Encoder_prependNonNegativeInteger n e))"
    and "contents (snd (Encoder_prependNonNegativeInteger n e)) = nni_bytes n @ contents e"
  using Encoder_prependBytes_spec [OF assms]
  by (simp_all add: Encoder_prependNonNegativeInteger_def nni_bytes_native)

lemma Encoder_appendVarNumber_spec:
  assumes "enc_inv e"
  shows "enc_inv (snd (Encoder_appendVarNumber n e))"
    and "contents (snd (Encoder_appendVarNumber n e)) = contents e @ varNumber_bytes n"
  using Encoder_appendBytes_spec [OF assms]
  by (simp_all add: Encoder_appendVarNumber_def varNumber_bytes_native Encoder_appendBytes_spec)

lemma Encoder_appendNonNegativeInteger_spec:
  assumes "enc_inv e"
  shows "enc_inv (snd (Encoder_appendNonNegativeInteger n e))"
    and "contents (snd (Encoder_appendNonNegativeInteger n e)) = contents e @ nni_bytes n"
  using Encoder_appendBytes_spec [OF assms]
  by (simp_all add: Encoder_appendNonNegativeInteger_def nni_bytes_native)

text \<open>
  The contract of a byte deque.  A client that only prepends and appends sees the concatenation of
  what it wrote, whatever the buffer does underneath.
\<close>

locale byte_deque =
  fixes prepend append :: "byte list \<Rightarrow> 's \<Rightarrow> 's"
    and written :: "'s \<Rightarrow> byte list"
    and invar :: "'s \<Rightarrow> bool"
  assumes prepend_invar: "invar s \<Longrightarrow> invar (prepend bs s)"
    and prepend_written: "invar s \<Longrightarrow> written (prepend bs s) = bs @ written s"
    and append_invar: "invar s \<Longrightarrow> invar (append bs s)"
    and append_written: "invar s \<Longrightarrow> written (append bs s) = written s @ bs"
begin

abbreviation run :: "(bool \<times> byte list) list \<Rightarrow> 's \<Rightarrow> 's" where
  "run ops s \<equiv> fold (\<lambda>(front, bs) s. if front then prepend bs s else append bs s) ops s"

lemma run_written:
  "invar s \<Longrightarrow> invar (run ops s) \<and>
     written (run ops s) =
       concat (map snd (rev (filter fst ops))) @ written s @ concat (map snd (filter (\<lambda>x. \<not> fst x) ops))"
proof (induction ops arbitrary: s)
  case (Cons x ops)
  then show ?case
    by (cases x) (auto simp: prepend_invar prepend_written append_invar append_written)
qed simp

end

interpretation enc: byte_deque "\<lambda>bs e. snd (Encoder_prependBytes bs e)" "\<lambda>bs e. snd (Encoder_appendBytes bs e)"
  contents enc_inv
  by unfold_locales (simp_all add: Encoder_prependBytes_spec Encoder_appendBytes_spec)

text \<open>
  A client of the encoder, as a sequence of calls, and the abstract deque of bytes it works on.
\<close>

datatype enc_call =
    PrependBytes "byte list" | AppendBytes "byte list"
  | PrependVarNumber uint64 | AppendVarNumber uint64
  | PrependNni uint64 | AppendNni uint64
  | ReserveFront nat | ReserveBack nat

fun Encoder_call :: "enc_call \<Rightarrow> encoder \<Rightarrow> encoder" where
  "Encoder_call (PrependBytes bs) e = snd (Encoder_prependBytes bs e)"
| "Encoder_call (AppendBytes bs) e = snd (Encoder_appendBytes bs e)"
| "Encoder_call (PrependVarNumber n) e = snd (Encoder_prependVarNumber n e)"
| "Encoder_call (AppendVarNumber n) e = snd (Encoder_appendVarNumber n e)"
| "Encoder_call (PrependNni n) e = snd (Encoder_prependNonNegativeInteger n e)"
| "Encoder_call (AppendNni n) e = snd (Encoder_appendNonNegativeInteger n e)"
| "Encoder_call (ReserveFront n) e = Encoder_reserveFront n e"
| "Encoder_call (ReserveBack n) e = Encoder_reserveBack n e"

fun deque_call :: "enc_call \<Rightarrow> byte list \<Rightarrow> byte list" where
  "deque_call (PrependBytes bs) q = bs @ q"
| "deque_call (AppendBytes bs) q = q @ bs"
| "deque_call (PrependVarNumber n) q = varNumber_bytes n @ q"
| "deque_call (AppendVarNumber n) q = q @ varNumber_bytes n"
| "deque_call (PrependNni n) q = nni_bytes n @ q"
| "deque_call (AppendNni n) q = q @ nni_bytes n"
| "deque_call (ReserveFront n) q = q"
| "deque_call (ReserveBack n) q = q"

lemma Encoder_call_step:
  "enc_inv e \<Longrightarrow> enc_inv (Encoder_call c e) \<and> contents (Encoder_call c e) = deque_call c (contents e)"
  by (cases c) (simp_all add: Encoder_prependBytes_spec Encoder_appendBytes_spec
      Encoder_prependVarNumber_spec Encoder_appendVarNumber_spec
      Encoder_prependNonNegativeInteger_spec Encoder_appendNonNegativeInteger_spec
      reserveFront_inv reserveBack_inv reserveFront_contents reserveBack_contents)

lemma Encoder_calls:
  "enc_inv e \<Longrightarrow> enc_inv (fold Encoder_call cs e) \<and>
     contents (fold Encoder_call cs e) = fold deque_call cs (contents e)"
  by (induction cs arbitrary: e) (simp_all add: Encoder_call_step)

text \<open>
  C30: The encoder implements a deque of bytes: whatever sequence of prepend, append and reserve
  calls is made, with whatever initial sizes, the bytes between its begin and end are the ones a
  plain list would hold, and the two positions stay inside the buffer.
\<close>

theorem encoder_refines_deque:
  "contents (fold Encoder_call cs (mk_Encoder totalReserve reserveFromBack)) = fold deque_call cs [] \<and>
   enc_inv (fold Encoder_call cs (mk_Encoder totalReserve reserveFromBack))"
  using Encoder_calls [of "mk_Encoder totalReserve reserveFromBack" cs] by simp

end
