(* ===== verification/Transform.thy ===== *)
theory Transform
  imports Prelude
begin

text \<open>
  The transform pipeline of \<open>security/transform\<close>: a source that pumps its buffers into one
  transform module, which writes to a stream sink.  The module's own state is a type parameter; its
  \<open>convert\<close> and \<open>finalize\<close> are arguments of the pipeline, as they are virtual members in the code.
  Modelled modules: \<open>HexEncode\<close>, \<open>HexDecode\<close>, \<open>StripSpace\<close>.  The locale \<open>streaming\<close> is the
  contract under which a pipeline does not depend on how its input is cut into buffers.
\<close>

section \<open>The pipeline\<close>

record 's tstate =
  t_isEnd :: bool
  t_oBuffer :: "byte list option"
  t_outputOffset :: nat
  t_mod :: 's
  t_sink :: "byte list"

text \<open>
  \<open>convert\<close> returns the number of bytes consumed, the output buffer it sets (None when it sets none)
  and the new module state.
\<close>

type_synonym 's convert = "'s \<Rightarrow> byte list \<Rightarrow> (nat \<times> byte list option \<times> 's) result"

definition initChain :: "'s \<Rightarrow> 's tstate" where
  "initChain s = \<lparr>t_isEnd = False, t_oBuffer = None, t_outputOffset = 0, t_mod = s, t_sink = []\<rparr>"

text \<open>\<open>StreamSink::doWrite\<close> takes the whole span; the stream is an in-memory one.\<close>

definition StreamSink_doWrite :: "'s tstate \<Rightarrow> byte list \<Rightarrow> nat \<times> 's tstate" where
  "StreamSink_doWrite st buf = (length buf, st\<lparr>t_sink := t_sink st @ buf\<rparr>)"

definition isOutputBufferEmpty :: "'s tstate \<Rightarrow> bool" where
  "isOutputBufferEmpty st =
     (case t_oBuffer st of None \<Rightarrow> True | Some b \<Rightarrow> length b = t_outputOffset st)"

definition flushOutputBuffer :: "'s tstate \<Rightarrow> 's tstate" where
  "flushOutputBuffer st =
     (if isOutputBufferEmpty st then st
      else case t_oBuffer st of
        None \<Rightarrow> st
      | Some b \<Rightarrow>
          let (n, st') = StreamSink_doWrite st (drop (t_outputOffset st) b)
          in st'\<lparr>t_outputOffset := t_outputOffset st' + n\<rparr>)"

definition setOutputBuffer :: "byte list option \<Rightarrow> 's tstate \<Rightarrow> 's tstate" where
  "setOutputBuffer ob st =
     (case ob of None \<Rightarrow> st | Some b \<Rightarrow> st\<lparr>t_oBuffer := Some b, t_outputOffset := 0\<rparr>)"

text \<open>
  An operation that may throw returns its outcome together with the state it leaves behind, since what
  has reached the sink stays there.  A \<open>convert\<close> that throws has not touched the module.
\<close>

definition Transform_doWrite :: "'s convert \<Rightarrow> 's tstate \<Rightarrow> byte list \<Rightarrow> nat result \<times> 's tstate" where
  "Transform_doWrite conv st data =
     (let st1 = flushOutputBuffer st in
      if \<not> isOutputBufferEmpty st1 then (Inr 0, st1)
      else
        let st2 = flushOutputBuffer st1 in
        if \<not> isOutputBufferEmpty st2 then (Inr 0, st2)
        else case conv (t_mod st2) data of
          Inl e \<Rightarrow> (Inl e, st2)
        | Inr (n, ob, s') \<Rightarrow> (Inr n, flushOutputBuffer (setOutputBuffer ob (st2\<lparr>t_mod := s'\<rparr>))))"

definition Downstream_write :: "'s convert \<Rightarrow> 's tstate \<Rightarrow> byte list \<Rightarrow> nat result \<times> 's tstate" where
  "Downstream_write conv st buf =
     (if t_isEnd st then (Inl TransformClosed, st) else Transform_doWrite conv st buf)"

definition Downstream_end :: "('s tstate \<Rightarrow> unit result \<times> 's tstate) \<Rightarrow> 's tstate \<Rightarrow> unit result \<times> 's tstate" where
  "Downstream_end finalize st =
     (if t_isEnd st then (Inr (), st) else finalize (st\<lparr>t_isEnd := True\<rparr>))"

text \<open>
  \<open>BufferSource::doPump\<close>: the inner loop offers what is left of one buffer until it is consumed.  A
  module that consumes nothing makes it run forever, so the loop is partial here and its termination
  is a fact about the module.
\<close>

partial_function (option) pumpBuffer ::
    "'s convert \<Rightarrow> 's tstate \<Rightarrow> byte list \<Rightarrow> (unit result \<times> 's tstate) option" where
  [code]: "pumpBuffer conv st buf =
     (if buf = [] then Some (Inr (), st)
      else case Downstream_write conv st buf of
        (Inl e, st') \<Rightarrow> Some (Inl e, st')
      | (Inr n, st') \<Rightarrow> pumpBuffer conv st' (drop n buf))"

fun pumpBuffers :: "'s convert \<Rightarrow> 's tstate \<Rightarrow> byte list list \<Rightarrow> (unit result \<times> 's tstate) option" where
  "pumpBuffers conv st [] = Some (Inr (), st)"
| "pumpBuffers conv st (b # bs) =
     (case pumpBuffer conv st b of
        None \<Rightarrow> None
      | Some (Inl e, st') \<Rightarrow> Some (Inl e, st')
      | Some (Inr _, st') \<Rightarrow> pumpBuffers conv st' bs)"

text \<open>The outcome of the pump, and what the sink has received.\<close>

definition doPump ::
    "'s convert \<Rightarrow> ('s tstate \<Rightarrow> unit result \<times> 's tstate) \<Rightarrow> 's \<Rightarrow> byte list list \<Rightarrow> (unit result \<times> byte list) option"
  where
  "doPump conv finalize s bufs =
     (case pumpBuffers conv (initChain s) bufs of
        None \<Rightarrow> None
      | Some (Inl e, st) \<Rightarrow> Some (Inl e, t_sink st)
      | Some (Inr _, st) \<Rightarrow> let (r, st') = Downstream_end finalize st in Some (r, t_sink st'))"

text \<open>What a caller that reads the stream after the pump gets.\<close>

definition pumped :: "unit result \<times> byte list \<Rightarrow> byte list result" where
  "pumped p = bindE (fst p) (\<lambda>_. Inr (snd p))"

text \<open>\<open>Transform::finalize\<close>, the default: \<open>flushAllOutput\<close>.  The sink takes everything at once.\<close>

definition Transform_finalize :: "'s tstate \<Rightarrow> unit result \<times> 's tstate" where
  "Transform_finalize st = (Inr (), flushOutputBuffer st)"

section \<open>HexEncode\<close>

definition H2C :: "bool \<Rightarrow> nat \<Rightarrow> byte" where
  "H2C useUpperCase n =
     bytes_of (if useUpperCase then ''0123456789ABCDEF'' else ''0123456789abcdef'') ! n"

definition HexEncode_toHex :: "bool \<Rightarrow> byte list \<Rightarrow> byte list" where
  "HexEncode_toHex useUpperCase data =
     concat (map (\<lambda>d. [H2C useUpperCase (unat d div 16 mod 16), H2C useUpperCase (unat d mod 16)]) data)"

definition HexEncode_convert :: "bool \<Rightarrow> unit convert" where
  "HexEncode_convert useUpperCase s data =
     Inr (length data, Some (HexEncode_toHex useUpperCase data), s)"

section \<open>HexDecode\<close>

record hexDecode =
  m_hasOddByte :: bool
  m_oddByte :: byte

text \<open>The table \<open>C2H\<close>, by its three non-negative ranges.\<close>

definition C2H :: "byte \<Rightarrow> int" where
  "C2H b =
     (if 48 \<le> b \<and> b \<le> 57 then uint b - 48
      else if 65 \<le> b \<and> b \<le> 70 then uint b - 55
      else if 97 \<le> b \<and> b \<le> 102 then uint b - 87
      else -1)"

definition hexPair :: "byte \<Rightarrow> byte \<Rightarrow> byte result" where
  "hexPair hi lo =
     (if C2H lo < 0 \<or> C2H hi < 0 then Inl TransformWrongInputByte
      else Inr (word_of_int (C2H hi * 16 + C2H lo)))"

fun toBytes_loop :: "byte list \<Rightarrow> byte list result" where
  "toBytes_loop (a # b # hex) =
     bindE (hexPair a b) (\<lambda>x. bindE (toBytes_loop hex) (\<lambda>xs. Inr (x # xs)))"
| "toBytes_loop _ = Inr []"

definition HexDecode_toBytes :: "hexDecode \<Rightarrow> byte list \<Rightarrow> byte list result" where
  "HexDecode_toBytes s hex =
     (if m_hasOddByte s
      then bindE (hexPair (m_oddByte s) (hd hex)) (\<lambda>x.
             bindE (toBytes_loop (tl hex)) (\<lambda>xs. Inr (x # xs)))
      else toBytes_loop hex)"

definition HexDecode_convert :: "hexDecode convert" where
  "HexDecode_convert s hex =
     (if hex = [] then Inr (0, None, s)
      else bindE (HexDecode_toBytes s hex) (\<lambda>out.
        let totalDecodedLen = length hex + (if m_hasOddByte s then 1 else 0);
            s' = (if totalDecodedLen mod 2 = 1
                  then s\<lparr>m_oddByte := last hex, m_hasOddByte := True\<rparr>
                  else s\<lparr>m_hasOddByte := False\<rparr>)
        in Inr (length hex, Some out, s')))"

definition HexDecode_finalize :: "hexDecode tstate \<Rightarrow> unit result \<times> hexDecode tstate" where
  "HexDecode_finalize st =
     (if m_hasOddByte (t_mod st) then Inl TransformIncompleteInput else Inr (), st)"

definition mk_HexDecode :: hexDecode where
  "mk_HexDecode = \<lparr>m_hasOddByte = False, m_oddByte = 0\<rparr>"

section \<open>StripSpace\<close>

definition StripSpace_convert :: "byte list \<Rightarrow> unit convert" where
  "StripSpace_convert whitespaces s data =
     Inr (length data, Some (filter (\<lambda>ch. ch \<notin> set whitespaces) data), s)"

section \<open>The streaming contract\<close>

text \<open>
  \<open>spec xs\<close> is what the module has written after consuming \<open>xs\<close>, \<open>rel xs s\<close> relates its state,
  \<open>ending xs\<close> is the error \<open>finalize\<close> raises if the input ends there.
\<close>

definition flushed :: "'s tstate \<Rightarrow> bool" where
  "flushed st \<longleftrightarrow> isOutputBufferEmpty st \<and> \<not> t_isEnd st"

lemma flushOutputBuffer_empty [simp]: "isOutputBufferEmpty st \<Longrightarrow> flushOutputBuffer st = st"
  by (simp add: flushOutputBuffer_def)

lemma flush_setOutputBuffer:
  "t_sink (flushOutputBuffer (setOutputBuffer (Some b) st)) = t_sink st @ b"
  "t_mod (flushOutputBuffer (setOutputBuffer (Some b) st)) = t_mod st"
  "t_isEnd (flushOutputBuffer (setOutputBuffer (Some b) st)) = t_isEnd st"
  "isOutputBufferEmpty (flushOutputBuffer (setOutputBuffer (Some b) st))"
  by (auto simp: flushOutputBuffer_def setOutputBuffer_def isOutputBufferEmpty_def
        StreamSink_doWrite_def)

lemma Downstream_write_flushed:
  "flushed st \<Longrightarrow> Downstream_write conv st data = (case conv (t_mod st) data of
       Inl e \<Rightarrow> (Inl e, st)
     | Inr (n, ob, s') \<Rightarrow> (Inr n, flushOutputBuffer (setOutputBuffer ob (st\<lparr>t_mod := s'\<rparr>))))"
  by (simp add: flushed_def Downstream_write_def Transform_doWrite_def)

locale streaming =
  fixes conv :: "'s convert"
    and finalize :: "'s tstate \<Rightarrow> unit result \<times> 's tstate"
    and s0 :: 's
    and spec :: "byte list \<Rightarrow> byte list result"
    and rel :: "byte list \<Rightarrow> 's \<Rightarrow> bool"
    and ending :: "byte list \<Rightarrow> error option"
  assumes rel_init: "rel [] s0"
    and spec_init: "spec [] = Inr []"
    and spec_error: "spec xs = Inl e \<Longrightarrow> spec (xs @ ys) = Inl e"
    and conv_error: "\<lbrakk>rel xs s; spec xs = Inr out; data \<noteq> []; spec (xs @ data) = Inl e\<rbrakk>
      \<Longrightarrow> conv s data = Inl e"
    and conv_spec: "\<lbrakk>rel xs s; spec xs = Inr out; data \<noteq> []; spec (xs @ data) = Inr out'\<rbrakk>
      \<Longrightarrow> \<exists>o1 s'. out' = out @ o1 \<and> conv s data = Inr (length data, Some o1, s') \<and> rel (xs @ data) s'"
    and finalize_spec: "\<lbrakk>rel xs (t_mod st); isOutputBufferEmpty st\<rbrakk>
      \<Longrightarrow> finalize st = (case ending xs of Some e \<Rightarrow> Inl e | None \<Rightarrow> Inr (), st)"
begin

definition after :: "byte list \<Rightarrow> 's tstate \<Rightarrow> bool" where
  "after xs st \<longleftrightarrow> flushed st \<and> rel xs (t_mod st) \<and> spec xs = Inr (t_sink st)"

lemma pumpBuffer_error:
  assumes "after xs st" "spec (xs @ buf) = Inl e"
  shows "pumpBuffer conv st buf = Some (Inl e, st)"
proof -
  have "buf \<noteq> []" using assms by (auto simp: after_def)
  then show ?thesis
    using assms conv_error [of xs "t_mod st" "t_sink st" buf e]
    by (subst pumpBuffer.simps) (auto simp: after_def Downstream_write_flushed)
qed

lemma pumpBuffer_spec:
  assumes "after xs st" "spec (xs @ buf) = Inr out"
  shows "\<exists>st'. pumpBuffer conv st buf = Some (Inr (), st') \<and> after (xs @ buf) st'"
proof (cases "buf = []")
  case True
  then show ?thesis using assms by (subst pumpBuffer.simps) auto
next
  case False
  obtain o1 s' where o: "out = t_sink st @ o1"
      "conv (t_mod st) buf = Inr (length buf, Some o1, s')" "rel (xs @ buf) s'"
    using conv_spec [of xs "t_mod st" "t_sink st" buf out] assms False by (auto simp: after_def)
  define st' where "st' = flushOutputBuffer (setOutputBuffer (Some o1) (st\<lparr>t_mod := s'\<rparr>))"
  have "pumpBuffer conv st buf = pumpBuffer conv st' []"
    using False o assms
    by (subst pumpBuffer.simps) (simp add: after_def Downstream_write_flushed st'_def)
  moreover have "pumpBuffer conv st' [] = Some (Inr (), st')"
    by (subst pumpBuffer.simps) simp
  moreover have "after (xs @ buf) st'"
    using o assms by (simp add: after_def flushed_def st'_def flush_setOutputBuffer)
  ultimately show ?thesis by auto
qed

text \<open>Where the pump stops: all buffers went through, or those before the first one that is refused.\<close>

lemma pumpBuffers_stop:
  "after xs st \<Longrightarrow> (\<exists>st'. pumpBuffers conv st bufs = Some (Inr (), st') \<and> after (xs @ concat bufs) st') \<or>
     (\<exists>front b rest e st'. bufs = front @ b # rest \<and> pumpBuffers conv st bufs = Some (Inl e, st') \<and>
        after (xs @ concat front) st' \<and> spec (xs @ concat front @ b) = Inl e)"
proof (induction bufs arbitrary: xs st)
  case (Cons b bs)
  show ?case
  proof (cases "spec (xs @ b)")
    case (Inl e)
    then show ?thesis
      using pumpBuffer_error [OF Cons.prems Inl] Cons.prems
      by (intro disjI2 exI [of _ "[]"] exI [of _ b] exI [of _ bs] exI [of _ e] exI [of _ st]) simp
  next
    case (Inr out)
    then obtain st1 where st1: "pumpBuffer conv st b = Some (Inr (), st1)" "after (xs @ b) st1"
      using pumpBuffer_spec [OF Cons.prems] by blast
    from Cons.IH [OF st1(2)] show ?thesis
    proof (elim disjE exE conjE)
      fix front c rest e st'
      assume "bs = front @ c # rest" "pumpBuffers conv st1 bs = Some (Inl e, st')"
        "after ((xs @ b) @ concat front) st'" "spec ((xs @ b) @ concat front @ c) = Inl e"
      then show ?thesis using st1(1)
        by (intro disjI2 exI [of _ "b # front"] exI [of _ c] exI [of _ rest] exI [of _ e] exI [of _ st']) simp
    qed (use st1(1) in simp)
  qed
qed simp

text \<open>
  The pump ends.  Its outcome depends on the concatenated input only; if a buffer is refused, the sink
  has what the buffers before it decode to.
\<close>

definition outcome :: "byte list \<Rightarrow> unit result" where
  "outcome xs = bindE (spec xs) (\<lambda>_. case ending xs of Some e \<Rightarrow> Inl e | None \<Rightarrow> Inr ())"

lemma doPump_stop:
  "\<exists>out. doPump conv finalize s0 bufs = Some (outcome (concat bufs), out) \<and>
     (case spec (concat bufs) of
        Inr out' \<Rightarrow> out = out'
      | Inl e \<Rightarrow> \<exists>front b rest. bufs = front @ b # rest \<and> spec (concat front) = Inr out \<and> spec (concat front @ b) = Inl e)"
proof -
  have "after [] (initChain s0)"
    by (simp add: after_def flushed_def initChain_def isOutputBufferEmpty_def rel_init spec_init)
  from pumpBuffers_stop [OF this, of bufs] show ?thesis
  proof (elim disjE exE conjE)
    fix st assume st: "pumpBuffers conv (initChain s0) bufs = Some (Inr (), st)" "after ([] @ concat bufs) st"
    then have "finalize (st\<lparr>t_isEnd := True\<rparr>) =
        (case ending (concat bufs) of Some e \<Rightarrow> Inl e | None \<Rightarrow> Inr (), st\<lparr>t_isEnd := True\<rparr>)"
      by (intro finalize_spec) (auto simp: after_def flushed_def isOutputBufferEmpty_def split: option.splits)
    then show ?thesis
      using st by (simp add: doPump_def Downstream_end_def after_def flushed_def outcome_def split: option.split)
  next
    fix front b rest e st
    assume st: "bufs = front @ b # rest" "pumpBuffers conv (initChain s0) bufs = Some (Inl e, st)"
      "after ([] @ concat front) st" "spec ([] @ concat front @ b) = Inl e"
    then have "spec (concat bufs) = Inl e" using spec_error [of "concat front @ b" e "concat rest"] by simp
    then show ?thesis using st by (auto simp: doPump_def after_def outcome_def)
  qed
qed

lemma doPump_spec:
  "map_option pumped (doPump conv finalize s0 bufs) =
     Some (bindE (spec (concat bufs)) (\<lambda>out.
       case ending (concat bufs) of Some e \<Rightarrow> Inl e | None \<Rightarrow> Inr out))"
  using doPump_stop [of bufs]
  by (cases "spec (concat bufs)"; cases "ending (concat bufs)") (auto simp: pumped_def outcome_def)

end

section \<open>The modules keep the contract\<close>

lemma HexEncode_toHex_append:
  "HexEncode_toHex up (xs @ ys) = HexEncode_toHex up xs @ HexEncode_toHex up ys"
  by (simp add: HexEncode_toHex_def)

interpretation hexEnc: streaming "HexEncode_convert up" Transform_finalize "()"
  "\<lambda>xs. Inr (HexEncode_toHex up xs)" "\<lambda>_ _. True" "\<lambda>_. None" for up
  by unfold_locales
    (auto simp: HexEncode_convert_def HexEncode_toHex_append Transform_finalize_def,
     simp add: HexEncode_toHex_def)

interpretation stripSpace: streaming "StripSpace_convert ws" Transform_finalize "()"
  "\<lambda>xs. Inr (filter (\<lambda>ch. ch \<notin> set ws) xs)" "\<lambda>_ _. True" "\<lambda>_. None" for ws
  by unfold_locales (auto simp: StripSpace_convert_def Transform_finalize_def)

lemma toBytes_loop_append_even:
  "even (length xs) \<Longrightarrow> toBytes_loop (xs @ ys) =
     bindE (toBytes_loop xs) (\<lambda>o1. bindE (toBytes_loop ys) (\<lambda>o2. Inr (o1 @ o2)))"
proof (induction xs rule: toBytes_loop.induct)
  case (1 a b hex)
  then show ?case
    by (auto simp: bindE_def split: sum.splits)
qed (auto simp: bindE_def split: sum.splits)

lemma toBytes_loop_snoc:
  "even (length xs) \<Longrightarrow> toBytes_loop (xs @ [x]) = toBytes_loop xs"
  by (auto simp: toBytes_loop_append_even bindE_def split: sum.splits)

definition hexDec_rel :: "byte list \<Rightarrow> hexDecode \<Rightarrow> bool" where
  "hexDec_rel xs s \<longleftrightarrow>
     m_hasOddByte s = odd (length xs) \<and> (odd (length xs) \<longrightarrow> m_oddByte s = last xs)"

lemma toBytes_loop_odd:
  assumes "odd (length xs)" "data \<noteq> []"
  shows "toBytes_loop (xs @ data) =
    bindE (toBytes_loop xs) (\<lambda>o1. bindE (hexPair (last xs) (hd data)) (\<lambda>x.
      bindE (toBytes_loop (tl data)) (\<lambda>o2. Inr (o1 @ x # o2))))"
proof -
  obtain ys y where xs: "xs = ys @ [y]" using assms by (cases xs rule: rev_cases) auto
  obtain d ds where d: "data = d # ds" using assms by (cases data) auto
  show ?thesis
    using assms by (auto simp: xs d toBytes_loop_append_even bindE_def split: sum.splits)
qed

lemma HexDecode_toBytes_rel:
  assumes "hexDec_rel xs s" "toBytes_loop xs = Inr out" "data \<noteq> []"
  shows "toBytes_loop (xs @ data) = bindE (HexDecode_toBytes s data) (\<lambda>o2. Inr (out @ o2))"
  using assms
  by (cases "odd (length xs)")
    (auto simp: hexDec_rel_def HexDecode_toBytes_def toBytes_loop_odd toBytes_loop_append_even
       bindE_def split: sum.splits)

lemma toBytes_loop_error: "toBytes_loop xs = Inl e \<Longrightarrow> toBytes_loop (xs @ ys) = Inl e"
  by (cases "ys = []"; cases "odd (length xs)")
    (auto simp: toBytes_loop_odd toBytes_loop_append_even)

interpretation hexDec: streaming HexDecode_convert HexDecode_finalize mk_HexDecode
  toBytes_loop hexDec_rel "\<lambda>xs. if odd (length xs) then Some TransformIncompleteInput else None"
proof (unfold_locales, goal_cases)
  case (4 xs s out data e)
  then show ?case
    using HexDecode_toBytes_rel [of xs s out data]
    by (auto simp: HexDecode_convert_def bindE_eq_Inl)
next
  case (5 xs s out data out')
  then obtain o2 where o: "HexDecode_toBytes s data = Inr o2" "out' = out @ o2"
    using HexDecode_toBytes_rel [of xs s out data] by (auto simp: bindE_eq_Inr)
  then show ?case
    using 5 by (auto simp: HexDecode_convert_def hexDec_rel_def Let_def odd_iff_mod_2_eq_one)
next
  case (6 xs st)
  then show ?case by (auto simp: HexDecode_finalize_def hexDec_rel_def)
qed (auto simp: hexDec_rel_def mk_HexDecode_def toBytes_loop_error)

lemma C2H_H2C: "n < 16 \<Longrightarrow> C2H (H2C up n) = int n"
proof -
  assume "n < 16"
  then have "n \<in> {0, 1, 2, 3, 4, 5, 6, 7, 8, 9, 10, 11, 12, 13, 14, 15}"
    by (simp, presburger)
  then show ?thesis
    by (cases up) (auto simp: H2C_def bytes_of_def byte_of_def C2H_def)
qed

lemma hexPair_H2C: "hexPair (H2C up (unat d div 16 mod 16)) (H2C up (unat d mod 16)) = Inr d"
proof -
  have "unat d div 16 mod 16 = unat d div 16" using unat_byte_less [of d] by simp
  then have "int (unat d div 16 mod 16) * 16 + int (unat d mod 16) = int (unat d)"
    by (metis div_mult_mod_eq int_ops(5) int_ops(7) of_nat_numeral)
  then have "word_of_int (int (unat d div 16 mod 16) * 16 + int (unat d mod 16)) = d"
    by simp
  then show ?thesis
    by (simp only: hexPair_def C2H_H2C mod_less_divisor) simp
qed

lemma toBytes_loop_toHex: "toBytes_loop (HexEncode_toHex up bs) = Inr bs"
  by (induction bs) (auto simp: HexEncode_toHex_def hexPair_H2C)

section \<open>Independence of the chunking\<close>

text \<open>
  C33: A chain of a source, the hex decoder and a sink always finishes, and its outcome (success, a wrong
  byte, an incomplete input) does not depend on how the input is cut into buffers: the digit kept between
  two calls of \<open>convert\<close> makes up for every cut.  Unless there is a wrong byte, what reaches the sink does
  not depend on the cut either, and is the decoded input.  If there is one, the sink has exactly what the
  buffers before the refused one decode to, so there the cut does matter: \<open>4a\<close>, \<open>zz\<close> writes \<open>J\<close> before
  the error and \<open>4azz\<close> nothing.
\<close>

theorem hexDecode_chunking:
  "\<exists>out. doPump HexDecode_convert HexDecode_finalize mk_HexDecode bufs =
      Some (case toBytes_loop (concat bufs) of
              Inl e \<Rightarrow> Inl e
            | Inr _ \<Rightarrow> if odd (length (concat bufs)) then Inl TransformIncompleteInput else Inr (), out) \<and>
    (case toBytes_loop (concat bufs) of
       Inr out' \<Rightarrow> out = out'
     | Inl e \<Rightarrow> \<exists>front b rest. bufs = front @ b # rest \<and>
         toBytes_loop (concat front) = Inr out \<and> toBytes_loop (concat front @ b) = Inl e)"
  using hexDec.doPump_stop [of bufs]
  by (cases "toBytes_loop (concat bufs)"; cases "odd (length (concat bufs))") (simp_all add: hexDec.outcome_def)

end
