(* ===== verification/StringHelper.thy ===== *)
theory StringHelper
  imports Transform
begin

text \<open>
  \<open>util/string-helper\<close>: hexadecimal printing and parsing through the transform pipeline, and the
  percent encoding of URIs.  A \<open>None\<close> result stands for a pump that does not return.
\<close>

section \<open>Hexadecimal\<close>

definition toHexChar :: "nat \<Rightarrow> bool \<Rightarrow> char" where
  "toHexChar n wantUpperCase =
     (if wantUpperCase then ''0123456789ABCDEF'' ! (n mod 16) else ''0123456789abcdef'' ! (n mod 16))"

definition char_le :: "char \<Rightarrow> char \<Rightarrow> bool" where
  "char_le a b \<longleftrightarrow> sint (byte_of a) \<le> sint (byte_of b)"

definition fromHexChar :: "char \<Rightarrow> int" where
  "fromHexChar c =
     (if char_le CHR ''0'' c \<and> char_le c CHR ''9'' then sint (byte_of c) - 48
      else if char_le CHR ''A'' c \<and> char_le c CHR ''F'' then sint (byte_of c) - 65 + 10
      else if char_le CHR ''a'' c \<and> char_le c CHR ''f'' then sint (byte_of c) - 97 + 10
      else -1)"

function hexDigits :: "nat \<Rightarrow> bool \<Rightarrow> string" where
  "hexDigits n wantUpperCase =
     (if n < 16 then [toHexChar n wantUpperCase]
      else hexDigits (n div 16) wantUpperCase @ [toHexChar n wantUpperCase])"
  by auto
termination by (relation "measure fst") auto

declare hexDigits.simps [simp del]

definition printHex_num :: "uint64 \<Rightarrow> bool \<Rightarrow> string" where
  "printHex_num num wantUpperCase = ''0x'' @ hexDigits (unat num) wantUpperCase"

definition printHex :: "buffer \<Rightarrow> bool \<Rightarrow> string result option" where
  "printHex buf wantUpperCase =
     map_option (\<lambda>r. bindE (pumped r) (\<lambda>out. Inr (string_of out)))
       (doPump (HexEncode_convert wantUpperCase) Transform_finalize () [buf])"

definition toHex :: "buffer \<Rightarrow> bool \<Rightarrow> string result option" where
  "toHex buf wantUpperCase = printHex buf wantUpperCase"

definition fromHex :: "string \<Rightarrow> buffer result option" where
  "fromHex hexString =
     map_option (\<lambda>r. case pumped r of Inl e \<Rightarrow> Inl (StringHelperError e) | Inr out \<Rightarrow> Inr out)
       (doPump HexDecode_convert HexDecode_finalize mk_HexDecode [bytes_of hexString])"

text \<open>Decimal reading: \<open>strtoul\<close>, and \<open>stoull\<close> with its two exceptions.\<close>

definition isSpaceChar :: "char \<Rightarrow> bool" where
  "isSpaceChar c \<longleftrightarrow> byte_of c = 32 \<or> (9 \<le> byte_of c \<and> byte_of c \<le> 13)"

definition isDigitChar :: "char \<Rightarrow> bool" where
  "isDigitChar c \<longleftrightarrow> 48 \<le> byte_of c \<and> byte_of c \<le> 57"

definition decimal_value :: "string \<Rightarrow> nat" where
  "decimal_value ds = foldl (\<lambda>n c. 10 * n + (unat (byte_of c) - 48)) 0 ds"

definition signAndDigits :: "string \<Rightarrow> bool \<times> string" where
  "signAndDigits s =
     (let s1 = dropWhile isSpaceChar s;
          neg = (s1 \<noteq> [] \<and> hd s1 = CHR ''-'');
          s2 = (if s1 \<noteq> [] \<and> (hd s1 = CHR ''-'' \<or> hd s1 = CHR ''+'') then tl s1 else s1)
      in (neg, takeWhile isDigitChar s2))"

definition strtoul :: "string \<Rightarrow> uint64" where
  "strtoul s =
     (case signAndDigits s of (neg, ds) \<Rightarrow>
        if decimal_value ds \<ge> 2 ^ 64 then -1
        else if neg then - word_of_nat (decimal_value ds) else word_of_nat (decimal_value ds))"

definition stoull :: "string \<Rightarrow> uint64 result" where
  "stoull s =
     (case signAndDigits s of (neg, ds) \<Rightarrow>
        if ds = [] then Inl (InvalidArgument ''stoull'')
        else if decimal_value ds \<ge> 2 ^ 64 then Inl (OutOfRange ''stoull'')
        else Inr (if neg then - word_of_nat (decimal_value ds) else word_of_nat (decimal_value ds)))"

section \<open>Percent encoding\<close>

definition isUnreserved :: "char \<Rightarrow> bool" where
  "isUnreserved c \<longleftrightarrow>
     (char_le CHR ''a'' c \<and> char_le c CHR ''z'') \<or>
     (char_le CHR ''A'' c \<and> char_le c CHR ''Z'') \<or>
     (char_le CHR ''0'' c \<and> char_le c CHR ''9'') \<or>
     c = CHR ''-'' \<or> c = CHR ''.'' \<or>
     c = CHR ''_'' \<or> c = CHR ''~''"

fun escape :: "byte list \<Rightarrow> string" where
  "escape [] = []"
| "escape (b # bs) =
     (if isUnreserved (char_of_byte b) then [char_of_byte b]
      else [CHR ''%'', toHexChar (unat b div 16) True, toHexChar (unat b mod 16) True]) @ escape bs"

fun unescape :: "string \<Rightarrow> byte list" where
  "unescape (c # c1 # c2 # cs) =
     (if c = CHR ''%'' then
        let hi = fromHexChar c1; lo = fromHexChar c2 in
        (if hi < 0 \<or> lo < 0 then [byte_of c, byte_of c1, byte_of c2]
         else [word_of_int (hi * 16 + lo)]) @ unescape cs
      else byte_of c # unescape (c1 # c2 # cs))"
| "unescape cs = bytes_of cs"

section \<open>Lemmas\<close>

lemma fromHexChar_toHexChar: "n < 16 \<Longrightarrow> fromHexChar (toHexChar n up) = int n"
proof -
  assume "n < 16"
  then have "n \<in> {0, 1, 2, 3, 4, 5, 6, 7, 8, 9, 10, 11, 12, 13, 14, 15}"
    by (simp, presburger)
  then show ?thesis
    by (cases up) (auto simp: toHexChar_def fromHexChar_def byte_of_def char_le_def)
qed

lemma percent_reserved: "\<not> isUnreserved CHR ''%''"
  by (simp add: isUnreserved_def char_le_def byte_of_def)

lemma unescape_unreserved: "c \<noteq> CHR ''%'' \<Longrightarrow> unescape (c # cs) = byte_of c # unescape cs"
  by (cases cs rule: unescape.cases) (auto simp: bytes_of_def)

lemma unescape_percent:
  "unescape (CHR ''%'' # toHexChar (unat b div 16) True # toHexChar (unat b mod 16) True # cs)
    = b # unescape cs"
proof -
  have "int (unat b div 16) * 16 + int (unat b mod 16) = int (unat b)"
    by (metis div_mult_mod_eq int_ops(5) int_ops(7) of_nat_numeral)
  then have "word_of_int (int (unat b div 16) * 16 + int (unat b mod 16)) = b" by simp
  moreover have "unat b div 16 < 16" using unat_byte_less [of b] by simp
  ultimately show ?thesis
    by (simp only: unescape.simps fromHexChar_toHexChar mod_less_divisor Let_def) simp
qed

lemma unescape_unreserved': "isUnreserved c \<Longrightarrow> unescape (c # cs) = byte_of c # unescape cs"
  using percent_reserved by (intro unescape_unreserved) auto

lemma unescape_escape: "unescape (escape bs) = bs"
  by (induction bs)
    (auto simp: unescape_percent unescape_unreserved' bytes_of_def simp del: unescape.simps(1))

lemma fromHex_eq:
  "fromHex s = Some (case toBytes_loop (bytes_of s) of
       Inl e \<Rightarrow> Inl (StringHelperError e)
     | Inr out \<Rightarrow> if odd (length s) then Inl (StringHelperError TransformIncompleteInput) else Inr out)"
proof -
  obtain r where r: "doPump HexDecode_convert HexDecode_finalize mk_HexDecode [bytes_of s] = Some r"
    "pumped r = bindE (toBytes_loop (bytes_of s)) (\<lambda>out. if odd (length s) then Inl TransformIncompleteInput else Inr out)"
    using hexDec.doPump_spec [of "[bytes_of s]"] by (auto simp: bytes_of_def split: if_splits)
  then show ?thesis by (simp add: fromHex_def split: sum.split)
qed

lemma toHex_eq: "toHex bs up = Some (Inr (string_of (HexEncode_toHex up bs)))"
  using arg_cong [OF hexEnc.doPump_spec [of up "[bs]"], of "map_option (\<lambda>r. bindE r (\<lambda>out. Inr (string_of out)))"]
  by (simp add: toHex_def printHex_def option.map_comp comp_def)

lemma length_HexEncode_toHex [simp]: "length (HexEncode_toHex up bs) = 2 * length bs"
  by (induction bs) (auto simp: HexEncode_toHex_def)

lemma length_string_of [simp]: "length (string_of bs) = length bs"
  by (simp add: string_of_def)

lemma fromHex_string_of_toHex: "fromHex (string_of (HexEncode_toHex up bs)) = Some (Inr bs)"
  by (simp add: fromHex_eq toBytes_loop_toHex)

section \<open>Round trips\<close>

lemma toHexChar_unreserved: "isUnreserved (toHexChar n up)"
proof -
  have "n mod 16 \<in> {0, 1, 2, 3, 4, 5, 6, 7, 8, 9, 10, 11, 12, 13, 14, 15}"
    by (simp, presburger)
  then show ?thesis
    by (cases up) (auto simp: toHexChar_def isUnreserved_def byte_of_def char_le_def)
qed

lemma escape_chars: "list_all (\<lambda>c. isUnreserved c \<or> c = CHR ''%'') (escape bs)"
  by (induction bs) (simp_all add: toHexChar_unreserved)

text \<open>
  C37: \<open>unescape\<close> undoes \<open>escape\<close> on every byte string, and an escaped string consists of unreserved
  characters and percent signs only.
\<close>

theorem escape_round_trip:
  "unescape (escape bs) = bs \<and> list_all (\<lambda>c. isUnreserved c \<or> c = CHR ''%'') (escape bs)"
  by (simp add: unescape_escape escape_chars)

text \<open>
  \<open>toHex\<close> and \<open>fromHex\<close>, which run the transform chain, always return, and \<open>fromHex\<close> of
  \<open>toHex\<close> is the original bytes, for either case of the digits.
\<close>

theorem hex_round_trip:
  "\<exists>s. toHex bs up = Some (Inr s) \<and> length s = 2 * length bs \<and> fromHex s = Some (Inr bs)"
  by (simp add: toHex_eq fromHex_string_of_toHex)

end
