(* ===== verification/Block.thy ===== *)
theory Block
  imports Encoder StringHelper
begin

text \<open>
  \<open>Block\<close> (\<open>encoding/block.hpp\<close>, \<open>block.cpp\<close>): a TLV element that shares a buffer with its
  siblings.  Iterators into the buffer are offsets; a default-constructed iterator is offset 0.  The
  null buffer is \<open>None\<close>, and dereferencing it, which the code does not guard, is the error
  \<open>NullBuffer\<close>.  \<open>parse() const\<close> changes the mutable \<open>m_elements\<close>, so it returns the new block
  together with the exception it may throw.
\<close>

section \<open>State\<close>

datatype block = Block
  (m_buffer: "buffer option")
  (m_begin: nat)
  (m_end: nat)
  (m_valueBegin: nat)
  (m_valueEnd: nat)
  (m_type: uint32)
  (m_size: nat)
  (m_elements: "block list")

definition Block_default :: block where
  "Block_default = Block None 0 0 0 0 0 0 []"

definition isValid :: "block \<Rightarrow> bool" where
  "isValid b \<longleftrightarrow> m_type b \<noteq> tlv_Invalid"

definition hasWire :: "block \<Rightarrow> bool" where
  "hasWire b \<longleftrightarrow> m_buffer b \<noteq> None \<and> m_begin b \<noteq> m_end b"

definition hasValue :: "block \<Rightarrow> bool" where
  "hasValue b \<longleftrightarrow> m_buffer b \<noteq> None"

definition value_size :: "block \<Rightarrow> nat" where
  "value_size b = (if hasValue b then m_valueEnd b - m_valueBegin b else 0)"

text \<open>The bytes \<open>[m_valueBegin, m_valueEnd)\<close>, as read through \<open>value()\<close> and \<open>value_size()\<close>.\<close>

definition value_bytes :: "block \<Rightarrow> byte list" where
  "value_bytes b =
     (case m_buffer b of None \<Rightarrow> [] | Some buf \<Rightarrow> bslice (m_valueBegin b) (m_valueEnd b) buf)"

definition Block_wire :: "block \<Rightarrow> nat result" where
  "Block_wire b = (if \<not> hasWire b then Inl WireIsEmpty else Inr (m_begin b))"

definition Block_size :: "block \<Rightarrow> nat result" where
  "Block_size b = (if \<not> isValid b then Inl SizeOfInvalidBlock else Inr (m_size b))"

text \<open>\<open>make_span(wire(), size())\<close> and the range \<open>[begin(), end())\<close>.\<close>

definition wire_bytes :: "block \<Rightarrow> byte list" where
  "wire_bytes b = (case m_buffer b of None \<Rightarrow> [] | Some buf \<Rightarrow> bslice (m_begin b) (m_end b) buf)"

definition wire_span :: "block \<Rightarrow> byte list result" where
  "wire_span b =
     bindE (Block_wire b) (\<lambda>begin. bindE (Block_size b) (\<lambda>sz.
       case m_buffer b of None \<Rightarrow> Inl WireIsEmpty | Some buf \<Rightarrow> Inr (take sz (drop begin buf))))"

section \<open>Constructors\<close>

definition Block_fromSpan :: "byte list \<Rightarrow> block result" where
  "Block_fromSpan buf =
     bindE (readType ContiguousIterator buf) (\<lambda>(type, r1).
     bindE (readVarNumber ContiguousIterator r1) (\<lambda>(len, r2).
       if unat len > length r2 then Inl NotEnoughBytes
       else let pos = length buf - length r2 + unat len;
                b = take pos buf
            in Inr (Block (Some b) 0 (length b) (length b - unat len) (length b) type (length b) [])))"

text \<open>Precondition of the range constructor: \<open>begin\<close> does not come after \<open>end\<close>.\<close>

definition Block_fromRange :: "buffer option \<Rightarrow> nat \<Rightarrow> nat \<Rightarrow> bool \<Rightarrow> block result" where
  "Block_fromRange mb b e verifyLength =
     (case mb of
        None \<Rightarrow> Inl NullBuffer
      | Some buf \<Rightarrow>
          if buf = [] then Inl BufferIsEmpty
          else if b > length buf \<or> e > length buf then Inl IteratorsOutsideBuffer
          else bindE (readType ContiguousIterator (bslice b e buf)) (\<lambda>(type, r1).
               bindE (readVarNumber ContiguousIterator r1) (\<lambda>(len, r2).
                 let valueBegin = e - length r2 in
                 if verifyLength \<and> unat len \<noteq> e - valueBegin then Inl LengthMismatch
                 else Inr (Block (Some buf) b e valueBegin e type (e - b) []))))"

definition Block_fromEncoder :: "encoder \<Rightarrow> block result" where
  "Block_fromEncoder enc = Block_fromRange (Some (e_buffer enc)) (e_begin enc) (e_end enc) True"

definition Block_fromPtr :: "buffer \<Rightarrow> block result" where
  "Block_fromPtr buf = Block_fromRange (Some buf) 0 (length buf) True"

definition Block_raw :: "buffer \<Rightarrow> uint32 \<Rightarrow> nat \<Rightarrow> nat \<Rightarrow> nat \<Rightarrow> nat \<Rightarrow> block" where
  "Block_raw buf type b e vb ve = Block (Some buf) b e vb ve type (e - b) []"

definition Block_ofType :: "uint32 \<Rightarrow> block" where
  "Block_ofType type = Block None 0 0 0 0 type (sizeOfVarNumber (ucast type) + sizeOfVarNumber 0) []"

definition Block_ofValue :: "uint32 \<Rightarrow> buffer \<Rightarrow> block" where
  "Block_ofValue type v =
     Block (Some v) (length v) (length v) 0 (length v) type
       (sizeOfVarNumber (ucast type) + sizeOfVarNumber (word_of_nat (length v)) + length v) []"

definition Block_ofBlock :: "uint32 \<Rightarrow> block \<Rightarrow> block result" where
  "Block_ofBlock type v =
     (case m_buffer v of
        None \<Rightarrow> Inl NullBuffer
      | Some buf \<Rightarrow>
          if \<not> hasWire v then Inl WireIsEmpty
          else let vs = m_end v - m_begin v in
            Inr (Block (Some buf) (length buf) (length buf) (m_begin v) (m_end v) type
              (sizeOfVarNumber (ucast type) + sizeOfVarNumber (word_of_nat vs) + vs) []))"

definition fromBuffer :: "buffer \<Rightarrow> nat \<Rightarrow> bool \<times> block" where
  "fromBuffer buf offset =
     (case readType_nothrow ContiguousIterator (drop offset buf) 0 of (isOk, type, r1) \<Rightarrow>
        if \<not> isOk then (False, Block_default)
        else case readVarNumber_nothrow ContiguousIterator r1 0 of (isOk, len, r2) \<Rightarrow>
          if \<not> isOk then (False, Block_default)
          else if unat len > length r2 then (False, Block_default)
          else let pos = length buf - length r2 in
            (True, Block_raw buf type offset (pos + unat len) pos (pos + unat len)))"

definition fromBuffer_span :: "byte list \<Rightarrow> bool \<times> block" where
  "fromBuffer_span buf =
     (case readType_nothrow ContiguousIterator buf 0 of (isOk, type, r1) \<Rightarrow>
        if \<not> isOk then (False, Block_default)
        else case readVarNumber_nothrow ContiguousIterator r1 0 of (isOk, len, r2) \<Rightarrow>
          if \<not> isOk then (False, Block_default)
          else if unat len > length r2 then (False, Block_default)
          else let pos = length buf - length r2 + unat len; b = take pos buf in
            (True, Block_raw b type 0 (length b) (length b - unat len) (length b)))"

text \<open>
  \<open>fromStream\<close>: the stream is the bytes not yet read; the result carries what is left of it.  The
  sum in the limit check is one of \<open>uint64_t\<close>.
\<close>

definition MAX_SIZE_OF_BLOCK_FROM_STREAM :: uint64 where
  "MAX_SIZE_OF_BLOCK_FROM_STREAM = word_of_nat MAX_NDN_PACKET_SIZE"

definition fromStream :: "byte list \<Rightarrow> (block \<times> byte list) result" where
  "fromStream is =
     bindE (readType OtherIterator is) (\<lambda>(type, r1).
     bindE (readVarNumber OtherIterator r1) (\<lambda>(len, r2).
       let tlSize = sizeOfVarNumber (ucast type) + sizeOfVarNumber len in
       if word_of_nat tlSize + len > MAX_SIZE_OF_BLOCK_FROM_STREAM then Inl StreamExceedsLimit
       else if unat len > length r2 then Inl StreamNotEnough
       else let eb0 = mk_Encoder (unat (word_of_nat tlSize + len)) (unat len);
                eb1 = eb0\<lparr>e_buffer := overwrite (e_begin eb0) (take (unat len) r2) (e_buffer eb0)\<rparr>;
                eb2 = snd (Encoder_prependVarNumber len eb1);
                eb3 = snd (Encoder_prependVarNumber (ucast type) eb2)
            in bindE (Block_fromPtr (e_buffer eb3)) (\<lambda>b. Inr (b, drop (unat len) r2))))"

section \<open>Wire and value\<close>

definition Block_reset :: "block \<Rightarrow> block" where
  "Block_reset b = Block_default"

definition resetWire :: "block \<Rightarrow> block" where
  "resetWire b = Block None 0 0 0 0 (m_type b) (m_size b) (m_elements b)"

definition blockFromValue :: "block \<Rightarrow> block result" where
  "blockFromValue b =
     (if value_size b = 0 then Inl EmptyTlvValue
      else Block_fromRange (m_buffer b) (m_valueBegin b) (m_valueEnd b) True)"

section \<open>Sub-elements\<close>

function parse_loop :: "buffer \<Rightarrow> nat \<Rightarrow> nat \<Rightarrow> block list \<Rightarrow> error option \<times> block list" where
  "parse_loop buf b e acc =
     (if b = e then (None, acc)
      else case readType ContiguousIterator (bslice b e buf) of
        Inl err \<Rightarrow> (Some err, acc)
      | Inr (type, r1) \<Rightarrow>
          (case readVarNumber ContiguousIterator r1 of
             Inl err \<Rightarrow> (Some err, acc)
           | Inr (len, r2) \<Rightarrow>
               let pos = e - length r2 in
               if unat len > e - pos then (Some (SubElementOverflow type), [])
               else let subEnd = pos + unat len
                    in parse_loop buf subEnd e (acc @ [Block_raw buf type b subEnd pos subEnd])))"
  by pat_completeness auto
termination
proof (relation "measure (\<lambda>(buf, b, e, acc). e - b)", goal_cases)
  case (2 buf b e acc x2 type r1 x2a len r2 pos subEnd)
  have "length r2 < length r1" "length r1 < length (bslice b e buf)"
    using 2 by (auto dest: readType_consumes readVarNumber_consumes)
  then show ?case using 2 by (auto simp: min_def split: if_splits)
qed simp

declare parse_loop.simps [simp del]

definition parse :: "block \<Rightarrow> error option \<times> block" where
  "parse blk =
     (if m_elements blk \<noteq> [] \<or> value_size blk = 0 then (None, blk)
      else case m_buffer blk of
        None \<Rightarrow> (None, blk)
      | Some buf \<Rightarrow>
          (case parse_loop buf (m_valueBegin blk) (m_valueEnd blk) [] of (err, els) \<Rightarrow>
             (err, Block (m_buffer blk) (m_begin blk) (m_end blk) (m_valueBegin blk) (m_valueEnd blk)
                (m_type blk) (m_size blk) els)))"

text \<open>The value of an expression that calls \<open>parse()\<close> and goes on only if it does not throw.\<close>

definition parseE :: "block \<Rightarrow> block result" where
  "parseE blk = (case parse blk of (Some err, _) \<Rightarrow> Inl err | (None, blk') \<Rightarrow> Inr blk')"

definition Block_find :: "uint32 \<Rightarrow> block \<Rightarrow> nat" where
  "Block_find type b = length (takeWhile (\<lambda>s. m_type s \<noteq> type) (m_elements b))"

definition Block_get :: "uint32 \<Rightarrow> block \<Rightarrow> block result" where
  "Block_get type b =
     (let it = Block_find type b in
      if it \<noteq> length (m_elements b) then Inr (m_elements b ! it)
      else Inl (NoSubElement type (m_type b)))"

definition set_elements :: "block list \<Rightarrow> block \<Rightarrow> block" where
  "set_elements els b =
     Block (m_buffer b) (m_begin b) (m_end b) (m_valueBegin b) (m_valueEnd b) (m_type b) (m_size b) els"

definition Block_remove :: "uint32 \<Rightarrow> block \<Rightarrow> block" where
  "Block_remove type b =
     set_elements (filter (\<lambda>s. m_type s \<noteq> type) (m_elements b)) (resetWire b)"

definition Block_erase :: "nat \<Rightarrow> block \<Rightarrow> block" where
  "Block_erase pos b =
     set_elements (take pos (m_elements b) @ drop (Suc pos) (m_elements b)) (resetWire b)"

definition Block_erase_range :: "nat \<Rightarrow> nat \<Rightarrow> block \<Rightarrow> block" where
  "Block_erase_range first lst b =
     set_elements (take first (m_elements b) @ drop lst (m_elements b)) (resetWire b)"

definition Block_push_back :: "block \<Rightarrow> block \<Rightarrow> block" where
  "Block_push_back element b = set_elements (m_elements b @ [element]) (resetWire b)"

definition Block_insert :: "nat \<Rightarrow> block \<Rightarrow> block \<Rightarrow> block" where
  "Block_insert pos element b =
     set_elements (take pos (m_elements b) @ element # drop pos (m_elements b)) (resetWire b)"

section \<open>Encoding\<close>

fun encode_estimator :: "block \<Rightarrow> nat" where
  "encode_estimator (Block mb b e vb ve type sz els) =
     (case mb of
        Some _ \<Rightarrow> sz
      | None \<Rightarrow>
          let len = sum_list (map encode_estimator (rev els));
              len = len + Estimator_prependVarNumber (word_of_nat len)
          in len + Estimator_prependVarNumber (ucast type))"

definition encodeValue_estimator :: "block \<Rightarrow> nat" where
  "encodeValue_estimator b = sum_list (map encode_estimator (rev (m_elements b)))"

text \<open>
  \<open>encode(EncodingBuffer&)\<close> stores the shared pointer to the buffer while it is still being filled;
  \<open>shared\<close> is that buffer as it is when encoding is over.  The elements are visited last to first.
\<close>

fun encode_buffer :: "buffer \<Rightarrow> block \<Rightarrow> encoder \<Rightarrow> nat \<times> block \<times> encoder"
and encode_elements :: "buffer \<Rightarrow> block list \<Rightarrow> encoder \<Rightarrow> nat \<times> block list \<times> encoder" where
  "encode_buffer shared (Block mb b e vb ve type sz els) enc =
     (let newEnd = e_begin enc;
          (len, els', enc1) =
            (case mb of
               Some buf \<Rightarrow>
                 (case Encoder_prependRange (bslice vb ve buf) enc of (l, enc1) \<Rightarrow> (l, els, enc1))
             | None \<Rightarrow> encode_elements shared els enc);
          newValueBegin = e_begin enc1;
          (l2, enc2) = Encoder_prependVarNumber (word_of_nat len) enc1;
          (l3, enc3) = Encoder_prependVarNumber (ucast type) enc2;
          total = len + l2 + l3
      in (total, Block (Some shared) (e_begin enc3) newEnd newValueBegin newEnd type total els', enc3))"
| "encode_elements shared [] enc = (0, [], enc)"
| "encode_elements shared (x # xs) enc =
     (let (l1, xs', enc1) = encode_elements shared xs enc;
          (l2, x', enc2) = encode_buffer shared x enc1
      in (l1 + l2, x' # xs', enc2))"

definition Block_encode :: "block \<Rightarrow> block" where
  "Block_encode b =
     (if hasWire b then b
      else let estimatedSize = encode_estimator b;
               enc = mk_Encoder estimatedSize 0;
               (_, _, enc') = encode_buffer [] b enc;
               (_, b', _) = encode_buffer (e_buffer enc') b enc
           in b')"

section \<open>Comparison and printing\<close>

definition block_eq :: "block \<Rightarrow> block \<Rightarrow> bool" where
  "block_eq lhs rhs \<longleftrightarrow>
     m_type lhs = m_type rhs \<and> value_size lhs = value_size rhs \<and>
     (value_size lhs = 0 \<or> value_bytes lhs = value_bytes rhs)"

definition hexText :: "bool \<Rightarrow> byte list \<Rightarrow> string" where
  "hexText wantUpperCase bs = (case printHex bs wantUpperCase of Some (Inr s) \<Rightarrow> s | _ \<Rightarrow> [])"

fun joinWith :: "char \<Rightarrow> string list \<Rightarrow> string" where
  "joinWith c [] = []"
| "joinWith c [s] = s"
| "joinWith c (s # t # ss) = s @ [c] @ joinWith c (t # ss)"

fun block_print :: "block \<Rightarrow> string" where
  "block_print (Block mb b e vb ve type sz els) =
     (if type = tlv_Invalid then ''[invalid]''
      else if els \<noteq> [] then
        to_string (unat type) @ ''['' @
        to_string (encodeValue_estimator (Block mb b e vb ve type sz els)) @ '']={'' @
        joinWith CHR '','' (map block_print els) @ ''}''
      else if value_size (Block mb b e vb ve type sz els) > 0 then
        to_string (unat type) @ ''['' @
        to_string (value_size (Block mb b e vb ve type sz els)) @ '']='' @
        hexText True (value_bytes (Block mb b e vb ve type sz els))
      else to_string (unat type) @ ''[empty]'')"

text \<open>The literal \<open>"..."_block\<close>; \<open>strchr\<close> also finds the terminating NUL.\<close>

definition block_literal :: "string \<Rightarrow> block result option" where
  "block_literal input =
     (case map_option pumped (doPump HexDecode_convert HexDecode_finalize mk_HexDecode
             (map (\<lambda>c. [byte_of c])
                (filter (\<lambda>c. c \<in> set ''0123456789ABCDEF'' \<or> byte_of c = 0) input))) of
        None \<Rightarrow> None
      | Some (Inl TransformIncompleteInput) \<Rightarrow> Some (Inl OddHexDigits)
      | Some (Inl err) \<Rightarrow> Some (Inl err)
      | Some (Inr buf) \<Rightarrow> Some (Block_fromPtr buf))"

end
