(* ===== verification/BlockTlv.thy ===== *)
theory BlockTlv
  imports Block
begin

text \<open>
  TLV byte strings and what the constructors of \<open>Block\<close> accept: the shortest encoding of an
  element and its uniqueness, the well-formedness invariant of blocks and that the operations of
  \<open>Block\<close> keep it, and the blocks that come out of \<open>Block(span)\<close> and of the range constructor.
\<close>

section \<open>TLV byte strings\<close>

text \<open>
  \<open>tlv_bytes\<close> is the shortest encoding of an element; \<open>is_tlv bs t v\<close> says that \<open>bs\<close> is some
  encoding of it, shortest or not.
\<close>

definition tlv_bytes :: "uint32 \<Rightarrow> byte list \<Rightarrow> byte list" where
  "tlv_bytes t v = varNumber_bytes (ucast t) @ varNumber_bytes (word_of_nat (length v)) @ v"

definition is_tlv :: "byte list \<Rightarrow> uint32 \<Rightarrow> byte list \<Rightarrow> bool" where
  "is_tlv bs t v \<longleftrightarrow>
     (case readType ContiguousIterator bs of
        Inl _ \<Rightarrow> False
      | Inr (t', r1) \<Rightarrow> t' = t \<and>
          (case readVarNumber ContiguousIterator r1 of
             Inl _ \<Rightarrow> False
           | Inr (len, r2) \<Rightarrow> r2 = v \<and> unat len = length v))"

lemma unat_word_of_length: "n < 2 ^ 64 \<Longrightarrow> unat (word_of_nat n :: uint64) = n"
  by (simp add: unat_of_nat)

lemma length_tlv_bytes:
  "length (tlv_bytes t v) =
     sizeOfVarNumber (ucast t) + sizeOfVarNumber (word_of_nat (length v)) + length v"
  by (simp add: tlv_bytes_def)

lemma sizeOfVarNumber_pos: "0 < sizeOfVarNumber n"
  by (simp add: sizeOfVarNumber_def)

lemma tlv_bytes_not_Nil [simp]: "tlv_bytes t v \<noteq> []"
  using sizeOfVarNumber_pos [of "ucast t"] length_tlv_bytes [of t v] by auto

lemma readType_tlv_bytes:
  "t \<noteq> 0 \<Longrightarrow> readType k (tlv_bytes t v @ rest) =
     Inr (t, varNumber_bytes (word_of_nat (length v)) @ v @ rest)"
  by (simp add: tlv_bytes_def readType_bytes)

lemma is_tlv_bytes: "t \<noteq> 0 \<Longrightarrow> length v < 2 ^ 64 \<Longrightarrow> is_tlv (tlv_bytes t v) t v"
  using readType_tlv_bytes [of t ContiguousIterator v "[]"]
  by (simp add: is_tlv_def unat_word_of_length readVarNumber_bytes)

lemma is_tlvE:
  assumes "is_tlv bs t v"
  obtains len r1 where "readType ContiguousIterator bs = Inr (t, r1)"
    "readVarNumber ContiguousIterator r1 = Inr (len, v)" "unat len = length v"
proof (cases "readType ContiguousIterator bs")
  case (Inl e)
  then show ?thesis using assms by (simp add: is_tlv_def)
next
  case (Inr p)
  obtain t' r1 where p: "p = (t', r1)" by (cases p)
  show ?thesis
  proof (cases "readVarNumber ContiguousIterator r1")
    case (Inl e)
    then show ?thesis using assms Inr p by (simp add: is_tlv_def)
  next
    case (Inr q)
    obtain len r2 where q: "q = (len, r2)" by (cases q)
    have "t' = t \<and> r2 = v \<and> unat len = length v"
      using assms Inr \<open>readType _ _ = _\<close> p q by (simp add: is_tlv_def)
    then show ?thesis
      using Inr \<open>readType _ _ = _\<close> p q by (intro that [of r1 len]) blast+
  qed
qed

lemma is_tlvI:
  "readType ContiguousIterator bs = Inr (t, r1) \<Longrightarrow>
   readVarNumber ContiguousIterator r1 = Inr (len, v) \<Longrightarrow> unat len = length v \<Longrightarrow> is_tlv bs t v"
  by (simp add: is_tlv_def)

lemma is_tlv_type: "is_tlv bs t v \<Longrightarrow> t \<noteq> 0"
  by (auto elim!: is_tlvE dest: readType_Inr(1))

lemma is_tlv_fun: "is_tlv bs t v \<Longrightarrow> is_tlv bs t' v' \<Longrightarrow> t' = t \<and> v' = v"
  by (auto elim!: is_tlvE)

text \<open>Any encoding is at least as long as the shortest one, and the shortest one is unique.\<close>

lemma is_tlv_header:
  assumes "is_tlv bs t v"
  obtains h where "bs = h @ v"
    "sizeOfVarNumber (ucast t) + sizeOfVarNumber (word_of_nat (length v)) \<le> length h"
    "length h = sizeOfVarNumber (ucast t) + sizeOfVarNumber (word_of_nat (length v))
       \<Longrightarrow> bs = tlv_bytes t v"
proof -
  obtain len r1 where r: "readType ContiguousIterator bs = Inr (t, r1)"
      "readVarNumber ContiguousIterator r1 = Inr (len, v)" "unat len = length v"
    using assms by (rule is_tlvE)
  have len: "word_of_nat (length v) = len"
    by (simp flip: r(3))
  obtain p where p: "bs = p @ r1" "sizeOfVarNumber (ucast t) \<le> length p"
      "length p = sizeOfVarNumber (ucast t) \<Longrightarrow> p = varNumber_bytes (ucast t)"
    using readVarNumber_Inr [OF readType_Inr(2) [OF r(1)]] by blast
  obtain q where q: "r1 = q @ v" "sizeOfVarNumber len \<le> length q"
      "length q = sizeOfVarNumber len \<Longrightarrow> q = varNumber_bytes len"
    using readVarNumber_Inr [OF r(2)] by blast
  show thesis
  proof (rule that [of "p @ q"])
    show "bs = tlv_bytes t v"
      if "length (p @ q) = sizeOfVarNumber (ucast t) + sizeOfVarNumber (word_of_nat (length v))"
    proof -
      have "length p = sizeOfVarNumber (ucast t)" "length q = sizeOfVarNumber len"
        using that p(2) q(2) by (auto simp: len)
      with p q show ?thesis by (simp add: tlv_bytes_def len)
    qed
  qed (use p q in \<open>auto simp: len\<close>)
qed

lemma is_tlv_minimal: "is_tlv bs t v \<Longrightarrow> length (tlv_bytes t v) \<le> length bs"
  by (elim is_tlv_header) (auto simp: length_tlv_bytes)

lemma is_tlv_minimal_unique:
  "is_tlv bs t v \<Longrightarrow> length bs = length (tlv_bytes t v) \<Longrightarrow> bs = tlv_bytes t v"
  by (elim is_tlv_header) (auto simp: length_tlv_bytes)

lemma tlv_bytes_inject:
  assumes "tlv_bytes t v = tlv_bytes t' v'" "t \<noteq> 0" "t' \<noteq> 0" "length v < 2 ^ 64" "length v' < 2 ^ 64"
  shows "t = t' \<and> v = v'"
  using is_tlv_fun [OF is_tlv_bytes [OF assms(2,4)]] is_tlv_bytes [OF assms(3,5)] assms(1) by auto

section \<open>Well-formed blocks\<close>

fun wf_block :: "block \<Rightarrow> bool" where
  "wf_block (Block mb b e vb ve t sz els) \<longleftrightarrow>
     (case mb of
        None \<Rightarrow> b = 0 \<and> e = 0 \<and> vb = 0 \<and> ve = 0
      | Some buf \<Rightarrow> vb \<le> ve \<and> ve \<le> length buf \<and> b \<le> e \<and> e \<le> length buf \<and>
          (if b \<noteq> e then b \<le> vb \<and> ve = e \<and> sz = e - b \<and> is_tlv (bslice b e buf) t (bslice vb ve buf)
           else sz = sizeOfVarNumber (ucast t) + sizeOfVarNumber (word_of_nat (ve - vb)) + (ve - vb)))
     \<and> list_all wf_block els"

lemma value_size_length: "wf_block b \<Longrightarrow> value_size b = length (value_bytes b)"
  by (cases b) (auto simp: value_size_def value_bytes_def hasValue_def min_def split: option.splits)

lemma wf_wire_tlv: "wf_block b \<Longrightarrow> hasWire b \<Longrightarrow> is_tlv (wire_bytes b) (m_type b) (value_bytes b)"
  by (cases b) (auto simp: hasWire_def wire_bytes_def value_bytes_def)

lemma block_eq_iff:
  "wf_block a \<Longrightarrow> wf_block b \<Longrightarrow>
     block_eq a b \<longleftrightarrow> m_type a = m_type b \<and> value_bytes a = value_bytes b"
  by (auto simp: block_eq_def value_size_length)

lemma wf_set_elements [simp]:
  "wf_block b \<Longrightarrow> wf_block (set_elements els b) \<longleftrightarrow> list_all wf_block els"
  by (cases b) (auto simp: set_elements_def)

lemma wf_elements: "wf_block b \<Longrightarrow> list_all wf_block (m_elements b)"
  by (cases b) auto

lemma wf_resetWire [simp]: "wf_block b \<Longrightarrow> wf_block (resetWire b)"
  by (cases b) (auto simp: resetWire_def)

lemma wf_default [simp]: "wf_block Block_default"
  by (simp add: Block_default_def)

lemma wf_ofType [simp]: "wf_block (Block_ofType t)"
  by (simp add: Block_ofType_def)

lemma wf_ofValue [simp]: "wf_block (Block_ofValue t v)"
  by (simp add: Block_ofValue_def)

lemma wf_ofBlock: "wf_block v \<Longrightarrow> Block_ofBlock t v = Inr b \<Longrightarrow> wf_block b"
  by (cases v) (auto simp: Block_ofBlock_def Let_def hasWire_def split: option.splits if_splits)

lemma wf_push_back: "wf_block b \<Longrightarrow> wf_block x \<Longrightarrow> wf_block (Block_push_back x b)"
  using wf_elements [of b] by (simp add: Block_push_back_def)

lemma wf_insert: "wf_block b \<Longrightarrow> wf_block x \<Longrightarrow> wf_block (Block_insert i x b)"
  using wf_elements [of b] by (auto simp: Block_insert_def list_all_iff dest: in_set_takeD in_set_dropD)

lemma wf_erase: "wf_block b \<Longrightarrow> wf_block (Block_erase i b)"
  using wf_elements [of b] by (auto simp: Block_erase_def list_all_iff dest: in_set_takeD in_set_dropD)

lemma wf_erase_range: "wf_block b \<Longrightarrow> wf_block (Block_erase_range i j b)"
  using wf_elements [of b]
  by (auto simp: Block_erase_range_def list_all_iff dest: in_set_takeD in_set_dropD)

lemma wf_remove: "wf_block b \<Longrightarrow> wf_block (Block_remove t b)"
  using wf_elements [of b] by (auto simp: Block_remove_def list_all_iff)

section \<open>Reading one element\<close>

lemma suffix_eq_drop: "suffix r bs \<Longrightarrow> r = drop (length bs - length r) bs"
  by (auto simp: suffix_def)

lemma suffix_bslice:
  assumes "suffix r (bslice b e buf)" "b \<le> e" "e \<le> length buf"
  shows "r = bslice (e - length r) e buf"
proof -
  have "length (bslice b e buf) = e - b" using assms by (simp add: min_def)
  moreover have "length r \<le> e - b" using assms calculation by (metis suffix_length_le)
  ultimately show ?thesis
    using suffix_eq_drop [OF assms(1)] assms by (simp add: drop_bslice)
qed

lemma header_suffix:
  assumes "readType k bs = Inr (t, r1)" "readVarNumber k r1 = Inr (len, r2)"
  shows "suffix r2 bs" "length r2 < length bs"
proof -
  show "suffix r2 bs"
    using readVarNumber_suffix [OF assms(2)] readType_suffix [OF assms(1)]
    by (rule suffix_order.trans)
  show "length r2 < length bs"
    using readVarNumber_consumes [OF assms(2)] readType_consumes [OF assms(1)] by simp
qed

text \<open>The header may be read with less input after it, as long as the header itself is there.\<close>

lemma readVarNumber_append:
  "readVarNumber k (p @ r) = Inr (n, r) \<Longrightarrow> readVarNumber k (p @ r') = Inr (n, r')"
proof -
  assume a: "readVarNumber k (p @ r) = Inr (n, r)"
  then have "p \<noteq> []" using readVarNumber_consumes by fastforce
  then obtain c q where p: "p = c # q" by (cases p) auto
  show ?thesis
  proof (cases "c < 253")
    case True
    then show ?thesis using a by (simp add: p readVarNumber_Cons)
  next
    case False
    have "length q = varNumber_extra c"
      using a False by (auto simp: p readVarNumber_Cons split: if_splits dest!: arg_cong [of _ _ length])
    then show ?thesis using a False by (auto simp: p readVarNumber_Cons split: if_splits)
  qed
qed

lemma readType_append:
  assumes "readType k (p @ r) = Inr (t, r)"
  shows "readType k (p @ r') = Inr (t, r')"
proof -
  have "readVarNumber k (p @ r') = Inr (ucast t, r')"
    using readVarNumber_append [OF readType_Inr(2) [OF assms]] .
  then show ?thesis
    using assms readType_Inr(2) [OF assms] by (auto simp: readType_def bindE_eq_Inr split: if_splits)
qed

lemma header_tlv:
  assumes "readType ContiguousIterator bs = Inr (t, r1)"
    and "readVarNumber ContiguousIterator r1 = Inr (len, r2)" and "unat len \<le> length r2"
  shows "is_tlv (take (length bs - length r2 + unat len) bs) t (take (unat len) r2)"
proof -
  obtain p where p: "bs = p @ r1" using readType_suffix [OF assms(1)] by (auto simp: suffix_def)
  obtain q where q: "r1 = q @ r2" using readVarNumber_suffix [OF assms(2)] by (auto simp: suffix_def)
  let ?v = "take (unat len) r2"
  have "readVarNumber ContiguousIterator (q @ ?v) = Inr (len, ?v)"
    using assms(2) by (auto simp: q intro: readVarNumber_append)
  moreover have "readType ContiguousIterator (p @ q @ ?v) = Inr (t, q @ ?v)"
    using assms(1) by (auto simp: p intro: readType_append)
  moreover have "unat len = length ?v" using assms(3) by simp
  ultimately have "is_tlv (p @ q @ ?v) t ?v" by (intro is_tlvI [of _ t "q @ ?v" len])
  moreover have "take (length bs - length r2 + unat len) bs = p @ q @ ?v"
    by (simp add: p q)
  ultimately show ?thesis by simp
qed

section \<open>Constructing a block from bytes\<close>

lemma Block_fromSpan_tlv:
  assumes "is_tlv bs t v"
  shows "Block_fromSpan (bs @ rest) =
    Inr (Block (Some bs) 0 (length bs) (length bs - length v) (length bs) t (length bs) [])"
proof -
  obtain len r1 where r: "readType ContiguousIterator bs = Inr (t, r1)"
      "readVarNumber ContiguousIterator r1 = Inr (len, v)" "unat len = length v"
    using assms by (rule is_tlvE)
  obtain p where p: "bs = p @ r1" using readType_suffix [OF r(1)] by (auto simp: suffix_def)
  obtain q where q: "r1 = q @ v" using readVarNumber_suffix [OF r(2)] by (auto simp: suffix_def)
  have "readVarNumber ContiguousIterator (q @ v @ rest) = Inr (len, v @ rest)"
    using r(2) by (auto simp: q intro: readVarNumber_append)
  moreover have "readType ContiguousIterator (p @ q @ v @ rest) = Inr (t, q @ v @ rest)"
    using r(1) readType_append [of _ p r1 t] by (simp add: p q)
  ultimately show ?thesis
    using r(3) by (simp add: Block_fromSpan_def p q Let_def)
qed

lemma Block_fromSpan_Inr:
  assumes "Block_fromSpan buf = Inr b"
  shows "wf_block b" "hasWire b" "prefix (wire_bytes b) buf" "m_elements b = []"
proof -
  obtain t r1 len r2 where r: "readType ContiguousIterator buf = Inr (t, r1)"
      "readVarNumber ContiguousIterator r1 = Inr (len, r2)" "unat len \<le> length r2"
    using assms by (auto simp: Block_fromSpan_def bindE_eq_Inr split: if_splits)
  define w where "w = take (length buf - length r2 + unat len) buf"
  obtain v where tlv: "is_tlv w t v"
    using header_tlv [OF r] by (auto simp: w_def)
  have "Block_fromSpan (w @ drop (length buf - length r2 + unat len) buf) =
      Inr (Block (Some w) 0 (length w) (length w - length v) (length w) t (length w) [])"
    by (rule Block_fromSpan_tlv [OF tlv])
  then have b: "b = Block (Some w) 0 (length w) (length w - length v) (length w) t (length w) []"
    using assms by (simp add: w_def)
  obtain h where h: "w = h @ v" using is_tlv_header [OF tlv] by blast
  have "w \<noteq> []" using tlv by (auto elim!: is_tlvE simp: readType_def)
  then show "hasWire b" by (simp add: b hasWire_def)
  show "prefix (wire_bytes b) buf" by (simp add: b wire_bytes_def) (simp add: w_def take_is_prefix)
  show "m_elements b = []" by (simp add: b)
  show "wf_block b"
    using tlv \<open>w \<noteq> []\<close> by (simp add: b) (simp add: h bslice_def)
qed

lemma Block_fromRange_tlv:
  assumes "is_tlv (bslice b e buf) t v" "b \<le> e" "e \<le> length buf"
  shows "Block_fromRange (Some buf) b e verify = Inr (Block (Some buf) b e (e - length v) e t (e - b) [])"
proof -
  obtain len r1 where r: "readType ContiguousIterator (bslice b e buf) = Inr (t, r1)"
      "readVarNumber ContiguousIterator r1 = Inr (len, v)" "unat len = length v"
    using assms(1) by (rule is_tlvE)
  have "buf \<noteq> []" using r(1) by (auto simp: readType_def)
  moreover have "length v \<le> e"
    using header_suffix(2) [OF r(1,2)] by auto
  ultimately show ?thesis
    using assms(2,3) r by (simp add: Block_fromRange_def Let_def)
qed

lemma Block_fromRange_Inr:
  assumes "Block_fromRange (Some buf) b e True = Inr blk" "b \<le> e"
  shows "wf_block blk" "hasWire blk" "wire_bytes blk = bslice b e buf" "m_buffer blk = Some buf"
    "m_elements blk = []" "m_begin blk = b" "m_end blk = e"
proof -
  have e: "e \<le> length buf" using assms(1) by (auto simp: Block_fromRange_def split: if_splits)
  obtain t r1 len r2 where r: "readType ContiguousIterator (bslice b e buf) = Inr (t, r1)"
      "readVarNumber ContiguousIterator r1 = Inr (len, r2)" "unat len = e - (e - length r2)"
      and blk: "blk = Block (Some buf) b e (e - length r2) e t (e - b) []"
    using assms(1) by (auto simp: Block_fromRange_def bindE_eq_Inr Let_def split: if_splits)
  have l: "length r2 < e - b" using header_suffix(2) [OF r(1,2)] by simp
  then have len: "unat len = length r2" using r(3) by simp
  have v: "r2 = bslice (e - length r2) e buf"
    using header_suffix(1) [OF r(1,2)] assms(2) e by (rule suffix_bslice)
  have "is_tlv (bslice b e buf) t r2" using r(1,2) len by (rule is_tlvI)
  then have "is_tlv (bslice b e buf) t (bslice (e - length r2) e buf)" using v by simp
  then show "wf_block blk" using l e assms(2) by (auto simp: blk)
  show "hasWire blk" using l by (simp add: blk hasWire_def)
qed (use assms in \<open>auto simp: Block_fromRange_def wire_bytes_def bindE_eq_Inr Let_def split: if_splits\<close>)

end
