(* ===== verification/BlockParse.thy ===== *)
theory BlockParse
  imports BlockTlv
begin

text \<open>
  \<open>Block::parse\<close>: the sub-elements it produces lie one after the other in the buffer of the block
  and make up its whole value; a value that is a sequence of shortest encodings is parsed back to
  exactly that sequence; what a failing call leaves behind.
\<close>

section \<open>One iteration\<close>

lemma Block_raw_sel [simp]:
  "m_buffer (Block_raw buf t b e vb ve) = Some buf" "m_elements (Block_raw buf t b e vb ve) = []"
  "m_type (Block_raw buf t b e vb ve) = t" "m_begin (Block_raw buf t b e vb ve) = b"
  "m_end (Block_raw buf t b e vb ve) = e"
  by (simp_all add: Block_raw_def)

lemma length_bslice_le: "e \<le> length xs \<Longrightarrow> length (bslice b e xs) = e - b"
  by (simp add: min_def)

lemma parse_loop_done [simp]: "parse_loop buf e e acc = (None, acc)"
  by (simp add: parse_loop.simps)

lemma bslice_prefix_len:
  assumes "bslice b e buf = xs @ ys" "b \<le> e" "e \<le> length buf"
  shows "b + length xs \<le> e" "bslice (b + length xs) e buf = ys" "bslice b (b + length xs) buf = xs"
proof -
  have "length xs + length ys = e - b" using length_bslice_le [OF assms(3), of b] by (simp add: assms(1))
  then show l: "b + length xs \<le> e" using assms(2) by simp
  show "bslice (b + length xs) e buf = ys"
    using drop_bslice [of "length xs" b e buf] assms(1) by simp
  show "bslice b (b + length xs) buf = xs"
    using take_bslice [OF l, of buf] assms(1) by simp
qed

lemma parse_loop_tlv:
  assumes "bslice b e buf = w @ rest" "is_tlv w t v" "b \<le> e" "e \<le> length buf"
  shows "parse_loop buf b e acc = parse_loop buf (b + length w) e
    (acc @ [Block_raw buf t b (b + length w) (b + length w - length v) (b + length w)])"
proof -
  obtain len r1 where r: "readType ContiguousIterator w = Inr (t, r1)"
      "readVarNumber ContiguousIterator r1 = Inr (len, v)" "unat len = length v"
    using assms(2) by (rule is_tlvE)
  obtain p where p: "w = p @ r1" using readType_suffix [OF r(1)] by (auto simp: suffix_def)
  obtain q where q: "r1 = q @ v" using readVarNumber_suffix [OF r(2)] by (auto simp: suffix_def)
  have r1: "readVarNumber ContiguousIterator (q @ v @ rest) = Inr (len, v @ rest)"
    using r(2) by (auto simp: q intro: readVarNumber_append)
  have r2: "readType ContiguousIterator (bslice b e buf) = Inr (t, q @ v @ rest)"
    using r(1) readType_append [of _ p r1 t] by (simp add: p q assms(1))
  have len: "e - b = length w + length rest"
    using length_bslice_le [OF assms(4), of b] by (simp add: assms(1))
  have "w \<noteq> []" using r(1) by (auto simp: readType_def)
  with len assms have "b \<noteq> e" by auto
  moreover have "e - (length v + length rest) + length v = b + length w"
    using len assms(3) p q by simp
  moreover have "e - (length v + length rest) = b + length w - length v"
    using len assms(3) p q by simp
  ultimately show ?thesis
    using len assms(3) p q
    by (subst parse_loop.simps) (auto simp: r1 r2 r(3) Let_def add.assoc)
qed

section \<open>Sequences of elements\<close>

text \<open>The elements of a buffer that holds the given encodings from offset \<open>b\<close> on.\<close>

primrec elements_at :: "buffer \<Rightarrow> nat \<Rightarrow> (uint32 \<times> byte list) list \<Rightarrow> block list" where
  "elements_at buf b [] = []"
| "elements_at buf b (tv # tvs) =
     (let w = tlv_bytes (fst tv) (snd tv); e = b + length w
      in Block_raw buf (fst tv) b e (e - length (snd tv)) e # elements_at buf e tvs)"

definition tlvs_bytes :: "(uint32 \<times> byte list) list \<Rightarrow> byte list" where
  "tlvs_bytes tvs = concat (map (\<lambda>(t, v). tlv_bytes t v) tvs)"

definition tlvs_ok :: "(uint32 \<times> byte list) list \<Rightarrow> bool" where
  "tlvs_ok tvs \<longleftrightarrow> list_all (\<lambda>(t, v). t \<noteq> 0 \<and> length v < 2 ^ 64) tvs"

lemma tlvs_bytes_simps [simp]:
  "tlvs_bytes [] = []" "tlvs_bytes ((t, v) # tvs) = tlv_bytes t v @ tlvs_bytes tvs"
  "tlvs_bytes (xs @ ys) = tlvs_bytes xs @ tlvs_bytes ys"
  by (simp_all add: tlvs_bytes_def)

lemma tlvs_ok_simps [simp]:
  "tlvs_ok []" "tlvs_ok ((t, v) # tvs) \<longleftrightarrow> t \<noteq> 0 \<and> length v < 2 ^ 64 \<and> tlvs_ok tvs"
  "tlvs_ok (xs @ ys) \<longleftrightarrow> tlvs_ok xs \<and> tlvs_ok ys"
  by (simp_all add: tlvs_ok_def)

lemma parse_loop_tlvs:
  "bslice b e buf = tlvs_bytes tvs \<Longrightarrow> tlvs_ok tvs \<Longrightarrow> b \<le> e \<Longrightarrow> e \<le> length buf \<Longrightarrow>
     parse_loop buf b e acc = (None, acc @ elements_at buf b tvs)"
proof (induction tvs arbitrary: b acc)
  case Nil
  then have "b = e" by (simp add: bslice_empty_iff)
  then show ?case by simp
next
  case (Cons tv tvs)
  obtain t v where tv: "tv = (t, v)" by (cases tv)
  let ?w = "tlv_bytes t v"
  have s: "bslice b e buf = ?w @ tlvs_bytes tvs" using Cons.prems(1) by (simp add: tv)
  have "is_tlv ?w t v" using Cons.prems(2) by (simp add: tv is_tlv_bytes)
  then have "parse_loop buf b e acc = parse_loop buf (b + length ?w) e
      (acc @ [Block_raw buf t b (b + length ?w) (b + length ?w - length v) (b + length ?w)])"
    using s Cons.prems(3,4) by (intro parse_loop_tlv)
  also have "\<dots> = (None, acc @ elements_at buf b (tv # tvs))"
    using Cons.prems bslice_prefix_len [OF s Cons.prems(3,4)]
    by (subst Cons.IH) (auto simp: tv Let_def)
  finally show ?case .
qed

text \<open>What the elements are: their types, values and wires, in order.\<close>

definition view :: "block \<Rightarrow> uint32 \<times> byte list" where
  "view b = (m_type b, value_bytes b)"

lemma view_simps [simp]: "fst (view b) = m_type b" "snd (view b) = value_bytes b"
  by (simp_all add: view_def)

lemma raw_bytes:
  assumes "bslice b e buf = w @ rest" "is_tlv w t v" "b \<le> e" "e \<le> length buf"
  defines "x \<equiv> Block_raw buf t b (b + length w) (b + length w - length v) (b + length w)"
  shows "view x = (t, v)" "wire_bytes x = w" "wf_block x" "hasWire x"
proof -
  obtain h where h: "w = h @ v" using is_tlv_header [OF assms(2)] by blast
  have w: "bslice b (b + length w) buf = w" "b + length w \<le> e"
    using bslice_prefix_len [OF assms(1,3,4)] by simp_all
  have "bslice b e buf = h @ (v @ rest)" using assms(1) h by simp
  from bslice_prefix_len(1,2) [OF this assms(3,4)]
  have "bslice (b + length h) (b + length h + length v) buf = v"
    using assms(3,4) bslice_prefix_len(3) [of "b + length h" e buf v rest] by simp
  then have v: "bslice (b + length w - length v) (b + length w) buf = v" by (simp add: h add.assoc)
  have ne: "w \<noteq> []" using assms(2) by (auto elim!: is_tlvE simp: readType_def)
  show "view x = (t, v)" using v by (simp add: x_def view_def Block_raw_def value_bytes_def)
  show "wire_bytes x = w" using w by (simp add: x_def Block_raw_def wire_bytes_def)
  show "hasWire x" using ne by (simp add: x_def Block_raw_def hasWire_def)
  show "wf_block x"
    using v w assms(2,4) ne by (simp add: x_def Block_raw_def) (simp add: h)
qed

lemma elements_at_view:
  "bslice b e buf = tlvs_bytes tvs \<Longrightarrow> tlvs_ok tvs \<Longrightarrow> b \<le> e \<Longrightarrow> e \<le> length buf \<Longrightarrow>
     map view (elements_at buf b tvs) = tvs \<and>
     map wire_bytes (elements_at buf b tvs) = map (\<lambda>(t, v). tlv_bytes t v) tvs \<and>
     list_all wf_block (elements_at buf b tvs) \<and> list_all hasWire (elements_at buf b tvs)"
proof (induction tvs arbitrary: b)
  case (Cons tv tvs)
  obtain t v where tv: "tv = (t, v)" by (cases tv)
  let ?w = "tlv_bytes t v"
  have s: "bslice b e buf = ?w @ tlvs_bytes tvs" using Cons.prems(1) by (simp add: tv)
  have w: "is_tlv ?w t v" using Cons.prems(2) by (simp add: tv is_tlv_bytes)
  note r = raw_bytes [OF s w Cons.prems(3,4)]
  have "map view (elements_at buf (b + length ?w) tvs) = tvs \<and>
      map wire_bytes (elements_at buf (b + length ?w) tvs) = map (\<lambda>(t, v). tlv_bytes t v) tvs \<and>
      list_all wf_block (elements_at buf (b + length ?w) tvs) \<and>
      list_all hasWire (elements_at buf (b + length ?w) tvs)"
    using Cons.prems bslice_prefix_len [OF s Cons.prems(3,4)] by (intro Cons.IH) (simp_all add: tv)
  with r show ?case by (simp add: tv Let_def)
qed simp

lemma elements_at_elements: "x \<in> set (elements_at buf b tvs) \<Longrightarrow> m_elements x = [] \<and> m_buffer x = Some buf"
  by (induction tvs arbitrary: b) (auto simp: Let_def Block_raw_def)

section \<open>Parsing a block\<close>

lemma parse_parsed [simp]: "m_elements b \<noteq> [] \<Longrightarrow> parse b = (None, b)"
  by (simp add: parse_def)

lemma parse_same:
  "parse b = (err, b') \<Longrightarrow> view b' = view b \<and> wire_bytes b' = wire_bytes b \<and> hasWire b' = hasWire b \<and>
     m_buffer b' = m_buffer b \<and> m_size b' = m_size b \<and> m_begin b' = m_begin b \<and> m_end b' = m_end b"
  by (cases b) (auto simp: parse_def view_def wire_bytes_def value_bytes_def hasWire_def
      split: if_splits option.splits prod.splits)

text \<open>Parsing a value made of shortest encodings gives back those elements.\<close>

lemma parse_tlvs:
  assumes "wf_block b" "m_elements b = []" "value_bytes b = tlvs_bytes tvs" "tlvs_ok tvs"
  obtains b' where "parse b = (None, b')" "map view (m_elements b') = tvs"
    "map wire_bytes (m_elements b') = map (\<lambda>(t, v). tlv_bytes t v) tvs"
    "list_all wf_block (m_elements b')" "list_all hasWire (m_elements b')"
    "\<And>x. x \<in> set (m_elements b') \<Longrightarrow> m_elements x = []" "wf_block b'"
proof (cases "value_size b = 0")
  case True
  then have "tlvs_bytes tvs = []" using assms by (simp add: value_size_length)
  then have "tvs = []" by (cases tvs) (auto simp: tlvs_bytes_def)
  then show ?thesis using that [of b] True assms by (simp add: parse_def)
next
  case False
  then obtain buf where buf: "m_buffer b = Some buf" by (auto simp: value_size_def hasValue_def split: if_splits)
  have bd: "m_valueBegin b \<le> m_valueEnd b" "m_valueEnd b \<le> length buf"
    using assms(1) buf by (cases b; auto)+
  have s: "bslice (m_valueBegin b) (m_valueEnd b) buf = tlvs_bytes tvs"
    using assms(3) buf by (simp add: value_bytes_def)
  note v = elements_at_view [OF s assms(4) bd]
  have "parse b = (None, set_elements (elements_at buf (m_valueBegin b) tvs) b)"
    using parse_loop_tlvs [OF s assms(4) bd, of "[]"] False assms(2) buf
    by (simp add: parse_def set_elements_def)
  moreover have "wf_block (set_elements (elements_at buf (m_valueBegin b) tvs) b)"
    using v assms(1) by simp
  ultimately show ?thesis
    using v elements_at_elements by (intro that) (auto simp: set_elements_def)
qed

section \<open>Every successful parse\<close>

lemma parse_loop_cases:
  assumes "b < e" "e \<le> length buf"
  obtains (header) err where "parse_loop buf b e acc = (Some err, acc)"
  | (overflow) t where "parse_loop buf b e acc = (Some (SubElementOverflow t), [])"
  | (element) w rest t v where "bslice b e buf = w @ rest" "is_tlv w t v"
proof (cases "readType ContiguousIterator (bslice b e buf)")
  case (Inl err)
  then show ?thesis using assms by (intro header [of err]) (subst parse_loop.simps, simp)
next
  case (Inr p)
  then obtain t r1 where t: "readType ContiguousIterator (bslice b e buf) = Inr (t, r1)" by (cases p) auto
  show ?thesis
  proof (cases "readVarNumber ContiguousIterator r1")
    case (Inl err)
    then show ?thesis using assms t by (intro header [of err]) (subst parse_loop.simps, simp)
  next
    case (Inr p)
    then obtain len r2 where l: "readVarNumber ContiguousIterator r1 = Inr (len, r2)" by (cases p) auto
    have r2: "length r2 < e - b"
      using header_suffix(2) [OF t l] length_bslice_le [OF assms(2), of b] by simp
    show ?thesis
    proof (cases "unat len \<le> length r2")
      case True
      from header_tlv [OF t l this] show ?thesis
        by (intro element [of "take (length (bslice b e buf) - length r2 + unat len) (bslice b e buf)"
              "drop (length (bslice b e buf) - length r2 + unat len) (bslice b e buf)"]) (rule append_take_drop_id [symmetric])
    next
      case False
      then show ?thesis using assms t l r2
        by (intro overflow [of t]) (subst parse_loop.simps, simp add: Let_def)
    qed
  qed
qed

definition consecutive :: "buffer \<Rightarrow> block list \<Rightarrow> bool" where
  "consecutive buf els \<longleftrightarrow>
     list_all (\<lambda>x. wf_block x \<and> hasWire x \<and> m_buffer x = Some buf \<and> m_elements x = []) els"

lemma parse_loop_None:
  "parse_loop buf b e acc = (None, els) \<Longrightarrow> b \<le> e \<Longrightarrow> e \<le> length buf \<Longrightarrow>
     \<exists>els'. els = acc @ els' \<and> concat (map wire_bytes els') = bslice b e buf \<and> consecutive buf els'"
proof (induction "e - b" arbitrary: b acc rule: less_induct)
  case less
  show ?case
  proof (cases "b = e")
    case True
    then show ?thesis using less.prems by (auto simp: consecutive_def)
  next
    case False
    then have be: "b < e" using less.prems by simp
    from be less.prems(3) show ?thesis
    proof (cases rule: parse_loop_cases [where acc = acc])
      case (element w rest t v)
      let ?x = "Block_raw buf t b (b + length w) (b + length w - length v) (b + length w)"
      note s = bslice_prefix_len [OF element(1) less.prems(2,3)]
      note x = raw_bytes [OF element less.prems(2,3)]
      have "w \<noteq> []" using element(2) by (auto elim!: is_tlvE simp: readType_def)
      then have dec: "e - (b + length w) < e - b" using be by (simp add: diff_less_mono2)
      have pl: "parse_loop buf (b + length w) e (acc @ [?x]) = (None, els)"
        using less.prems parse_loop_tlv [OF element less.prems(2,3), of acc] by simp
      obtain els' where "els = (acc @ [?x]) @ els'"
          "concat (map wire_bytes els') = bslice (b + length w) e buf" "consecutive buf els'"
        using less.hyps [OF dec pl s(1) less.prems(3)] by blast
      then show ?thesis
        using x s element(1) by (intro exI [of _ "?x # els'"]) (simp add: consecutive_def)
    qed (use less.prems in auto)
  qed
qed

lemma parse_None:
  assumes "wf_block b" "m_elements b = []" "parse b = (None, b')"
  shows "concat (map wire_bytes (m_elements b')) = value_bytes b" "wf_block b'"
    "list_all hasWire (m_elements b')"
proof -
  have "concat (map wire_bytes (m_elements b')) = value_bytes b \<and> wf_block b' \<and>
      list_all hasWire (m_elements b')"
  proof (cases "value_size b = 0")
    case True
    then show ?thesis using assms value_size_length [of b] by (simp add: parse_def)
  next
    case False
    then obtain buf where buf: "m_buffer b = Some buf"
      by (auto simp: value_size_def hasValue_def split: if_splits)
    have bd: "m_valueBegin b \<le> m_valueEnd b" "m_valueEnd b \<le> length buf"
      using assms(1) buf by (cases b; auto)+
    obtain els where p: "parse_loop buf (m_valueBegin b) (m_valueEnd b) [] = (None, els)"
        "b' = set_elements els b"
      using assms(2,3) False buf by (auto simp: parse_def set_elements_def split: prod.splits)
    with parse_loop_None [OF p(1) bd] assms(1) show ?thesis
      by (auto simp: value_bytes_def buf consecutive_def list_all_iff) (simp_all add: set_elements_def)
  qed
  then show "concat (map wire_bytes (m_elements b')) = value_bytes b" "wf_block b'"
    "list_all hasWire (m_elements b')" by auto
qed

lemma wf_parse:
  assumes "wf_block b" "parse b = (None, b')"
  shows "wf_block b'"
  using assms parse_None(2) [OF assms(1) _ assms(2)] by (cases "m_elements b = []") auto

text \<open>
  What a failing call leaves: nothing if a length exceeds the parent, the elements read so far if a
  type or a length cannot be read.
\<close>

lemma parse_loop_Some:
  "parse_loop buf b e acc = (Some err, els) \<Longrightarrow> b \<le> e \<Longrightarrow> e \<le> length buf \<Longrightarrow>
     (els = [] \<and> (\<exists>t. err = SubElementOverflow t)) \<or>
     (\<exists>els' rest. els = acc @ els' \<and> concat (map wire_bytes els') @ rest = bslice b e buf \<and> rest \<noteq> [] \<and>
        consecutive buf els')"
proof (induction "e - b" arbitrary: b acc rule: less_induct)
  case less
  show ?case
  proof (cases "b = e")
    case True
    then show ?thesis using less.prems by simp
  next
    case False
    then have be: "b < e" using less.prems by simp
    from be less.prems(3) show ?thesis
    proof (cases rule: parse_loop_cases [where acc = acc])
      case (header err')
      then have "els = acc" using less.prems(1) by simp
      moreover have "bslice b e buf \<noteq> []" using be less.prems(3) by (simp add: bslice_empty_iff)
      ultimately show ?thesis
        by (intro disjI2 exI [of _ "[]"] exI [of _ "bslice b e buf"]) (simp add: consecutive_def)
    next
      case (overflow t)
      then show ?thesis using less.prems by auto
    next
      case (element w rest t v)
      let ?x = "Block_raw buf t b (b + length w) (b + length w - length v) (b + length w)"
      note s = bslice_prefix_len [OF element(1) less.prems(2,3)]
      note x = raw_bytes [OF element less.prems(2,3)]
      have "w \<noteq> []" using element(2) by (auto elim!: is_tlvE simp: readType_def)
      then have dec: "e - (b + length w) < e - b" using be by (simp add: diff_less_mono2)
      have pl: "parse_loop buf (b + length w) e (acc @ [?x]) = (Some err, els)"
        using less.prems parse_loop_tlv [OF element less.prems(2,3), of acc] by simp
      consider "els = []" "\<exists>t. err = SubElementOverflow t"
        | els' rest' where "els = (acc @ [?x]) @ els'"
          "concat (map wire_bytes els') @ rest' = bslice (b + length w) e buf" "rest' \<noteq> []"
          "consecutive buf els'"
        using less.hyps [OF dec pl s(1) less.prems(3)] by blast
      then show ?thesis
      proof cases
        case 2
        then show ?thesis
          using x s element(1)
          by (intro disjI2 exI [of _ "?x # els'"] exI [of _ rest']) (simp add: consecutive_def)
      qed auto
    qed
  qed
qed

end
