(* ===== verification/BlockEncode.thy ===== *)
theory BlockEncode
  imports BlockParse
begin

text \<open>
  \<open>Block::encode\<close>: the bytes a block stands for, and that the estimate, the encoder pass and the
  iterators stored in the block and in its sub-elements agree with them.
\<close>

fun block_tlv :: "block \<Rightarrow> byte list" where
  "block_tlv (Block mb b e vb ve t sz els) =
     tlv_bytes t (case mb of Some buf \<Rightarrow> bslice vb ve buf | None \<Rightarrow> concat (map block_tlv els))"

text \<open>The value \<open>encode\<close> writes: the stored one, or the encodings of the sub-elements.\<close>

definition block_val :: "block \<Rightarrow> byte list" where
  "block_val b =
     (case m_buffer b of
        Some buf \<Rightarrow> bslice (m_valueBegin b) (m_valueEnd b) buf
      | None \<Rightarrow> concat (map block_tlv (m_elements b)))"

lemma block_tlv_val: "block_tlv b = tlv_bytes (m_type b) (block_val b)"
  by (cases b) (simp add: block_val_def split: option.split)

section \<open>The estimate\<close>

lemma sizeOfVarNumber_mono: "m \<le> n \<Longrightarrow> sizeOfVarNumber m \<le> sizeOfVarNumber n"
  by (auto simp: sizeOfVarNumber_def)

lemma sizeOfVarNumber_nat_mono:
  "m \<le> n \<Longrightarrow> n < 2 ^ 64 \<Longrightarrow> sizeOfVarNumber (word_of_nat m) \<le> sizeOfVarNumber (word_of_nat n)"
  by (rule sizeOfVarNumber_mono) (simp add: word_le_nat_alt unat_word_of_length)

lemma encode_estimator_upper:
  "wf_block b \<Longrightarrow> encode_estimator b < 2 ^ 64 \<Longrightarrow> length (block_tlv b) \<le> encode_estimator b"
proof (induction b rule: encode_estimator.induct)
  case (1 mb b e vb ve type sz els)
  show ?case
  proof (cases mb)
    case (Some buf)
    then show ?thesis
      using 1(2) is_tlv_minimal [of "bslice b e buf" type "bslice vb ve buf"]
      by (auto simp: length_tlv_bytes length_bslice_le simp del: length_bslice split: if_splits)
  next
    case None
    let ?n = "sum_list (map encode_estimator (rev els))"
    have n: "?n < 2 ^ 64" using 1(3) None by (simp add: Let_def)
    have le: "length (block_tlv x) \<le> encode_estimator x" if "x \<in> set els" for x
    proof -
      have "encode_estimator x \<le> ?n" using that by (simp add: rev_map member_le_sum_list)
      with n show ?thesis using 1(1) [OF None, of x] 1(2) that by (simp add: list_all_iff)
    qed
    have "length (concat (map block_tlv els)) \<le> ?n"
      using sum_list_mono [OF le, of els "\<lambda>x. x"] by (simp add: length_concat comp_def flip: rev_map)
    with sizeOfVarNumber_nat_mono [OF this n] None show ?thesis
      by (simp add: length_tlv_bytes Let_def Estimator_prependVarNumber_def)
  qed
qed

section \<open>The encoder pass\<close>

lemma prependVarNumber_in_place:
  assumes "enc_inv e" "sizeOfVarNumber n \<le> e_begin e"
  shows "Encoder_prependVarNumber n e = (sizeOfVarNumber n, inPlace (varNumber_bytes n) e)"
proof -
  obtain e' where "prependVarNumber n (EncoderImpl e) = Inr (length (varNumber_bytes n), EncoderImpl e')"
      "e' = inPlace (varNumber_bytes n) e"
    using prepends_encoder [OF prepends_varNumber assms(1), of n] assms(2) by auto
  then show ?thesis
    by (cases "Encoder_prependVarNumber n e") (simp add: prependVarNumber_def)
qed

lemma prependRange_in_place':
  "length bs \<le> e_begin e \<Longrightarrow> Encoder_prependRange bs e = (length bs, inPlace bs e)"
  by (simp add: prependRange_in_place inPlace_def)

lemma inPlace_inv: "enc_inv e \<Longrightarrow> length bs \<le> e_begin e \<Longrightarrow> enc_inv (inPlace bs e)"
  by (auto simp: enc_inv_def inPlace_def)

lemma inPlace_begin [simp]: "e_begin (inPlace bs e) = e_begin e - length bs"
  "e_end (inPlace bs e) = e_end e"
  by (simp_all add: inPlace_def)

lemma prependHeader_in_place:
  assumes "enc_inv e" "length (tlv_bytes t v) \<le> e_begin e"
  defines "e1 \<equiv> inPlace v e"
  defines "e2 \<equiv> inPlace (varNumber_bytes (word_of_nat (length v))) e1"
  shows "Encoder_prependVarNumber (word_of_nat (length v)) e1 =
      (sizeOfVarNumber (word_of_nat (length v)), e2)"
    and "Encoder_prependVarNumber (ucast t) e2 = (sizeOfVarNumber (ucast t), inPlace (tlv_bytes t v) e)"
proof -
  have l: "sizeOfVarNumber (ucast t) + sizeOfVarNumber (word_of_nat (length v)) + length v \<le> e_begin e"
    using assms(2) by (simp add: length_tlv_bytes)
  have i1: "enc_inv e1" unfolding e1_def using l assms(1) by (intro inPlace_inv) auto
  then have i2: "enc_inv e2" unfolding e2_def using l by (intro inPlace_inv) (auto simp: e1_def)
  show "Encoder_prependVarNumber (word_of_nat (length v)) e1 =
      (sizeOfVarNumber (word_of_nat (length v)), e2)"
    using i1 l by (subst prependVarNumber_in_place) (auto simp: e1_def e2_def)
  have "e2 = inPlace (varNumber_bytes (word_of_nat (length v)) @ v) e"
    unfolding e2_def e1_def using assms(1) l by (intro inPlace_append) auto
  then have "inPlace (varNumber_bytes (ucast t)) e2 = inPlace (tlv_bytes t v) e"
    using assms(1) l by (simp add: inPlace_append tlv_bytes_def)
  then show "Encoder_prependVarNumber (ucast t) e2 = (sizeOfVarNumber (ucast t), inPlace (tlv_bytes t v) e)"
    using i2 l by (subst prependVarNumber_in_place) (auto simp: e2_def e1_def)
qed

text \<open>
  The blocks that a pass over \<open>enc\<close> leaves: positions counted from the front of the shared buffer.
\<close>

fun encoded :: "buffer \<Rightarrow> nat \<Rightarrow> block \<Rightarrow> block"
and encoded_elements :: "buffer \<Rightarrow> nat \<Rightarrow> block list \<Rightarrow> block list" where
  "encoded shared pos (Block mb b e vb ve t sz els) =
     (let v = (case mb of Some buf \<Rightarrow> bslice vb ve buf | None \<Rightarrow> concat (map block_tlv els));
          n = length (tlv_bytes t v)
      in Block (Some shared) (pos - n) pos (pos - length v) pos t n
           (case mb of Some buf \<Rightarrow> els | None \<Rightarrow> encoded_elements shared pos els))"
| "encoded_elements shared pos [] = []"
| "encoded_elements shared pos (x # xs) =
     encoded shared (pos - length (concat (map block_tlv xs))) x # encoded_elements shared pos xs"

lemma encode_buffer_in_place:
  "enc_inv enc \<Longrightarrow> length (block_tlv b) \<le> e_begin enc \<Longrightarrow>
     encode_buffer shared b enc =
       (length (block_tlv b), encoded shared (e_begin enc) b, inPlace (block_tlv b) enc)"
  and encode_elements_in_place:
  "enc_inv enc \<Longrightarrow> length (concat (map block_tlv els)) \<le> e_begin enc \<Longrightarrow>
     encode_elements shared els enc =
       (length (concat (map block_tlv els)), encoded_elements shared (e_begin enc) els,
        inPlace (concat (map block_tlv els)) enc)"
proof (induction shared b enc and shared els enc rule: encode_buffer_encode_elements.induct)
  case (1 shared mb b e vb ve type sz els enc)
  let ?v = "case mb of Some buf \<Rightarrow> bslice vb ve buf | None \<Rightarrow> concat (map block_tlv els)"
  have len: "length (tlv_bytes type ?v) \<le> e_begin enc" using 1(3) by simp
  then have v: "length ?v \<le> e_begin enc" by (simp only: length_tlv_bytes)
  have body: "(case mb of
        Some buf \<Rightarrow> (case Encoder_prependRange (bslice vb ve buf) enc of (l, enc1) \<Rightarrow> (l, els, enc1))
      | None \<Rightarrow> encode_elements shared els enc) =
      (length ?v, case mb of Some buf \<Rightarrow> els | None \<Rightarrow> encoded_elements shared (e_begin enc) els,
       inPlace ?v enc)"
    using 1(1,2) v by (cases mb) (simp_all add: prependRange_in_place' del: length_bslice)
  note h = prependHeader_in_place [OF 1(2) len]
  show ?case
    using h by (simp only: encode_buffer.simps body Let_def prod.case encoded.simps block_tlv.simps
        length_tlv_bytes inPlace_begin) (simp add: ac_simps)
next
  case (3 shared x xs enc)
  let ?c = "concat (map block_tlv xs)"
  have l: "length (block_tlv x) + length ?c \<le> e_begin enc" using 3(4) by simp
  have "encode_buffer shared x (inPlace ?c enc) =
      (length (block_tlv x), encoded shared (e_begin (inPlace ?c enc)) x,
       inPlace (block_tlv x) (inPlace ?c enc))"
    using 3 l by (intro 3(2) [OF 3(1) [symmetric]]) (auto intro: inPlace_inv)
  then show ?case
    using 3 l by (simp add: inPlace_append ac_simps)
qed (simp add: inPlace_def overwrite_def)

section \<open>What \<open>encode\<close> leaves in the block\<close>

lemma diff_length_neq: "xs \<noteq> [] \<Longrightarrow> length xs \<le> n \<Longrightarrow> n - length xs \<noteq> n"
  by (cases xs) auto

fun types_ok :: "block \<Rightarrow> bool" where
  "types_ok (Block mb b e vb ve t sz els) \<longleftrightarrow> t \<noteq> 0 \<and> (mb = None \<longrightarrow> list_all types_ok els)"

lemma encoded_block:
  "length (block_tlv b) \<le> pos \<Longrightarrow> pos \<le> length shared \<Longrightarrow> length shared < 2 ^ 64 \<Longrightarrow>
   bslice (pos - length (block_tlv b)) pos shared = block_tlv b \<Longrightarrow> wf_block b \<Longrightarrow> types_ok b \<Longrightarrow>
     wf_block (encoded shared pos b)"
  and encoded_elements_block:
  "length (concat (map block_tlv els)) \<le> pos \<Longrightarrow> pos \<le> length shared \<Longrightarrow> length shared < 2 ^ 64 \<Longrightarrow>
   bslice (pos - length (concat (map block_tlv els))) pos shared = concat (map block_tlv els) \<Longrightarrow>
   list_all wf_block els \<Longrightarrow> list_all types_ok els \<Longrightarrow>
     list_all wf_block (encoded_elements shared pos els)"
proof (induction shared pos b and shared pos els rule: encoded_encoded_elements.induct)
  case (1 shared pos mb b e vb ve t sz els)
  define v where "v = (case mb of Some buf \<Rightarrow> bslice vb ve buf | None \<Rightarrow> concat (map block_tlv els))"
  have w: "block_tlv (Block mb b e vb ve t sz els) = tlv_bytes t v" by (simp add: v_def)
  obtain h where h: "tlv_bytes t v = h @ v" by (simp add: tlv_bytes_def)
  have len: "length h + length v \<le> pos" using 1(2) by (simp only: w) (simp add: h)
  have sl: "bslice (pos - length (tlv_bytes t v)) pos shared = tlv_bytes t v"
    using 1(5) by (simp only: w)
  from sl have "bslice (pos - length (tlv_bytes t v) + length h) pos shared = v"
    using bslice_prefix_len(2) [of "pos - length (tlv_bytes t v)" pos shared h v] 1(3) h by simp
  moreover have "pos - length (tlv_bytes t v) + length h = pos - length v" using len h by simp
  ultimately have vs: "bslice (pos - length v) pos shared = v" by simp
  have "is_tlv (tlv_bytes t v) t v"
    using 1(4,3,7) len by (intro is_tlv_bytes) auto
  moreover have "list_all wf_block (case mb of Some buf \<Rightarrow> els | None \<Rightarrow> encoded_elements shared pos els)"
    using 1 vs len by (cases mb) (auto simp: v_def)
  moreover have "length (tlv_bytes t v) \<le> pos" using len by (simp add: h)
  moreover from this have "pos - length (tlv_bytes t v) \<noteq> pos" by (intro diff_length_neq) simp_all
  ultimately show ?case
    using sl vs 1(3) h by (simp only: encoded.simps Let_def flip: v_def) simp
next
  case (3 shared pos x xs)
  let ?c = "concat (map block_tlv xs)"
  have l: "length (block_tlv x) + length ?c \<le> pos" using 3(3) by simp
  have s: "bslice (pos - (length (block_tlv x) + length ?c)) pos shared = block_tlv x @ ?c"
    using 3(6) by simp
  note p = bslice_prefix_len [OF s _ 3(4)]
  have "pos - (length (block_tlv x) + length ?c) + length (block_tlv x) = pos - length ?c"
    using l by simp
  with p have "bslice (pos - length ?c) pos shared = ?c"
      "bslice (pos - length ?c - length (block_tlv x)) (pos - length ?c) shared = block_tlv x"
    by (auto simp: add.commute)
  then show ?case using 3 l by simp
qed simp

lemma Block_encode_eq:
  assumes "wf_block b" "\<not> hasWire b" "encode_estimator b < 2 ^ 64"
  defines "n \<equiv> encode_estimator b"
  shows "Block_encode b = encoded (replicate (n - length (block_tlv b)) 0 @ block_tlv b) n b"
proof -
  let ?enc = "mk_Encoder n 0"
  have len: "length (block_tlv b) \<le> n" unfolding n_def by (rule encode_estimator_upper [OF assms(1,3)])
  have b: "e_begin ?enc = n" by (simp add: mk_Encoder_def)
  have "encode_buffer s b ?enc = (length (block_tlv b), encoded s n b, inPlace (block_tlv b) ?enc)" for s
    using encode_buffer_in_place [OF mk_Encoder_inv, of b n 0 s] len b by simp
  moreover have "e_buffer (inPlace (block_tlv b) ?enc) =
      replicate (n - length (block_tlv b)) 0 @ block_tlv b"
    using len by (simp add: inPlace_def mk_Encoder_def overwrite_def)
  ultimately show ?thesis
    using assms(2) by (simp add: Block_encode_def Let_def flip: n_def)
qed

lemma encoded_sel:
  "m_buffer (encoded s pos b) = Some s" "m_type (encoded s pos b) = m_type b"
  "m_begin (encoded s pos b) = pos - length (block_tlv b)" "m_end (encoded s pos b) = pos"
  "m_valueBegin (encoded s pos b) = pos - length (block_val b)" "m_valueEnd (encoded s pos b) = pos"
  "m_size (encoded s pos b) = length (block_tlv b)"
  by (cases b; simp add: block_val_def Let_def split: option.split)+

lemma Block_encode_spec:
  assumes "wf_block b" "\<not> hasWire b" "encode_estimator b < 2 ^ 64" "types_ok b"
  shows "wf_block (Block_encode b)" "hasWire (Block_encode b)" "wire_bytes (Block_encode b) = block_tlv b"
    "value_bytes (Block_encode b) = block_val b" "m_type (Block_encode b) = m_type b"
    "m_size (Block_encode b) = length (block_tlv b)"
proof -
  let ?n = "encode_estimator b" and ?p = "encode_estimator b - length (block_tlv b)"
  let ?s = "replicate ?p (0::byte) @ block_tlv b"
  have len: "length (block_tlv b) \<le> ?n" by (rule encode_estimator_upper [OF assms(1,3)])
  have e: "Block_encode b = encoded ?s ?n b" by (rule Block_encode_eq [OF assms(1-3)])
  have s: "bslice ?p ?n ?s = block_tlv b" using len by (simp add: bslice_def)
  have ne: "block_tlv b \<noteq> []" by (simp add: block_tlv_val)
  show "wf_block (Block_encode b)"
    unfolding e using len s assms by (intro encoded_block) auto
  show "hasWire (Block_encode b)" using diff_length_neq [OF ne len] by (simp add: e hasWire_def encoded_sel)
  show "wire_bytes (Block_encode b) = block_tlv b" using s by (simp add: e wire_bytes_def encoded_sel)
  show "m_type (Block_encode b) = m_type b" "m_size (Block_encode b) = length (block_tlv b)"
    by (simp_all add: e encoded_sel)
  obtain h where h: "block_tlv b = h @ block_val b" by (simp add: block_tlv_val tlv_bytes_def)
  have "?n - length (block_val b) = length (replicate ?p (0::byte) @ h)" using len h by simp
  then show "value_bytes (Block_encode b) = block_val b"
    using len by (simp add: e value_bytes_def encoded_sel) (simp add: h bslice_def)
qed

end
