(* ===== verification/BlockHelpers.thy ===== *)
theory BlockHelpers
  imports BlockEncode
begin

text \<open>
  \<open>encoding/block-helpers\<close>: building and reading simple elements, and the nesting helpers, which are
  generic in a class with \<open>wireEncode(encoder)\<close>.  The locale \<open>wire_encodable\<close> is that concept
  (\<open>WireEncodableWithEncodingBuffer\<close>) with what the helpers rely on.  A \<open>double\<close> is its IEEE 754 bit
  pattern.
\<close>

section \<open>Integers, strings, bytes\<close>

definition makeBlock :: "enc_op \<Rightarrow> block result" where
  "makeBlock f = bindE (twoPass f) Block_fromEncoder"

definition prependNonNegativeIntegerBlock :: "uint32 \<Rightarrow> uint64 \<Rightarrow> enc_op" where
  "prependNonNegativeIntegerBlock type val = runSteps
     [\<lambda>_. prependNonNegativeInteger val,
      \<lambda>len. prependVarNumber (word_of_nat len),
      \<lambda>_. prependVarNumber (ucast type)]"

definition makeNonNegativeIntegerBlock :: "uint32 \<Rightarrow> uint64 \<Rightarrow> block result" where
  "makeNonNegativeIntegerBlock type val = makeBlock (prependNonNegativeIntegerBlock type val)"

definition readNonNegativeInteger_block :: "block \<Rightarrow> uint64 result" where
  "readNonNegativeInteger_block b =
     bindE (readNonNegativeInteger ContiguousIterator (value_size b) (value_bytes b)) (\<lambda>(n, _). Inr n)"

definition readNonNegativeIntegerAs :: "uint64 \<Rightarrow> block \<Rightarrow> uint64 result" where
  "readNonNegativeIntegerAs max_R b =
     bindE (readNonNegativeInteger_block b) (\<lambda>val.
       if val > max_R then Inl (ValueTooLarge (m_type b)) else Inr val)"

definition prependEmptyBlock :: "uint32 \<Rightarrow> enc_op" where
  "prependEmptyBlock type = runSteps
     [\<lambda>_. prependVarNumber 0,
      \<lambda>_. prependVarNumber (ucast type)]"

definition makeEmptyBlock :: "uint32 \<Rightarrow> block result" where
  "makeEmptyBlock type = makeBlock (prependEmptyBlock type)"

definition prependBinaryBlock :: "uint32 \<Rightarrow> byte list \<Rightarrow> enc_op" where
  "prependBinaryBlock type val = runSteps
     [\<lambda>_. prependBytes val,
      \<lambda>len. prependVarNumber (word_of_nat len),
      \<lambda>_. prependVarNumber (ucast type)]"

definition makeBinaryBlock :: "uint32 \<Rightarrow> byte list \<Rightarrow> block result" where
  "makeBinaryBlock type val = makeBlock (prependBinaryBlock type val)"

definition prependStringBlock :: "uint32 \<Rightarrow> string \<Rightarrow> enc_op" where
  "prependStringBlock type val = prependBinaryBlock type (bytes_of val)"

definition makeStringBlock :: "uint32 \<Rightarrow> string \<Rightarrow> block result" where
  "makeStringBlock type val = makeBinaryBlock type (bytes_of val)"

definition readString :: "block \<Rightarrow> string" where
  "readString b = string_of (value_bytes b)"

definition prependDoubleBlock :: "uint32 \<Rightarrow> uint64 \<Rightarrow> enc_op" where
  "prependDoubleBlock type val = prependBinaryBlock type (native_to_big64 val)"

definition makeDoubleBlock :: "uint32 \<Rightarrow> uint64 \<Rightarrow> block result" where
  "makeDoubleBlock type val = makeBlock (prependDoubleBlock type val)"

definition readDouble :: "block \<Rightarrow> uint64 result" where
  "readDouble b =
     (if value_size b \<noteq> 8 then Inl InvalidDoubleLength
      else Inr (word_of_nat (be_nat (value_bytes b))))"

text \<open>The two implementations of \<open>makeBinaryBlock(type, first, last)\<close>.\<close>

definition BinaryBlockFast :: "uint32 \<Rightarrow> byte list \<Rightarrow> block result" where
  "BinaryBlockFast type val =
     (let valueLength = length val;
          totalLength = valueLength + Estimator_prependVarNumber (word_of_nat valueLength)
            + Estimator_prependVarNumber (ucast type);
          e0 = mk_Encoder totalLength 0;
          e1 = snd (Encoder_prependRange val e0);
          e2 = snd (Encoder_prependVarNumber (word_of_nat valueLength) e1);
          e3 = snd (Encoder_prependVarNumber (ucast type) e2)
      in Block_fromEncoder e3)"

definition BinaryBlockSlow :: "uint32 \<Rightarrow> byte list \<Rightarrow> block result" where
  "BinaryBlockSlow type val =
     (let e0 = mk_Encoder 4 4;
          (valueLength, e1) = Encoder_appendRange val e0;
          e2 = snd (Encoder_prependVarNumber (word_of_nat valueLength) e1);
          e3 = snd (Encoder_prependVarNumber (ucast type) e2)
      in Block_fromEncoder e3)"

section \<open>Blocks and nested elements\<close>

definition prependBlock :: "block \<Rightarrow> enc_op" where
  "prependBlock b impl =
     (if hasWire b then bindE (wire_span b) (\<lambda>w. prependBytes w impl)
      else prependBinaryBlock (m_type b) (value_bytes b) impl)"

definition prependNestedBlock :: "('a \<Rightarrow> enc_op) \<Rightarrow> uint32 \<Rightarrow> 'a \<Rightarrow> enc_op" where
  "prependNestedBlock wireEncode type val = runSteps
     [\<lambda>_. wireEncode val,
      \<lambda>len. prependVarNumber (word_of_nat len),
      \<lambda>_. prependVarNumber (ucast type)]"

definition makeNestedBlock :: "('a \<Rightarrow> enc_op) \<Rightarrow> uint32 \<Rightarrow> 'a \<Rightarrow> block result" where
  "makeNestedBlock wireEncode type val = makeBlock (prependNestedBlock wireEncode type val)"

definition prependNestedBlocks :: "('a \<Rightarrow> enc_op) \<Rightarrow> uint32 \<Rightarrow> 'a list \<Rightarrow> enc_op" where
  "prependNestedBlocks wireEncode type vals = runSteps
     (map (\<lambda>x _. wireEncode x) (rev vals) @
      [\<lambda>len. prependVarNumber (word_of_nat len),
       \<lambda>_. prependVarNumber (ucast type)])"

definition makeNestedBlocks :: "('a \<Rightarrow> enc_op) \<Rightarrow> uint32 \<Rightarrow> 'a list \<Rightarrow> block result" where
  "makeNestedBlocks wireEncode type vals = makeBlock (prependNestedBlocks wireEncode type vals)"

section \<open>The block of a shortest encoding\<close>

definition tlv_block :: "uint32 \<Rightarrow> byte list \<Rightarrow> block" where
  "tlv_block t v =
     (let w = tlv_bytes t v
      in Block (Some w) 0 (length w) (length w - length v) (length w) t (length w) [])"

lemma tlv_block_sel [simp]:
  "m_type (tlv_block t v) = t" "value_bytes (tlv_block t v) = v"
  "wire_bytes (tlv_block t v) = tlv_bytes t v" "hasWire (tlv_block t v)"
  "m_elements (tlv_block t v) = []" "m_size (tlv_block t v) = length (tlv_bytes t v)"
  "m_buffer (tlv_block t v) = Some (tlv_bytes t v)"
proof -
  obtain h where h: "tlv_bytes t v = h @ v" by (simp add: tlv_bytes_def)
  show "value_bytes (tlv_block t v) = v"
    by (simp add: tlv_block_def value_bytes_def Let_def) (simp add: h bslice_def)
qed (simp_all add: tlv_block_def Let_def wire_bytes_def hasWire_def)

lemma view_tlv_block [simp]: "view (tlv_block t v) = (t, v)"
  by (simp add: view_def)

lemma value_size_bytes: "value_size (tlv_block t v) = length v"
  by (simp add: tlv_block_def value_size_def hasValue_def Let_def length_tlv_bytes)

lemma wf_tlv_block: "t \<noteq> 0 \<Longrightarrow> length v < 2 ^ 64 \<Longrightarrow> wf_block (tlv_block t v)"
proof -
  assume a: "t \<noteq> 0" "length v < 2 ^ 64"
  have "bslice (length (tlv_bytes t v) - length v) (length (tlv_bytes t v)) (tlv_bytes t v) = v"
    using tlv_block_sel(2) [of t v] by (simp add: tlv_block_def value_bytes_def Let_def)
  with is_tlv_bytes [OF a] show ?thesis by (simp add: tlv_block_def Let_def)
qed

lemma makeBlock_tlv:
  assumes "prepends f (tlv_bytes t v)" "t \<noteq> 0" "length v < 2 ^ 64"
  shows "makeBlock f = Inr (tlv_block t v)"
proof -
  have "is_tlv (bslice 0 (length (tlv_bytes t v)) (tlv_bytes t v)) t v"
    using is_tlv_bytes [OF assms(2,3)] by simp
  from Block_fromRange_tlv [OF this] show ?thesis
    by (simp add: makeBlock_def twoPass_prepends [OF assms(1)] Block_fromEncoder_def tlv_block_def Let_def)
qed

section \<open>What the helpers write\<close>

lemma prepends_tlv_steps:
  assumes "prependsFrom ss 0 v"
  shows "prepends (runSteps (ss @ [\<lambda>len. prependVarNumber (word_of_nat len),
    \<lambda>_. prependVarNumber (ucast t)])) (tlv_bytes t v)"
proof -
  have "prependsFrom [\<lambda>len. prependVarNumber (word_of_nat len), \<lambda>_. prependVarNumber (ucast t)]
      (0 + length v) (varNumber_bytes (ucast t) @ varNumber_bytes (word_of_nat (length v)))"
    using prependsFrom_Cons [OF prepends_varNumber prependsFrom_single [OF prepends_varNumber]]
    by simp
  from prepends_steps [OF prependsFrom_append [OF assms this]] show ?thesis
    by (simp add: tlv_bytes_def)
qed

lemma prepends_tlv_step:
  assumes "prepends f v"
  shows "prepends (runSteps [\<lambda>_. f, \<lambda>len. prependVarNumber (word_of_nat len),
    \<lambda>_. prependVarNumber (ucast t)]) (tlv_bytes t v)"
  using prepends_tlv_steps [OF prependsFrom_single [of "\<lambda>_. f"]] assms by simp

lemma prepends_nniBlock [intro]: "prepends (prependNonNegativeIntegerBlock t n) (tlv_bytes t (nni_bytes n))"
  unfolding prependNonNegativeIntegerBlock_def by (rule prepends_tlv_step) auto

lemma prepends_binaryBlock [intro]: "prepends (prependBinaryBlock t v) (tlv_bytes t v)"
  unfolding prependBinaryBlock_def by (rule prepends_tlv_step) auto

lemma prepends_stringBlock [intro]: "prepends (prependStringBlock t s) (tlv_bytes t (bytes_of s))"
  unfolding prependStringBlock_def by (rule prepends_binaryBlock)

lemma prepends_doubleBlock [intro]: "prepends (prependDoubleBlock t d) (tlv_bytes t (native_to_big64 d))"
  unfolding prependDoubleBlock_def by (rule prepends_binaryBlock)

lemma prepends_emptyBlock [intro]: "prepends (prependEmptyBlock t) (tlv_bytes t [])"
proof -
  have "prependsFrom [\<lambda>_. prependVarNumber 0, \<lambda>_. prependVarNumber (ucast t)] 0
      (varNumber_bytes (ucast t) @ varNumber_bytes 0)"
    by (rule prependsFrom_Cons [OF prepends_varNumber prependsFrom_single [OF prepends_varNumber]])
  from prepends_steps [OF this] show ?thesis
    by (simp add: prependEmptyBlock_def tlv_bytes_def)
qed

text \<open>A block that has its wire is copied; of the others only type and value are written.\<close>

definition block_out :: "block \<Rightarrow> byte list" where
  "block_out b = (if hasWire b then wire_bytes b else tlv_bytes (m_type b) (value_bytes b))"

lemma wire_span_wf: "wf_block b \<Longrightarrow> hasWire b \<Longrightarrow> wire_span b = Inr (wire_bytes b)"
proof -
  assume a: "wf_block b" "hasWire b"
  then have "isValid b" using is_tlv_type [OF wf_wire_tlv] by (simp add: isValid_def)
  with a show ?thesis
    by (cases b) (auto simp: wire_span_def Block_wire_def Block_size_def wire_bytes_def hasWire_def
        bslice_def)
qed

lemma prepends_block [intro]: "wf_block b \<Longrightarrow> prepends (prependBlock b) (block_out b)"
proof (cases "hasWire b")
  case True
  assume "wf_block b"
  with True have "prependBlock b impl = prependBytes (wire_bytes b) impl" for impl
    by (simp add: prependBlock_def wire_span_wf)
  then show ?thesis
    using True prepends_Inr_cong [of "prependBlock b" "prependBytes (wire_bytes b)"]
    by (simp add: block_out_def prepends_bytes)
next
  case False
  then have "prependBlock b impl = prependBinaryBlock (m_type b) (value_bytes b) impl" for impl
    by (simp add: prependBlock_def)
  then show ?thesis
    using False prepends_Inr_cong [of "prependBlock b" "prependBinaryBlock (m_type b) (value_bytes b)"]
    by (simp add: block_out_def prepends_binaryBlock)
qed

locale wire_encodable =
  fixes wireEncode :: "'a \<Rightarrow> enc_op"
    and out :: "'a \<Rightarrow> byte list"
    and encodable :: "'a \<Rightarrow> bool"
  assumes wireEncode_prepends: "encodable x \<Longrightarrow> prepends (wireEncode x) (out x)"
begin

lemma nested_prepends:
  "encodable x \<Longrightarrow> prepends (prependNestedBlock wireEncode t x) (tlv_bytes t (out x))"
  unfolding prependNestedBlock_def by (rule prepends_tlv_step) (rule wireEncode_prepends)

lemma nested_list_prepends:
  "list_all encodable xs \<Longrightarrow>
     prepends (prependNestedBlocks wireEncode t xs) (tlv_bytes t (concat (map out xs)))"
  unfolding prependNestedBlocks_def
  by (intro prepends_tlv_steps prependsFrom_rev_map wireEncode_prepends) (auto simp: list_all_iff)

lemma nested_make:
  "encodable x \<Longrightarrow> t \<noteq> 0 \<Longrightarrow> length (out x) < 2 ^ 64 \<Longrightarrow>
     makeNestedBlock wireEncode t x = Inr (tlv_block t (out x))"
  unfolding makeNestedBlock_def by (intro makeBlock_tlv nested_prepends)

lemma nested_list_make:
  "list_all encodable xs \<Longrightarrow> t \<noteq> 0 \<Longrightarrow> length (concat (map out xs)) < 2 ^ 64 \<Longrightarrow>
     makeNestedBlocks wireEncode t xs = Inr (tlv_block t (concat (map out xs)))"
  unfolding makeNestedBlocks_def by (intro makeBlock_tlv nested_list_prepends)

lemma two_pass:
  "encodable x \<Longrightarrow> twoPass (wireEncode x) =
     Inr \<lparr>e_buffer = out x, e_begin = 0, e_end = length (out x)\<rparr>"
  by (rule twoPass_prepends [OF wireEncode_prepends])

end

text \<open>A block is itself such a class.\<close>

interpretation blk: wire_encodable prependBlock block_out wf_block
  by unfold_locales (rule prepends_block)

section \<open>Reading back\<close>

lemma readNonNegativeInteger_tlv [simp]:
  "readNonNegativeInteger_block (tlv_block t (nni_bytes n)) = Inr n"
  using readNonNegativeInteger_bytes [of ContiguousIterator n "[]"]
  by (simp add: readNonNegativeInteger_block_def value_size_bytes)

lemma readNonNegativeInteger_view:
  "wf_block b \<Longrightarrow> readNonNegativeInteger_block b =
     bindE (readNonNegativeInteger ContiguousIterator (length (value_bytes b)) (value_bytes b)) (\<lambda>(n, _). Inr n)"
  by (simp add: readNonNegativeInteger_block_def value_size_length)

lemma readNonNegativeInteger_nni:
  "wf_block b \<Longrightarrow> value_bytes b = nni_bytes n \<Longrightarrow> readNonNegativeInteger_block b = Inr n"
  using readNonNegativeInteger_bytes [of ContiguousIterator n "[]"]
  by (simp add: readNonNegativeInteger_view)

lemma Block_fromEncoder_tlv:
  assumes "enc_inv e" "contents e = tlv_bytes t v" "t \<noteq> 0" "length v < 2 ^ 64"
  obtains b where "Block_fromEncoder e = Inr b" "wf_block b" "hasWire b" "view b = (t, v)"
    "wire_bytes b = tlv_bytes t v"
proof -
  have bd: "e_begin e \<le> e_end e" "e_end e \<le> length (e_buffer e)" using assms(1) by (simp_all add: enc_inv_def)
  have w: "bslice (e_begin e) (e_end e) (e_buffer e) = tlv_bytes t v" using assms(2) by (simp add: contents_def)
  then have tlv: "is_tlv (bslice (e_begin e) (e_end e) (e_buffer e)) t v"
    using is_tlv_bytes assms by simp
  obtain b where b: "Block_fromEncoder e = Inr b"
    using Block_fromRange_tlv [OF tlv bd, of True] by (simp add: Block_fromEncoder_def)
  note i = Block_fromRange_Inr [OF b [unfolded Block_fromEncoder_def] bd(1)]
  have "is_tlv (tlv_bytes t v) (m_type b) (value_bytes b)"
    using wf_wire_tlv [OF i(1,2)] i(3) w by simp
  then have "view b = (t, v)"
    using is_tlv_fun [OF is_tlv_bytes [OF assms(3,4)]] by (simp add: view_def)
  then show ?thesis using that b i w by simp
qed


end
