(* ===== verification/NameComponent.thy ===== *)
theory NameComponent
  imports BlockHelpers
begin

text \<open>
  \<open>name::Component\<close> (\<open>name-component.cpp\<close>) and the rules of the component types
  (\<open>impl/name-component-types.hpp\<close>).  A component is a \<open>block\<close>.  The virtual members of the classes
  derived from \<open>ComponentType\<close> are functions over the datatype \<open>componentType\<close>.  The naming
  conventions are global variables of the code: a record that is passed to what reads them.  The value
  of the environment variable \<open>NDN_NAME_ALT_URI\<close> is an argument.
\<close>

section \<open>Conventions and URI formats\<close>

datatype convention = MARKER | TYPED | EITHER

datatype uriFormat = CANONICAL | ALTERNATE | ENV_OR_CANONICAL | ENV_OR_ALTERNATE

abbreviation UriFormat_DEFAULT :: uriFormat where "UriFormat_DEFAULT \<equiv> ENV_OR_ALTERNATE"

abbreviation SEGMENT_MARKER :: byte where "SEGMENT_MARKER \<equiv> 0x00"
abbreviation SEGMENT_OFFSET_MARKER :: byte where "SEGMENT_OFFSET_MARKER \<equiv> 0xFB"
abbreviation VERSION_MARKER :: byte where "VERSION_MARKER \<equiv> 0xFD"
abbreviation TIMESTAMP_MARKER :: byte where "TIMESTAMP_MARKER \<equiv> 0xFC"
abbreviation SEQUENCE_NUMBER_MARKER :: byte where "SEQUENCE_NUMBER_MARKER \<equiv> 0xFE"

record conventions =
  g_conventionEncoding :: convention
  g_conventionDecoding :: convention

definition default_conventions :: conventions where
  "default_conventions = \<lparr>g_conventionEncoding = TYPED, g_conventionDecoding = EITHER\<rparr>"

primrec to_underlying :: "convention \<Rightarrow> nat" where
  "to_underlying MARKER = 1"
| "to_underlying TYPED = 2"
| "to_underlying EITHER = 3"

definition setConventionEncoding :: "convention \<Rightarrow> conventions \<Rightarrow> conventions result" where
  "setConventionEncoding c g =
     (case c of
        MARKER \<Rightarrow> Inr (g\<lparr>g_conventionEncoding := c\<rparr>)
      | TYPED \<Rightarrow> Inr (g\<lparr>g_conventionEncoding := c\<rparr>)
      | _ \<Rightarrow> Inl (InvalidArgument ''Unknown naming convention''))"

definition setConventionDecoding :: "convention \<Rightarrow> conventions \<Rightarrow> conventions" where
  "setConventionDecoding c g = g\<lparr>g_conventionDecoding := c\<rparr>"

definition canDecodeMarkerConvention :: "conventions \<Rightarrow> bool" where
  "canDecodeMarkerConvention g \<longleftrightarrow> odd (to_underlying (g_conventionDecoding g))"

definition canDecodeTypedConvention :: "conventions \<Rightarrow> bool" where
  "canDecodeTypedConvention g \<longleftrightarrow> odd (to_underlying (g_conventionDecoding g) div 2)"

definition wantAltUri :: "string option \<Rightarrow> uriFormat \<Rightarrow> bool" where
  "wantAltUri env format =
     (let wantAltEnv = (case env of
            None \<Rightarrow> None
          | Some s \<Rightarrow> if s \<noteq> [] \<and> hd s = CHR ''0'' then Some False
                      else if s \<noteq> [] \<and> hd s = CHR ''1'' then Some True else None)
      in if format = ENV_OR_CANONICAL then (case wantAltEnv of None \<Rightarrow> False | Some b \<Rightarrow> b)
         else if format = ENV_OR_ALTERNATE then (case wantAltEnv of None \<Rightarrow> True | Some b \<Rightarrow> b)
         else format = ALTERNATE)"

section \<open>Component types\<close>

datatype componentType =
    BaseType
  | GenericNameComponentType
  | Sha256ComponentType (ct_type: uint32) (ct_typeName: string) (ct_uriPrefix: string)
  | DecimalComponentType (ct_type: uint32) (ct_typeName: string) (ct_uriPrefix: string)

abbreviation DIGEST_SIZE :: nat where "DIGEST_SIZE \<equiv> 32"

definition getComponentType1 :: componentType where
  "getComponentType1 = Sha256ComponentType tlv_ImplicitSha256DigestComponent
     ''ImplicitSha256DigestComponent'' ''sha256digest''"

definition getComponentType2 :: componentType where
  "getComponentType2 = Sha256ComponentType tlv_ParametersSha256DigestComponent
     ''ParametersSha256DigestComponent'' ''params-sha256''"

definition componentTypeTable :: "(uint32 \<times> componentType) list" where
  "componentTypeTable =
     [(tlv_ImplicitSha256DigestComponent, getComponentType1),
      (tlv_ParametersSha256DigestComponent, getComponentType2),
      (tlv_GenericNameComponent, GenericNameComponentType),
      (tlv_SegmentNameComponent, DecimalComponentType tlv_SegmentNameComponent ''SegmentNameComponent'' ''seg''),
      (tlv_ByteOffsetNameComponent, DecimalComponentType tlv_ByteOffsetNameComponent ''ByteOffsetNameComponent'' ''off''),
      (tlv_VersionNameComponent, DecimalComponentType tlv_VersionNameComponent ''VersionNameComponent'' ''v''),
      (tlv_TimestampNameComponent, DecimalComponentType tlv_TimestampNameComponent ''TimestampNameComponent'' ''t''),
      (tlv_SequenceNumNameComponent, DecimalComponentType tlv_SequenceNumNameComponent ''SequenceNumNameComponent'' ''seq'')]"

definition ComponentTypeTable_get :: "uint32 \<Rightarrow> componentType" where
  "ComponentTypeTable_get type =
     (case map_of componentTypeTable type of None \<Rightarrow> BaseType | Some ct \<Rightarrow> ct)"

primrec getAltUriPrefix :: "componentType \<Rightarrow> string option" where
  "getAltUriPrefix BaseType = None"
| "getAltUriPrefix GenericNameComponentType = None"
| "getAltUriPrefix (Sha256ComponentType t n p) = Some p"
| "getAltUriPrefix (DecimalComponentType t n p) = Some p"

definition findByUriPrefix :: "string \<Rightarrow> componentType option" where
  "findByUriPrefix prfx =
     find (\<lambda>ct. getAltUriPrefix ct = Some prfx) (map snd componentTypeTable)"

definition Component_isNumber :: "block \<Rightarrow> bool" where
  "Component_isNumber c \<longleftrightarrow>
     value_size c = 1 \<or> value_size c = 2 \<or> value_size c = 4 \<or> value_size c = 8"

primrec ComponentType_check :: "componentType \<Rightarrow> block \<Rightarrow> unit result" where
  "ComponentType_check BaseType c = Inr ()"
| "ComponentType_check GenericNameComponentType c = Inr ()"
| "ComponentType_check (Sha256ComponentType t n p) c =
     (if value_size c \<noteq> DIGEST_SIZE
      then Inl (ComponentError (n @ '' TLV-LENGTH must be '' @ to_string DIGEST_SIZE)) else Inr ())"
| "ComponentType_check (DecimalComponentType t n p) c = Inr ()"

definition ensureValid :: "block \<Rightarrow> block result" where
  "ensureValid c =
     (if m_type c < tlv_NameComponentMin \<or> m_type c > tlv_NameComponentMax
      then Inl (ComponentError (''TLV-TYPE '' @ to_string (unat (m_type c)) @ '' is not a valid NameComponent''))
      else bindE (ComponentType_check (ComponentTypeTable_get (m_type c)) c) (\<lambda>_. Inr c))"

section \<open>Constructors\<close>

definition Component_ofType :: "uint32 \<Rightarrow> block result" where
  "Component_ofType type = ensureValid (Block_ofType type)"

definition Component_ofBlock :: "block \<Rightarrow> block result" where
  "Component_ofBlock wire = ensureValid wire"

definition Component_ofBuffer :: "uint32 \<Rightarrow> buffer \<Rightarrow> block result" where
  "Component_ofBuffer type buf = ensureValid (Block_ofValue type buf)"

definition Component_ofBytes :: "uint32 \<Rightarrow> byte list \<Rightarrow> block result" where
  "Component_ofBytes type val = bindE (makeBinaryBlock type val) ensureValid"

definition Component_ofString :: "string \<Rightarrow> block result" where
  "Component_ofString str = makeStringBlock tlv_GenericNameComponent str"

section \<open>URI\<close>

definition parseUriEscapedValue :: "uint32 \<Rightarrow> string \<Rightarrow> block result" where
  "parseUriEscapedValue type input =
     (let val = unescape input in
      if list_all (\<lambda>b. b = byte_of CHR ''.'') val then
        if length val < 3
        then Inl (ComponentError ''Illegal URI (name component cannot be . or ..)'')
        else Component_ofBytes type (take (length val - 3) val)
      else Component_ofBytes type val)"

definition Component_fromNumber :: "uint64 \<Rightarrow> uint32 \<Rightarrow> block result" where
  "Component_fromNumber number type = bindE (makeNonNegativeIntegerBlock type number) Component_ofBlock"

text \<open>\<open>fromHex\<close> where its result is used; that it always returns is \<open>fromHex_eq\<close>.\<close>

definition fromHexE :: "string \<Rightarrow> buffer result" where
  "fromHexE s = (case fromHex s of Some r \<Rightarrow> r | None \<Rightarrow> Inl (RuntimeError ''no result''))"

primrec parseAltUriValue :: "componentType \<Rightarrow> string \<Rightarrow> block result" where
  "parseAltUriValue BaseType input = Inl (LogicError ''unreachable'')"
| "parseAltUriValue GenericNameComponentType input = Inl (LogicError ''unreachable'')"
| "parseAltUriValue (Sha256ComponentType t n p) input =
     (case fromHexE input of
        Inl (StringHelperError _) \<Rightarrow>
          Inl (ComponentError (''Cannot convert to '' @ n @ '' (invalid hex encoding)''))
      | Inl err \<Rightarrow> Inl err
      | Inr v \<Rightarrow> Component_ofBuffer t v)"
| "parseAltUriValue (DecimalComponentType t n p) input =
     (case stoull input of
        Inl (InvalidArgument _) \<Rightarrow>
          Inl (ComponentError (''Cannot convert to '' @ n @ '' (invalid format)''))
      | Inl (OutOfRange _) \<Rightarrow>
          Inl (ComponentError (''Cannot convert to '' @ n @ '' (out of range)''))
      | Inl err \<Rightarrow> Inl err
      | Inr num \<Rightarrow>
          if to_string (unat num) \<noteq> input
          then Inl (ComponentError (''Cannot convert to '' @ n @ '' (invalid format)''))
          else Component_fromNumber num t)"

definition fromEscapedString :: "string \<Rightarrow> block result" where
  "fromEscapedString input =
     (let typePrefix = takeWhile (\<lambda>c. c \<noteq> CHR ''='') input in
      if typePrefix = input then parseUriEscapedValue tlv_GenericNameComponent input
      else
        let type = strtoul typePrefix;
            rest = drop (length typePrefix + 1) input
        in if ucast tlv_NameComponentMin \<le> type \<and> type \<le> ucast tlv_NameComponentMax \<and>
              to_string (unat type) = typePrefix
           then parseUriEscapedValue (ucast type) rest
           else case findByUriPrefix typePrefix of
                  None \<Rightarrow> Inl (ComponentError (''Unknown TLV-TYPE '' @ typePrefix @ '' in NameComponent URI''))
                | Some ct \<Rightarrow> parseAltUriValue ct rest)"

definition writeUriEscapedValue :: "block \<Rightarrow> string" where
  "writeUriEscapedValue c =
     (if list_all (\<lambda>x. x = byte_of CHR ''.'') (value_bytes c) then ''...'' else []) @
     escape (value_bytes c)"

definition ComponentType_writeUri_base :: "block \<Rightarrow> string" where
  "ComponentType_writeUri_base c =
     to_string (unat (m_type c)) @ ''='' @ writeUriEscapedValue c"

definition toNumber :: "block \<Rightarrow> uint64 result" where
  "toNumber c =
     (if \<not> Component_isNumber c
      then Inl (ComponentError ''Name component does not have NonNegativeInteger value'')
      else readNonNegativeInteger_block c)"

primrec writeUri :: "componentType \<Rightarrow> block \<Rightarrow> string result" where
  "writeUri BaseType c = Inr (ComponentType_writeUri_base c)"
| "writeUri GenericNameComponentType c = Inr (writeUriEscapedValue c)"
| "writeUri (Sha256ComponentType t n p) c = Inr (p @ ''='' @ hexText False (value_bytes c))"
| "writeUri (DecimalComponentType t n p) c =
     (if Component_isNumber c
      then bindE (toNumber c) (\<lambda>num. Inr (p @ ''='' @ to_string (unat num)))
      else Inr (ComponentType_writeUri_base c))"

definition Component_toUri :: "string option \<Rightarrow> uriFormat \<Rightarrow> block \<Rightarrow> string result" where
  "Component_toUri env format c =
     (if wantAltUri env format then writeUri (ComponentTypeTable_get (m_type c)) c
      else writeUri BaseType c)"

section \<open>Naming conventions\<close>

definition isNumberWithMarker :: "byte \<Rightarrow> block \<Rightarrow> bool" where
  "isNumberWithMarker marker c \<longleftrightarrow>
     (value_size c = 2 \<or> value_size c = 3 \<or> value_size c = 5 \<or> value_size c = 9) \<and>
     value_bytes c ! 0 = marker"

definition isVersion :: "conventions \<Rightarrow> block \<Rightarrow> bool" where
  "isVersion g c \<longleftrightarrow>
     (canDecodeMarkerConvention g \<and> m_type c = tlv_GenericNameComponent \<and> isNumberWithMarker VERSION_MARKER c) \<or>
     (canDecodeTypedConvention g \<and> m_type c = tlv_VersionNameComponent \<and> Component_isNumber c)"

definition isSegment :: "conventions \<Rightarrow> block \<Rightarrow> bool" where
  "isSegment g c \<longleftrightarrow>
     (canDecodeMarkerConvention g \<and> m_type c = tlv_GenericNameComponent \<and> isNumberWithMarker SEGMENT_MARKER c) \<or>
     (canDecodeTypedConvention g \<and> m_type c = tlv_SegmentNameComponent \<and> Component_isNumber c)"

definition isByteOffset :: "conventions \<Rightarrow> block \<Rightarrow> bool" where
  "isByteOffset g c \<longleftrightarrow>
     (canDecodeMarkerConvention g \<and> m_type c = tlv_GenericNameComponent \<and> isNumberWithMarker SEGMENT_OFFSET_MARKER c) \<or>
     (canDecodeTypedConvention g \<and> m_type c = tlv_ByteOffsetNameComponent \<and> Component_isNumber c)"

definition isTimestamp :: "conventions \<Rightarrow> block \<Rightarrow> bool" where
  "isTimestamp g c \<longleftrightarrow>
     (canDecodeMarkerConvention g \<and> m_type c = tlv_GenericNameComponent \<and> isNumberWithMarker TIMESTAMP_MARKER c) \<or>
     (canDecodeTypedConvention g \<and> m_type c = tlv_TimestampNameComponent \<and> Component_isNumber c)"

definition isSequenceNumber :: "conventions \<Rightarrow> block \<Rightarrow> bool" where
  "isSequenceNumber g c \<longleftrightarrow>
     (canDecodeMarkerConvention g \<and> m_type c = tlv_GenericNameComponent \<and> isNumberWithMarker SEQUENCE_NUMBER_MARKER c) \<or>
     (canDecodeTypedConvention g \<and> m_type c = tlv_SequenceNumNameComponent \<and> Component_isNumber c)"

definition toNumberWithMarker :: "byte \<Rightarrow> block \<Rightarrow> uint64 result" where
  "toNumberWithMarker marker c =
     (if \<not> isNumberWithMarker marker c
      then Inl (ComponentError
        ''Name component does not have the requested marker or the value is not a NonNegativeInteger'')
      else bindE (readNonNegativeInteger ContiguousIterator (value_size c - 1) (drop 1 (value_bytes c)))
             (\<lambda>(n, _). Inr n))"

definition toVersion :: "conventions \<Rightarrow> block \<Rightarrow> uint64 result" where
  "toVersion g c =
     (if canDecodeMarkerConvention g \<and> m_type c = tlv_GenericNameComponent
      then toNumberWithMarker VERSION_MARKER c
      else if canDecodeTypedConvention g \<and> m_type c = tlv_VersionNameComponent then toNumber c
      else Inl (ComponentError ''Not a Version component''))"

definition toSegment :: "conventions \<Rightarrow> block \<Rightarrow> uint64 result" where
  "toSegment g c =
     (if canDecodeMarkerConvention g \<and> m_type c = tlv_GenericNameComponent
      then toNumberWithMarker SEGMENT_MARKER c
      else if canDecodeTypedConvention g \<and> m_type c = tlv_SegmentNameComponent then toNumber c
      else Inl (ComponentError ''Not a Segment component''))"

definition toByteOffset :: "conventions \<Rightarrow> block \<Rightarrow> uint64 result" where
  "toByteOffset g c =
     (if canDecodeMarkerConvention g \<and> m_type c = tlv_GenericNameComponent
      then toNumberWithMarker SEGMENT_OFFSET_MARKER c
      else if canDecodeTypedConvention g \<and> m_type c = tlv_ByteOffsetNameComponent then toNumber c
      else Inl (ComponentError ''Not a ByteOffset component''))"

text \<open>
  A time point is its distance from the Unix epoch in nanoseconds, the clock's resolution;
  \<open>microseconds(value)\<close> reads the number as \<open>int64_t\<close>.
\<close>

type_synonym time_point = int

text \<open>Time points are unbounded here; the code's 64-bit count of nanoseconds overflows for numbers above \<open>2^63 / 1000\<close>.\<close>

definition toTimestamp :: "conventions \<Rightarrow> block \<Rightarrow> time_point result" where
  "toTimestamp g c =
     bindE
       (if canDecodeMarkerConvention g \<and> m_type c = tlv_GenericNameComponent
        then toNumberWithMarker TIMESTAMP_MARKER c
        else if canDecodeTypedConvention g \<and> m_type c = tlv_TimestampNameComponent then toNumber c
        else Inl (ComponentError ''Not a Timestamp component''))
       (\<lambda>val. Inr (sint val * 1000))"

definition toSequenceNumber :: "conventions \<Rightarrow> block \<Rightarrow> uint64 result" where
  "toSequenceNumber g c =
     (if canDecodeMarkerConvention g \<and> m_type c = tlv_GenericNameComponent
      then toNumberWithMarker SEQUENCE_NUMBER_MARKER c
      else if canDecodeTypedConvention g \<and> m_type c = tlv_SequenceNumNameComponent then toNumber c
      else Inl (ComponentError ''Not a SequenceNumber component''))"

definition fromNumberWithMarker :: "byte \<Rightarrow> uint64 \<Rightarrow> block result" where
  "fromNumberWithMarker marker number =
     (let valueLength = Estimator_prependNonNegativeInteger number + Estimator_prependBytes [marker];
          totalLength = valueLength + Estimator_prependVarNumber (word_of_nat valueLength)
            + Estimator_prependVarNumber (ucast tlv_GenericNameComponent);
          e0 = mk_Encoder totalLength 0;
          e1 = snd (Encoder_prependNonNegativeInteger number e0);
          e2 = snd (Encoder_prependBytes [marker] e1);
          e3 = snd (Encoder_prependVarNumber (word_of_nat valueLength) e2);
          e4 = snd (Encoder_prependVarNumber (ucast tlv_GenericNameComponent) e3)
      in bindE (Block_fromEncoder e4) Component_ofBlock)"

definition fromVersion :: "conventions \<Rightarrow> uint64 \<Rightarrow> block result" where
  "fromVersion g version =
     (if g_conventionEncoding g = MARKER then fromNumberWithMarker VERSION_MARKER version
      else Component_fromNumber version tlv_VersionNameComponent)"

definition fromSegment :: "conventions \<Rightarrow> uint64 \<Rightarrow> block result" where
  "fromSegment g segmentNo =
     (if g_conventionEncoding g = MARKER then fromNumberWithMarker SEGMENT_MARKER segmentNo
      else Component_fromNumber segmentNo tlv_SegmentNameComponent)"

definition fromByteOffset :: "conventions \<Rightarrow> uint64 \<Rightarrow> block result" where
  "fromByteOffset g offset =
     (if g_conventionEncoding g = MARKER then fromNumberWithMarker SEGMENT_OFFSET_MARKER offset
      else Component_fromNumber offset tlv_ByteOffsetNameComponent)"

text \<open>\<open>duration_cast\<close> rounds towards zero.\<close>

definition toMicroseconds :: "time_point \<Rightarrow> int" where
  "toMicroseconds t = (if t < 0 then - ((- t) div 1000) else t div 1000)"

definition fromTimestamp :: "conventions \<Rightarrow> time_point \<Rightarrow> block result" where
  "fromTimestamp g timePoint =
     (let val = word_of_int (toMicroseconds timePoint) in
      if g_conventionEncoding g = MARKER then fromNumberWithMarker TIMESTAMP_MARKER val
      else Component_fromNumber val tlv_TimestampNameComponent)"

definition fromSequenceNumber :: "conventions \<Rightarrow> uint64 \<Rightarrow> block result" where
  "fromSequenceNumber g seqNo =
     (if g_conventionEncoding g = MARKER then fromNumberWithMarker SEQUENCE_NUMBER_MARKER seqNo
      else Component_fromNumber seqNo tlv_SequenceNumNameComponent)"

section \<open>Digests\<close>

definition Component_isGeneric :: "block \<Rightarrow> bool" where
  "Component_isGeneric c \<longleftrightarrow> m_type c = tlv_GenericNameComponent"

primrec Sha256ComponentType_match :: "componentType \<Rightarrow> block \<Rightarrow> bool" where
  "Sha256ComponentType_match (Sha256ComponentType t n p) c \<longleftrightarrow> m_type c = t \<and> value_size c = DIGEST_SIZE"
| "Sha256ComponentType_match BaseType c \<longleftrightarrow> False"
| "Sha256ComponentType_match GenericNameComponentType c \<longleftrightarrow> False"
| "Sha256ComponentType_match (DecimalComponentType t n p) c \<longleftrightarrow> False"

definition isImplicitSha256Digest :: "block \<Rightarrow> bool" where
  "isImplicitSha256Digest c \<longleftrightarrow> Sha256ComponentType_match getComponentType1 c"

definition fromImplicitSha256Digest_buffer :: "buffer \<Rightarrow> block result" where
  "fromImplicitSha256Digest_buffer digest =
     Component_ofBlock (Block_ofValue (ct_type getComponentType1) digest)"

definition fromImplicitSha256Digest :: "byte list \<Rightarrow> block result" where
  "fromImplicitSha256Digest digest =
     bindE (makeBinaryBlock (ct_type getComponentType1) digest) Component_ofBlock"

definition isParametersSha256Digest :: "block \<Rightarrow> bool" where
  "isParametersSha256Digest c \<longleftrightarrow> Sha256ComponentType_match getComponentType2 c"

definition fromParametersSha256Digest_buffer :: "buffer \<Rightarrow> block result" where
  "fromParametersSha256Digest_buffer digest =
     Component_ofBlock (Block_ofValue (ct_type getComponentType2) digest)"

definition fromParametersSha256Digest :: "byte list \<Rightarrow> block result" where
  "fromParametersSha256Digest digest =
     bindE (makeBinaryBlock (ct_type getComponentType2) digest) Component_ofBlock"

section \<open>Comparison\<close>

text \<open>\<open>std::memcmp\<close> on two byte strings; of its result only the sign is defined.\<close>

fun memcmp :: "byte list \<Rightarrow> byte list \<Rightarrow> nat \<Rightarrow> int" where
  "memcmp (a # as) (b # bs) (Suc n) = (if a < b then -1 else if b < a then 1 else memcmp as bs n)"
| "memcmp _ _ _ = 0"

lemma memcmp_code [code]:
  "memcmp as bs n =
     (case (as, bs) of (a # as', b # bs') \<Rightarrow>
        if n = 0 then 0 else if a < b then -1 else if b < a then 1 else memcmp as' bs' (n - 1)
      | _ \<Rightarrow> 0)"
  by (cases as; cases bs; cases n) simp_all

definition Component_equals :: "block \<Rightarrow> block \<Rightarrow> bool" where
  "Component_equals a b \<longleftrightarrow>
     m_type a = m_type b \<and> value_size a = value_size b \<and> value_bytes a = value_bytes b"

text \<open>The subtractions are converted to \<open>int\<close>.\<close>

definition Component_compare :: "block \<Rightarrow> block \<Rightarrow> int" where
  "Component_compare a b =
     (if hasWire a \<and> hasWire b
      then memcmp (wire_bytes a) (wire_bytes b) (min (m_size a) (m_size b))
      else
        let cmpType = sint (m_type a - m_type b) in
        if cmpType \<noteq> 0 then cmpType
        else
          let cmpSize = sint (word_of_int (int (value_size a) - int (value_size b)) :: 32 word) in
          if cmpSize \<noteq> 0 then cmpSize
          else if value_size a = 0 then 0
          else memcmp (value_bytes a) (value_bytes b) (value_size a))"

section \<open>Successor\<close>

primrec successor_loop :: "byte list \<Rightarrow> nat \<Rightarrow> bool \<Rightarrow> encoder \<Rightarrow> nat \<times> bool \<times> encoder" where
  "successor_loop val 0 isOverflow enc = (0, isOverflow, enc)"
| "successor_loop val (Suc i) isOverflow enc =
     (if isOverflow
      then let newValue = val ! i + 1
           in successor_loop val i (newValue = 0) (snd (Encoder_prependBytes [newValue] enc))
      else (Suc i, isOverflow, enc))"

definition getSuccessorImpl :: "block \<Rightarrow> (bool \<times> block) result" where
  "getSuccessorImpl c =
     bindE (Block_size c) (\<lambda>sz.
       let e0 = mk_Encoder (sz + 9) 9;
           (i, isOverflow, e1) = successor_loop (value_bytes c) (value_size c) True e0;
           e2 = snd (Encoder_prependBytes (take i (value_bytes c)) e1);
           e3 = (if isOverflow then snd (Encoder_appendBytes [0] e2) else e2);
           e4 = snd (Encoder_prependVarNumber (word_of_nat (Encoder_size e3)) e3);
           e5 = snd (Encoder_prependVarNumber (ucast (m_type c)) e4)
       in bindE (Block_fromEncoder e5) (\<lambda>b. Inr (isOverflow, b)))"

definition ComponentType_getSuccessor :: "componentType \<Rightarrow> block \<Rightarrow> (bool \<times> block) result" where
  "ComponentType_getSuccessor ct c =
     (case ct of
        Sha256ComponentType t n p \<Rightarrow>
          bindE (getSuccessorImpl c) (\<lambda>(isExtended, successor).
            if isExtended then Inr (True, c)
            else bindE (Component_ofBlock successor) (\<lambda>s. Inr (False, s)))
      | _ \<Rightarrow>
          bindE (getSuccessorImpl c) (\<lambda>(_, successor).
            bindE (Component_ofBlock successor) (\<lambda>s. Inr (False, s))))"

definition getMinValue :: "componentType \<Rightarrow> byte list" where
  "getMinValue ct = (case ct of Sha256ComponentType t n p \<Rightarrow> replicate DIGEST_SIZE 0 | _ \<Rightarrow> [])"

definition Component_getSuccessor :: "block \<Rightarrow> block result" where
  "Component_getSuccessor c =
     bindE (ComponentType_getSuccessor (ComponentTypeTable_get (m_type c)) c) (\<lambda>(isOverflow, successor).
       if \<not> isOverflow then Inr successor
       else let type = m_type c + 1
            in Component_ofBytes type (getMinValue (ComponentTypeTable_get type)))"

section \<open>Wire format\<close>

definition Component_wireEncode_enc :: "block \<Rightarrow> enc_op" where
  "Component_wireEncode_enc c = runSteps
     ((if value_size c > 0 then [\<lambda>_. prependBytes (value_bytes c)] else []) @
      [\<lambda>_. prependVarNumber (word_of_nat (value_size c)),
       \<lambda>_. prependVarNumber (ucast (m_type c))])"

definition Component_wireEncode :: "block \<Rightarrow> block result" where
  "Component_wireEncode c =
     (if hasWire c then Inr c
      else bindE (makeBlock (Component_wireEncode_enc c)) Component_ofBlock)"

definition Component_wireDecode :: "block \<Rightarrow> block result" where
  "Component_wireDecode wire = Component_ofBlock wire"

end
