(* ===== verification/NameComponentOrder.thy ===== *)
theory NameComponentOrder
  imports NameComponent "HOL-Library.Product_Lexorder"
begin

text \<open>
  The canonical order of name components: by type, then by length, then by value.  \<open>compare\<close> decides
  it, whether it looks at the wires or at the fields, for components in shortest encoding;
  \<open>getSuccessor\<close> returns the next valid component in it.
\<close>

section \<open>The order\<close>

definition canonical_key :: "uint32 \<times> byte list \<Rightarrow> nat \<times> nat \<times> nat" where
  "canonical_key tv = (unat (fst tv), length (snd tv), be_nat (snd tv))"

definition cmp :: "'a::linorder \<Rightarrow> 'a \<Rightarrow> int" where
  "cmp a b = (if a < b then -1 else if b < a then 1 else 0)"

lemma canonical_key_inject: "canonical_key a = canonical_key b \<longleftrightarrow> a = b"
  by (cases a; cases b) (auto simp: canonical_key_def be_nat_inject word_unat_eq_iff)

lemma cmp_simps [simp]: "cmp a a = 0" "cmp a b = 0 \<longleftrightarrow> a = b" "cmp a b < 0 \<longleftrightarrow> a < b" "0 < cmp a b \<longleftrightarrow> b < a"
  by (auto simp: cmp_def)

lemma cmp_pair: "cmp (a, x) (b, y) = (if a = b then cmp x y else cmp a b)"
  by (auto simp: cmp_def)

section \<open>memcmp\<close>

lemma memcmp_append_same: "memcmp (p @ x) (p @ y) (length p + n) = memcmp x y n"
  by (induction p) auto

lemma memcmp_range: "memcmp a b n \<in> {-1, 0, 1}"
  by (induction a b n rule: memcmp.induct) auto

lemma memcmp_append_diff:
  "length p = length q \<Longrightarrow> p \<noteq> q \<Longrightarrow> length p \<le> n \<Longrightarrow> memcmp (p @ x) (q @ y) n = memcmp p q (length p)"
proof (induction p q arbitrary: n rule: list_induct2')
  case (4 a p b q)
  then obtain m where "n = Suc m" by (cases n) auto
  with 4 show ?case by (auto simp: not_less_iff_gr_or_eq)
qed auto

lemma be_nat_lead_less:
  assumes "x < y" "length xs = length ys"
  shows "be_nat (x # xs) < be_nat (y # ys)"
proof -
  have "be_nat (x # xs) < (unat x + 1) * 256 ^ length xs"
    using be_nat_less [of xs] by (simp add: be_nat_Cons)
  also have "\<dots> \<le> unat y * 256 ^ length xs"
    using assms(1) by (intro mult_right_mono) (simp_all add: word_less_nat_alt)
  finally show ?thesis using assms(2) by (simp add: be_nat_Cons)
qed

lemma memcmp_be: "length a = length b \<Longrightarrow> memcmp a b (length a) = cmp (be_nat a) (be_nat b)"
proof (induction a b rule: list_induct2)
  case (Cons x xs y ys)
  then show ?case
    using be_nat_lead_less [of x y xs ys] be_nat_lead_less [of y x ys xs]
    by (cases x y rule: linorder_cases) (auto simp: cmp_def be_nat_Cons)
qed simp

section \<open>Shortest encodings compare like numbers\<close>

definition lead :: "uint64 \<Rightarrow> nat" where
  "lead n = (if unat n < 253 then unat n else if unat n < 2 ^ 16 then 253
             else if unat n < 2 ^ 32 then 254 else 255)"

definition lead_extra :: "nat \<Rightarrow> nat" where
  "lead_extra l = (if l < 253 then 0 else if l = 253 then 2 else if l = 254 then 4 else 8)"

lemma varNumber_bytes_lead:
  "varNumber_bytes n = word_of_nat (lead n) # be_bytes (lead_extra (lead n)) (unat n)"
  by (cases rule: varNumber_bytes_cases [of n])
    (simp_all add: lead_def lead_extra_def del: be_bytes.simps, simp_all)

lemma lead_mono: "unat m \<le> unat n \<Longrightarrow> lead m \<le> lead n"
  by (auto simp: lead_def)

lemma lead_less: "lead n < 256"
  by (auto simp: lead_def)

lemma unat_lead: "unat (word_of_nat (lead n) :: byte) = lead n"
  using lead_less [of n] by (simp add: unat_of_nat)

lemma lead_same_cmp:
  assumes "lead m = lead n"
  shows "cmp (be_nat (be_bytes (lead_extra (lead m)) (unat m))) (be_nat (be_bytes (lead_extra (lead n)) (unat n)))
    = cmp (unat m) (unat n)"
proof (cases "lead n < 253")
  case True
  then have "unat m = unat n" using assms by (auto simp: lead_def split: if_splits)
  then show ?thesis using assms by simp
next
  case False
  have "unat n < 256 ^ lead_extra (lead n)" "unat m < 256 ^ lead_extra (lead m)"
    using False assms unat_uint64_less [of n] unat_uint64_less [of m]
    by (auto simp: lead_def lead_extra_def split: if_splits)
  then show ?thesis by (simp add: be_nat_be_bytes)
qed

lemma memcmp_varNumber_diff:
  assumes "m \<noteq> n" "min (sizeOfVarNumber m) (sizeOfVarNumber n) \<le> k"
  shows "memcmp (varNumber_bytes m @ x) (varNumber_bytes n @ y) k = cmp (unat m) (unat n)"
proof (cases "lead m = lead n")
  case True
  let ?b = "word_of_nat (lead n) :: byte" and ?r = "\<lambda>w. be_bytes (lead_extra (lead n)) (unat w)"
  have vb: "varNumber_bytes m = ?b # ?r m" "varNumber_bytes n = ?b # ?r n"
    using True by (simp_all add: varNumber_bytes_lead)
  have c: "cmp (be_nat (?r m)) (be_nat (?r n)) = cmp (unat m) (unat n)"
    using lead_same_cmp [OF True] True by simp
  have "unat m \<noteq> unat n" using assms(1) by (simp add: word_unat_eq_iff)
  then have ne: "?r m \<noteq> ?r n" using c by auto
  have "min (length (varNumber_bytes m)) (length (varNumber_bytes n)) \<le> k" using assms(2) by simp
  then obtain k' where k: "k = Suc k'" "lead_extra (lead n) \<le> k'" by (cases k) (auto simp: vb)
  have "memcmp (?r m @ x) (?r n @ y) k' = memcmp (?r m) (?r n) (length (?r m))"
    using ne k by (intro memcmp_append_diff) simp_all
  also have "\<dots> = cmp (unat m) (unat n)" using memcmp_be [of "?r m" "?r n"] c by simp
  finally show ?thesis by (simp add: vb k)
next
  case False
  obtain k' where k: "k = Suc k'" using assms(2) sizeOfVarNumber_pos [of m] sizeOfVarNumber_pos [of n] by (cases k) auto
  have "lead m < lead n \<and> unat m < unat n \<or> lead n < lead m \<and> unat n < unat m"
    using False lead_mono [of m n] lead_mono [of n m] by linarith
  then have "cmp (lead m) (lead n) = cmp (unat m) (unat n)"
    by (auto simp: cmp_def)
  then show ?thesis
    using False unat_lead [of m] unat_lead [of n]
    by (simp add: varNumber_bytes_lead k word_less_nat_alt cmp_def split: if_splits)
qed

lemma memcmp_prefix:
  "memcmp (p @ x) (p @ y) (min (length (p @ x)) (length (p @ y))) = memcmp x y (min (length x) (length y))"
  using memcmp_append_same [of p x y "min (length x) (length y)"] by simp

lemma memcmp_varNumber:
  "memcmp (varNumber_bytes m @ x) (varNumber_bytes n @ y)
     (min (length (varNumber_bytes m @ x)) (length (varNumber_bytes n @ y))) =
   (if m = n then memcmp x y (min (length x) (length y)) else cmp (unat m) (unat n))"
proof (cases "m = n")
  case True
  then show ?thesis by (simp only: memcmp_prefix if_True simp_thms)
next
  case False
  then show ?thesis by (subst memcmp_varNumber_diff) auto
qed

lemma memcmp_tlv:
  assumes "length v < 2 ^ 64" "length v' < 2 ^ 64"
  shows "memcmp (tlv_bytes t v) (tlv_bytes t' v') (min (length (tlv_bytes t v)) (length (tlv_bytes t' v')))
    = cmp (canonical_key (t, v)) (canonical_key (t', v'))"
proof -
  have t: "(ucast t :: uint64) = ucast t' \<longleftrightarrow> t = t'" by (metis ucast_uint32_back)
  have l: "(word_of_nat (length v) :: uint64) = word_of_nat (length v') \<longleftrightarrow> length v = length v'"
    using assms by (metis unat_word_of_length)
  have "cmp (unat t) (unat t') = 0 \<longleftrightarrow> t = t'" by (simp add: word_unat_eq_iff)
  then show ?thesis
    unfolding tlv_bytes_def memcmp_varNumber t l canonical_key_def fst_conv snd_conv cmp_pair
    using assms memcmp_be [of v v'] by (auto simp: unat_word_of_length unat_ucast_uint32 word_unat_eq_iff)
qed

section \<open>compare\<close>

definition component_ok :: "block \<Rightarrow> bool" where
  "component_ok c \<longleftrightarrow> wf_block c \<and> ensureValid c = Inr c \<and> length (value_bytes c) < 2 ^ 31"

definition shortest :: "block \<Rightarrow> bool" where
  "shortest c \<longleftrightarrow> (hasWire c \<longrightarrow> wire_bytes c = tlv_bytes (m_type c) (value_bytes c))"

lemma component_type_range:
  "ensureValid c = Inr c' \<Longrightarrow> 1 \<le> unat (m_type c) \<and> unat (m_type c) \<le> 65535"
  by (auto simp: ensureValid_def word_less_nat_alt word_le_nat_alt split: if_splits)

lemma sint_word_of_int32: "- (2 ^ 31) \<le> x \<Longrightarrow> x < 2 ^ 31 \<Longrightarrow> sint (word_of_int x :: 32 word) = x"
  by (simp add: signed_of_int signed_take_bit_int_eq_self)

lemma wire_size: "wf_block c \<Longrightarrow> hasWire c \<Longrightarrow> m_size c = length (wire_bytes c)"
  by (cases c) (auto simp: hasWire_def wire_bytes_def min_def)

lemma Component_compare_wire:
  assumes "component_ok a" "component_ok b" "shortest a" "shortest b" "hasWire a" "hasWire b"
  shows "Component_compare a b = cmp (canonical_key (view a)) (canonical_key (view b))"
  using assms memcmp_tlv [of "value_bytes a" "value_bytes b" "m_type a" "m_type b"]
  by (simp add: Component_compare_def component_ok_def shortest_def wire_size view_def)

definition compare_fields :: "nat \<Rightarrow> nat \<Rightarrow> byte list \<Rightarrow> byte list \<Rightarrow> int" where
  "compare_fields m n va vb =
     (let ct = int m - int n in
      if ct \<noteq> 0 then ct
      else let cs = int (length va) - int (length vb) in
        if cs \<noteq> 0 then cs else if length va = 0 then 0 else memcmp va vb (length va))"

lemma compare_fields_cmp:
  "cmp (compare_fields m n va vb) 0 = cmp (m, length va, be_nat va) (n, length vb, be_nat vb)"
proof (cases "m = n \<and> length va = length vb")
  case True
  then show ?thesis
    using memcmp_be [of va vb] by (auto simp: compare_fields_def cmp_pair) (auto simp: cmp_def)
next
  case False
  then show ?thesis by (auto simp: compare_fields_def cmp_pair) (auto simp: cmp_def)
qed

lemma Component_compare_fields:
  assumes "component_ok a" "component_ok b" "\<not> (hasWire a \<and> hasWire b)"
  shows "cmp (Component_compare a b) 0 = cmp (canonical_key (view a)) (canonical_key (view b))"
proof -
  let ?ta = "int (unat (m_type a))" and ?tb = "int (unat (m_type b))"
  have v: "value_size a = length (value_bytes a)" "value_size b = length (value_bytes b)"
    using assms by (simp_all add: component_ok_def value_size_length)
  have t: "sint (m_type a - m_type b) = ?ta - ?tb"
  proof -
    have "- (2 ^ 31) \<le> int m - int n \<and> int m - int n < 2 ^ 31" if "m \<le> 65535" "n \<le> 65535" for m n :: nat
      using that by simp
    then have "- (2 ^ 31) \<le> ?ta - ?tb" "?ta - ?tb < 2 ^ 31"
      using component_type_range [of a a] component_type_range [of b b] assms unfolding component_ok_def
      by blast+
    moreover have "m_type a - m_type b = word_of_int (?ta - ?tb)" by simp
    ultimately show ?thesis by (simp only: sint_word_of_int32)
  qed
  have s: "sint (word_of_int (int (value_size a) - int (value_size b)) :: 32 word) =
      int (value_size a) - int (value_size b)"
    using assms by (intro sint_word_of_int32) (auto simp: component_ok_def v)
  have "Component_compare a b = compare_fields (unat (m_type a)) (unat (m_type b)) (value_bytes a) (value_bytes b)"
    unfolding Component_compare_def t s compare_fields_def by (simp only: assms(3) if_False v)
  then show ?thesis
    by (simp only: compare_fields_cmp canonical_key_def view_def fst_conv snd_conv)
qed

lemma Component_compare_canonical:
  assumes "component_ok a" "component_ok b" "shortest a" "shortest b"
  shows "cmp (Component_compare a b) 0 = cmp (canonical_key (view a)) (canonical_key (view b))"
  using Component_compare_wire [OF assms] Component_compare_fields [OF assms(1,2)]
  by (cases "hasWire a \<and> hasWire b") (auto simp: cmp_def)

lemma Component_equals_view:
  "wf_block a \<Longrightarrow> wf_block b \<Longrightarrow> Component_equals a b \<longleftrightarrow> view a = view b"
  by (auto simp: Component_equals_def view_def value_size_length)

end
