(* ===== verification/NameComponentSuccessor.thy ===== *)
theory NameComponentSuccessor
  imports NameComponentOrder
begin

text \<open>
  \<open>Component::getSuccessor\<close>: the carry loop increments the value as a big-endian number, and the
  component it returns is the least valid one above its argument in canonical order.
\<close>

section \<open>Valid types and lengths\<close>

definition valid_tv :: "uint32 \<times> byte list \<Rightarrow> bool" where
  "valid_tv tv \<longleftrightarrow> 1 \<le> unat (fst tv) \<and> unat (fst tv) \<le> 65535 \<and>
     (fst tv = 1 \<or> fst tv = 2 \<longrightarrow> length (snd tv) = DIGEST_SIZE)"

lemma table_1: "ComponentTypeTable_get 1 = getComponentType1"
  by (simp add: ComponentTypeTable_get_def componentTypeTable_def)

lemma table_2: "ComponentTypeTable_get 2 = getComponentType2"
  by (simp add: ComponentTypeTable_get_def componentTypeTable_def)

lemma table_other:
  "t \<noteq> 1 \<Longrightarrow> t \<noteq> 2 \<Longrightarrow> \<not> is_Sha256ComponentType (ComponentTypeTable_get t)"
  by (simp add: ComponentTypeTable_get_def componentTypeTable_def)

lemma check_not_Sha256: "\<not> is_Sha256ComponentType ct \<Longrightarrow> ComponentType_check ct c = Inr ()"
  by (cases ct) auto

lemma ensureValid_iff:
  assumes "wf_block c"
  shows "ensureValid c = Inr c' \<longleftrightarrow> c' = c \<and> valid_tv (view c)"
proof -
  have ty: "m_type c < 1 \<or> 65535 < m_type c \<longleftrightarrow> \<not> (1 \<le> unat (m_type c) \<and> unat (m_type c) \<le> 65535)"
    by (auto simp: word_less_nat_alt not_le)
  consider "m_type c = 1" | "m_type c = 2" | "m_type c \<noteq> 1" "m_type c \<noteq> 2" by blast
  then show ?thesis
  proof cases
    case 3
    then show ?thesis
      unfolding ensureValid_def ty
      by (auto simp: check_not_Sha256 table_other valid_tv_def view_def)
  qed (unfold ensureValid_def ty, auto simp: table_1 table_2 getComponentType1_def getComponentType2_def
      valid_tv_def view_def value_size_length [OF assms])
qed

section \<open>The carry loop\<close>

primrec inc :: "byte list \<Rightarrow> bool \<times> byte list" where
  "inc [] = (True, [])"
| "inc (x # xs) =
     (case inc xs of (c, ys) \<Rightarrow> if c then (x + 1 = 0, (x + 1) # ys) else (False, x # ys))"

lemma inc_snoc:
  "inc (xs @ [x]) =
     (if x + 1 = 0 then (fst (inc xs), snd (inc xs) @ [0]) else (False, xs @ [x + 1]))"
  by (induction xs) (auto split: prod.splits)

lemma length_inc [simp]: "length (snd (inc xs)) = length xs"
  by (induction xs) (auto split: prod.splits)

lemma byte_inc_cases:
  obtains (wrap) "x + 1 = (0 :: byte)" "unat x = 255" | (step) "x + 1 \<noteq> (0 :: byte)" "unat (x + 1) = unat x + 1"
proof -
  have u: "unat (x + 1) = (unat x + 1) mod 256" by (simp add: unat_word_ariths)
  show thesis
  proof (cases "unat x = 255")
    case True
    then have "unat (x + 1) = 0" using u by simp
    then have "x + 1 = 0" by (simp only: word_unat_eq_iff unsigned_0)
    then show ?thesis using True by (rule wrap)
  next
    case False
    then have s: "unat (x + 1) = unat x + 1" using u unat_byte_less [of x] by simp
    then have "x + 1 \<noteq> 0" by (metis Zero_not_Suc add.commute plus_1_eq_Suc unsigned_0)
    then show ?thesis using s by (rule step)
  qed
qed

lemma be_nat_inc:
  "be_nat (snd (inc xs)) + (if fst (inc xs) then 256 ^ length xs else 0) = be_nat xs + 1"
proof (induction xs)
  case (Cons x xs)
  obtain c ys where i: "inc xs = (c, ys)" by (cases "inc xs")
  have l: "length ys = length xs" using length_inc [of xs] i by simp
  show ?case
    using Cons i l by (cases x rule: byte_inc_cases) (auto simp: be_nat_Cons algebra_simps)
qed simp

section \<open>What the encoder writes\<close>

lemma successor_loop_spec:
  assumes "enc_inv e" "i \<le> length val" "successor_loop val i ov e = (j, ov', e')"
  shows "enc_inv e' \<and> take j val @ contents e' =
      (if ov then snd (inc (take i val)) else take i val) @ contents e \<and>
    (ov' \<longleftrightarrow> ov \<and> fst (inc (take i val)))"
  using assms
proof (induction i arbitrary: ov e)
  case (Suc i)
  show ?case
  proof (cases ov)
    case True
    have "take (Suc i) val = take i val @ [val ! i]" using Suc.prems(2) by (simp add: take_Suc_conv_app_nth)
    then show ?thesis
      using True Suc.prems Suc.IH [of "snd (Encoder_prependBytes [val ! i + 1] e)" "val ! i + 1 = 0"]
      by (auto simp: Let_def Encoder_prependBytes_spec inc_snoc split: if_splits)
  next
    case False
    then show ?thesis using Suc.prems by auto
  qed
qed auto

definition successor_value :: "byte list \<Rightarrow> byte list" where
  "successor_value v = (if fst (inc v) then snd (inc v) @ [0] else snd (inc v))"

lemma getSuccessorImpl_spec:
  assumes "wf_block c" "m_type c \<noteq> 0" "Suc (length (value_bytes c)) < 2 ^ 64"
  obtains b where "getSuccessorImpl c = Inr (fst (inc (value_bytes c)), b)" "wf_block b" "hasWire b"
    "view b = (m_type c, successor_value (value_bytes c))"
    "wire_bytes b = tlv_bytes (m_type c) (successor_value (value_bytes c))"
proof -
  let ?v = "value_bytes c"
  define e0 where "e0 = mk_Encoder (m_size c + 9) 9"
  obtain i ov e1 where l: "successor_loop ?v (value_size c) True e0 = (i, ov, e1)"
    by (cases "successor_loop ?v (value_size c) True e0") auto
  have e1: "enc_inv e1" "take i ?v @ contents e1 = snd (inc ?v)" "ov = fst (inc ?v)"
    using successor_loop_spec [OF _ _ l] value_size_length [OF assms(1)] by (auto simp: e0_def)
  define e2 where "e2 = snd (Encoder_prependBytes (take i ?v) e1)"
  define e3 where "e3 = (if ov then snd (Encoder_appendBytes [0] e2) else e2)"
  have e3: "enc_inv e3" "contents e3 = successor_value ?v"
    using e1 by (auto simp: e3_def e2_def Encoder_prependBytes_spec Encoder_appendBytes_spec successor_value_def)
  define e4 where "e4 = snd (Encoder_prependVarNumber (word_of_nat (Encoder_size e3)) e3)"
  define e5 where "e5 = snd (Encoder_prependVarNumber (ucast (m_type c)) e4)"
  have "Encoder_size e3 = length (successor_value ?v)" using length_contents [OF e3(1)] e3(2) by simp
  then have e5: "enc_inv e5" "contents e5 = tlv_bytes (m_type c) (successor_value ?v)"
    using e3 by (simp_all add: e5_def e4_def Encoder_prependVarNumber_spec tlv_bytes_def)
  have "length (successor_value ?v) < 2 ^ 64" using assms(3) by (simp add: successor_value_def)
  then obtain b where b: "Block_fromEncoder e5 = Inr b" "wf_block b" "hasWire b"
      "view b = (m_type c, successor_value ?v)" "wire_bytes b = tlv_bytes (m_type c) (successor_value ?v)"
    using Block_fromEncoder_tlv [OF e5 assms(2)] by blast
  have "getSuccessorImpl c = bindE (Block_fromEncoder e5) (\<lambda>b. Inr (ov, b))"
    unfolding e5_def e4_def e3_def e2_def using assms(2)
    by (simp add: getSuccessorImpl_def Block_size_def isValid_def Let_def l [unfolded e0_def])
  then have "getSuccessorImpl c = Inr (fst (inc ?v), b)" by (simp add: b(1) e1(3))
  with b show ?thesis by (intro that)
qed

section \<open>The least component above\<close>

text \<open>The next valid type and value in canonical order.\<close>

definition successor_tv :: "uint32 \<times> byte list \<Rightarrow> uint32 \<times> byte list" where
  "successor_tv tv =
     (let (t, v) = tv in
      if (t = 1 \<or> t = 2) \<and> fst (inc v)
      then (t + 1, if t = 1 then replicate DIGEST_SIZE 0 else [])
      else (t, successor_value v))"

lemma successor_tv_valid: "valid_tv tv \<Longrightarrow> valid_tv (successor_tv tv)"
  by (cases tv) (auto simp: valid_tv_def successor_tv_def successor_value_def)

lemma be_nat_replicate_0: "be_nat (replicate n 0) = 0"
  by (induction n) (simp_all add: be_nat_Cons)

lemma inc_key:
  "\<not> fst (inc v) \<Longrightarrow> length (successor_value v) = length v \<and> be_nat (successor_value v) = be_nat v + 1"
  "fst (inc v) \<Longrightarrow> length (successor_value v) = length v + 1 \<and> be_nat (successor_value v) = 0 \<and>
     be_nat v + 1 = 256 ^ length v"
proof -
  show "\<not> fst (inc v) \<Longrightarrow> length (successor_value v) = length v \<and> be_nat (successor_value v) = be_nat v + 1"
    using be_nat_inc [of v] by (simp add: successor_value_def)
  assume f: "fst (inc v)"
  then have "be_nat (snd (inc v)) + 256 ^ length v = be_nat v + 1" using be_nat_inc [of v] by simp
  then have "be_nat (snd (inc v)) = 0 \<and> be_nat v + 1 = 256 ^ length v" using be_nat_less [of v] by linarith
  with f show "length (successor_value v) = length v + 1 \<and> be_nat (successor_value v) = 0 \<and>
     be_nat v + 1 = 256 ^ length v"
    by (simp add: successor_value_def be_nat_snoc)
qed

lemma successor_tv_greater:
  assumes "valid_tv tv"
  shows "canonical_key tv < canonical_key (successor_tv tv)"
proof (cases tv)
  case (Pair t v)
  then have "unat (t + 1) = unat t + 1" using assms by (simp add: valid_tv_def unat_word_ariths)
  then show ?thesis
    using Pair inc_key [of v]
    by (cases "fst (inc v)") (auto simp: successor_tv_def canonical_key_def Let_def)
qed

lemma successor_tv_least:
  assumes "valid_tv tv" "valid_tv d" "canonical_key tv < canonical_key d"
  shows "canonical_key (successor_tv tv) \<le> canonical_key d"
proof (cases tv; cases d)
  fix t v t' v'
  assume tv: "tv = (t, v)" and d: "d = (t', v')"
  have lt: "unat t < unat t' \<or> unat t = unat t' \<and> (length v < length v' \<or> length v = length v' \<and> be_nat v < be_nat v')"
    using assms(3) by (auto simp: tv d canonical_key_def)
  show ?thesis
  proof (cases "(t = 1 \<or> t = 2) \<and> fst (inc v)")
    case True
    have n: "unat (t + 1) = unat t + 1" using assms(1) by (simp add: tv valid_tv_def unat_word_ariths)
    have "be_nat v' < 256 ^ length v'" by (rule be_nat_less)
    moreover have "length v' = length v" if "unat t' = unat t"
      using that True assms by (auto simp: tv d valid_tv_def word_unat_eq_iff)
    ultimately have "unat t < unat t'" using lt True inc_key(2) [of v] by auto
    moreover have "length v' = DIGEST_SIZE" if "unat t' = 2"
      using that assms(2) by (auto simp: d valid_tv_def word_unat_eq_iff)
    ultimately show ?thesis
      using True n by (auto simp: tv d successor_tv_def canonical_key_def be_nat_replicate_0)
  next
    case False
    then show ?thesis
      using lt inc_key [of v] be_nat_less [of v']
      by (cases "fst (inc v)") (auto simp: tv d successor_tv_def canonical_key_def)
  qed
qed

lemma Component_ofBlock_valid: "wf_block b \<Longrightarrow> valid_tv (view b) \<Longrightarrow> Component_ofBlock b = Inr b"
  by (simp add: Component_ofBlock_def ensureValid_iff)

lemma Component_ofBytes_valid:
  assumes "valid_tv (t, v)" "length v < 2 ^ 64"
  shows "Component_ofBytes t v = Inr (tlv_block t v)"
proof -
  have t: "t \<noteq> 0" using assms(1) by (auto simp: valid_tv_def)
  then have "makeBinaryBlock t v = Inr (tlv_block t v)"
    unfolding makeBinaryBlock_def using assms(2) by (intro makeBlock_tlv prepends_binaryBlock)
  then show ?thesis
    using assms wf_tlv_block [OF t assms(2)] by (simp add: Component_ofBytes_def ensureValid_iff)
qed

lemma getMinValue_1_2: "getMinValue (ComponentTypeTable_get 2) = replicate DIGEST_SIZE 0"
  "getMinValue (ComponentTypeTable_get 3) = []"
  by (simp_all add: getMinValue_def table_2 getComponentType2_def)
    (simp add: ComponentTypeTable_get_def componentTypeTable_def)

lemma ComponentType_getSuccessor_spec:
  assumes "wf_block c" "valid_tv (view c)" "Suc (length (value_bytes c)) < 2 ^ 64"
    and b: "getSuccessorImpl c = Inr (ov, b)" "wf_block b" "view b = (m_type c, successor_value (value_bytes c))"
    and ov: "ov = fst (inc (value_bytes c))"
  shows "ComponentType_getSuccessor (ComponentTypeTable_get (m_type c)) c =
    (if (m_type c = 1 \<or> m_type c = 2) \<and> ov then Inr (True, c) else Inr (False, b))"
proof (cases "m_type c = 1 \<or> m_type c = 2")
  case True
  have "Component_ofBlock b = Inr b" if "\<not> ov"
    using that assms b inc_key(1) [of "value_bytes c"] by (intro Component_ofBlock_valid) (auto simp: valid_tv_def)
  then show ?thesis
    using True b(1) by (auto simp: ComponentType_getSuccessor_def table_1 table_2
        getComponentType1_def getComponentType2_def)
next
  case False
  have "Component_ofBlock b = Inr b"
    using False assms b by (intro Component_ofBlock_valid) (auto simp: valid_tv_def)
  then show ?thesis
    using False b(1) table_other [of "m_type c"]
    by (auto simp: ComponentType_getSuccessor_def split: componentType.split)
qed

lemma Component_getSuccessor_spec:
  assumes "wf_block c" "valid_tv (view c)" "Suc (length (value_bytes c)) < 2 ^ 64"
  obtains s where "Component_getSuccessor c = Inr s" "wf_block s" "hasWire s"
    "view s = successor_tv (view c)" "wire_bytes s = tlv_bytes (m_type s) (value_bytes s)"
proof -
  let ?v = "value_bytes c"
  have t: "m_type c \<noteq> 0" using assms(2) by (auto simp: valid_tv_def)
  obtain b where b: "getSuccessorImpl c = Inr (fst (inc ?v), b)" "wf_block b" "hasWire b"
      "view b = (m_type c, successor_value ?v)" "wire_bytes b = tlv_bytes (m_type c) (successor_value ?v)"
    using getSuccessorImpl_spec [OF assms(1) t assms(3)] by blast
  note g = ComponentType_getSuccessor_spec [OF assms b(1,2,4) refl]
  show thesis
  proof (cases "(m_type c = 1 \<or> m_type c = 2) \<and> fst (inc ?v)")
    case True
    let ?s = "tlv_block (m_type c + 1) (if m_type c = 1 then replicate DIGEST_SIZE 0 else [])"
    have "valid_tv (m_type c + 1, if m_type c = 1 then replicate DIGEST_SIZE 0 else [])"
      using True by (auto simp: valid_tv_def)
    then have "Component_getSuccessor c = Inr ?s"
      using True g by (auto simp: Component_getSuccessor_def Component_ofBytes_valid getMinValue_1_2)
    moreover have "wf_block ?s" using True by (intro wf_tlv_block) auto
    ultimately show ?thesis
      using True by (intro that [of ?s]) (auto simp: successor_tv_def view_def)
  next
    case False
    then have "Component_getSuccessor c = Inr b"
      by (simp only: Component_getSuccessor_def g if_False) simp
    then show ?thesis
      using False b by (intro that [of b]) (auto simp: successor_tv_def view_def)
  qed
qed

end
