(* ===== verification/NameComponentUri.thy ===== *)
theory NameComponentUri
  imports NameComponentSuccessor
begin

text \<open>
  The URI representation of components read back by \<open>fromEscapedString\<close>, the naming conventions read
  back by the corresponding \<open>to...\<close> member, and \<open>wireEncode\<close> of components.
\<close>

section \<open>Decimal numbers\<close>

lemma byte_of_char_of: "n < 256 \<Longrightarrow> byte_of (char_of n) = word_of_nat n"
proof -
  assume n: "n < 256"
  then have "char_of_byte (word_of_nat n) = char_of n" by (simp add: char_of_byte_def unat_of_nat)
  then show ?thesis by (metis byte_of_char_of_byte)
qed

lemma unat_byte_of_digit: "d < 10 \<Longrightarrow> unat (byte_of (char_of (48 + d :: nat))) = 48 + d"
  by (simp add: byte_of_char_of unat_of_nat del: of_nat_add)

lemma isDigitChar_digit: "d < 10 \<Longrightarrow> isDigitChar (char_of (48 + d :: nat))"
  using unat_byte_of_digit [of d] by (simp add: isDigitChar_def word_le_nat_alt)

lemma to_string_rec:
  "to_string n = (if n < 10 then [] else to_string (n div 10)) @ [char_of (48 + n mod 10)]"
  by (subst to_string.simps) simp

lemma to_string_digits: "list_all isDigitChar (to_string n)"
proof (induction n rule: to_string.induct)
  case (1 n)
  then show ?case by (subst to_string_rec) (simp add: isDigitChar_digit)
qed

lemma to_string_not_Nil [simp]: "to_string n \<noteq> []"
  by (subst to_string_rec) simp

lemma decimal_value_to_string: "decimal_value (to_string n) = n"
proof (induction n rule: to_string.induct)
  case (1 n)
  have "decimal_value (s @ [char_of (48 + n mod 10)]) = 10 * decimal_value s + n mod 10" for s
    using unat_byte_of_digit [of "n mod 10"] by (simp add: decimal_value_def)
  then show ?case using 1 by (subst to_string_rec) (simp add: decimal_value_def)
qed

lemma isDigitChar_not:
  assumes "isDigitChar c"
  shows "\<not> isSpaceChar c" "c \<noteq> CHR ''-''" "c \<noteq> CHR ''+''" "c \<noteq> CHR ''=''"
proof -
  have "48 \<le> unat (byte_of c)" "unat (byte_of c) \<le> 57"
    using assms by (auto simp: isDigitChar_def word_le_nat_alt)
  then show "\<not> isSpaceChar c" "c \<noteq> CHR ''-''" "c \<noteq> CHR ''+''" "c \<noteq> CHR ''=''"
    by (auto simp: isSpaceChar_def word_le_nat_alt word_unat_eq_iff byte_of_def)
qed

lemma signAndDigits_to_string: "signAndDigits (to_string n) = (False, to_string n)"
proof -
  obtain c cs where c: "to_string n = c # cs" by (cases "to_string n") auto
  have d: "isDigitChar c" "list_all isDigitChar cs" using to_string_digits [of n] by (simp_all add: c)
  then have "takeWhile isDigitChar (c # cs) = c # cs" by (simp add: list_all_iff takeWhile_eq_all_conv)
  with isDigitChar_not [OF d(1)] show ?thesis by (simp add: signAndDigits_def c)
qed

lemma strtoul_to_string: "strtoul (to_string (unat (n :: uint64))) = n"
  using unat_uint64_less [of n] by (simp add: strtoul_def signAndDigits_to_string decimal_value_to_string)

lemma stoull_to_string: "stoull (to_string (unat n)) = Inr n"
  using unat_uint64_less [of n] by (simp add: stoull_def signAndDigits_to_string decimal_value_to_string)

section \<open>Escaped values\<close>

lemma toHexChar_noteq: "toHexChar n up \<noteq> CHR ''=''"
proof -
  have "toHexChar n True \<in> set ''0123456789ABCDEF''" "toHexChar n False \<in> set ''0123456789abcdef''"
    unfolding toHexChar_def by (simp_all only: if_True if_False) (intro nth_mem; simp)+
  then show ?thesis by (cases up) auto
qed

lemmas equals_noteq = toHexChar_noteq [THEN not_sym]

lemma equals_reserved: "\<not> isUnreserved CHR ''=''"
  by (simp add: isUnreserved_def char_le_def byte_of_def)

lemma escape_no_equals: "CHR ''='' \<notin> set (escape v)"
  using equals_reserved equals_noteq by (induction v) (auto dest: sym)

lemma dot_unreserved: "isUnreserved CHR ''.''"
  by (simp add: isUnreserved_def)

lemma unescape_dots: "unescape (''...'' @ escape v) = bytes_of ''...'' @ v"
  using unescape_unreserved' [OF dot_unreserved]
  by (simp add: unescape_escape bytes_of_def del: unescape.simps)

lemma unescape_writeUri:
  "unescape (writeUriEscapedValue c) =
     (if list_all (\<lambda>x. x = byte_of CHR ''.'') (value_bytes c) then bytes_of ''...'' @ value_bytes c
      else value_bytes c)"
  using unescape_dots [of "value_bytes c"] by (simp add: writeUriEscapedValue_def unescape_escape del: unescape.simps)

lemma parseUriEscapedValue_write:
  assumes "valid_tv (t, value_bytes c)" "length (value_bytes c) < 2 ^ 64"
  shows "parseUriEscapedValue t (writeUriEscapedValue c) = Inr (tlv_block t (value_bytes c))"
proof (cases "list_all (\<lambda>x. x = byte_of CHR ''.'') (value_bytes c)")
  case True
  let ?d = "replicate 3 (byte_of CHR ''.'')"
  have v: "value_bytes c = replicate (length (value_bytes c)) (byte_of CHR ''.'')"
    using True by (simp add: list_all_iff replicate_eqI)
  have d: "bytes_of ''...'' = ?d" by (simp add: bytes_of_def numeral_3_eq_3)
  have "?d @ value_bytes c = value_bytes c @ ?d"
    by (subst (1 2) v) (simp flip: replicate_add add: add.commute)
  then have "take (length (?d @ value_bytes c) - 3) (?d @ value_bytes c) = value_bytes c" by simp
  then show ?thesis
    using True assms by (simp add: parseUriEscapedValue_def unescape_writeUri d Component_ofBytes_valid
        Let_def list_all_iff del: unescape.simps)
next
  case False
  then show ?thesis
    using assms by (simp add: parseUriEscapedValue_def unescape_writeUri Component_ofBytes_valid del: unescape.simps)
qed

section \<open>URI round trips\<close>

lemma takeWhile_prefix:
  "CHR ''='' \<notin> set p \<Longrightarrow> takeWhile (\<lambda>c. c \<noteq> CHR ''='') (p @ ''='' @ rest) = p"
  by (induction p) auto

lemma to_string_no_equals: "CHR ''='' \<notin> set (to_string n)"
  using to_string_digits [of n] isDigitChar_not(4) by (auto simp: list_all_iff)

lemma fromEscapedString_prefix:
  assumes "CHR ''='' \<notin> set p"
  shows "fromEscapedString (p @ ''='' @ rest) =
    (if 1 \<le> strtoul p \<and> strtoul p \<le> 65535 \<and> to_string (unat (strtoul p)) = p
     then parseUriEscapedValue (ucast (strtoul p)) rest
     else case findByUriPrefix p of
            None \<Rightarrow> Inl (ComponentError (''Unknown TLV-TYPE '' @ p @ '' in NameComponent URI''))
          | Some ct \<Rightarrow> parseAltUriValue ct rest)"
proof -
  have "takeWhile (\<lambda>c. c \<noteq> CHR ''='') (p @ ''='' @ rest) = p" by (rule takeWhile_prefix [OF assms])
  then show ?thesis by (simp add: fromEscapedString_def Let_def)
qed

lemma fromEscapedString_canonical:
  assumes "valid_tv (view c)" "length (value_bytes c) < 2 ^ 64"
  shows "fromEscapedString (ComponentType_writeUri_base c) = Inr (tlv_block (m_type c) (value_bytes c))"
proof -
  let ?t = "ucast (m_type c) :: uint64"
  have u: "to_string (unat (m_type c)) = to_string (unat ?t)" by (simp only: unat_ucast_uint32)
  have r: "1 \<le> ?t" "?t \<le> 65535"
    using assms(1) by (auto simp: valid_tv_def word_le_nat_alt unat_ucast_uint32)
  have "fromEscapedString (ComponentType_writeUri_base c) =
      parseUriEscapedValue (ucast ?t) (writeUriEscapedValue c)"
    unfolding ComponentType_writeUri_base_def u fromEscapedString_prefix [OF to_string_no_equals]
    using r by (simp only: strtoul_to_string if_True simp_thms)
  also have "ucast ?t = m_type c" by (rule ucast_uint32_back)
  finally show ?thesis
    using assms by (simp add: parseUriEscapedValue_write view_def)
qed

lemma fromEscapedString_generic:
  assumes "valid_tv (view c)" "length (value_bytes c) < 2 ^ 64" "m_type c = tlv_GenericNameComponent"
  shows "fromEscapedString (writeUriEscapedValue c) = Inr (tlv_block (m_type c) (value_bytes c))"
proof -
  have "CHR ''='' \<notin> set (writeUriEscapedValue c)"
    using escape_no_equals by (simp add: writeUriEscapedValue_def)
  then have "takeWhile (\<lambda>x. x \<noteq> CHR ''='') (writeUriEscapedValue c) = writeUriEscapedValue c"
    by (auto simp: takeWhile_eq_all_conv)
  then have "fromEscapedString (writeUriEscapedValue c) =
      parseUriEscapedValue tlv_GenericNameComponent (writeUriEscapedValue c)"
    by (simp add: fromEscapedString_def Let_def)
  then show ?thesis
    using assms parseUriEscapedValue_write [of "m_type c" c] by (simp add: view_def)
qed

lemma hexText_eq: "hexText up bs = string_of (HexEncode_toHex up bs)"
  using toHex_eq [of bs up] by (simp add: hexText_def toHex_def)

lemma fromHexE_hexText: "fromHexE (hexText up bs) = Inr bs"
  by (simp add: fromHexE_def hexText_eq fromHex_string_of_toHex)

definition alt_prefixes :: "string list" where
  "alt_prefixes = [''sha256digest'', ''params-sha256'', ''seg'', ''off'', ''v'', ''t'', ''seq'']"

lemma alt_prefix_not_number: "p \<in> set alt_prefixes \<Longrightarrow> strtoul p = 0 \<and> CHR ''='' \<notin> set p"
  by (auto simp: alt_prefixes_def strtoul_def signAndDigits_def isSpaceChar_def isDigitChar_def
      byte_of_def decimal_value_def)

lemma fromEscapedString_alt:
  "p \<in> set alt_prefixes \<Longrightarrow> findByUriPrefix p = Some ct \<Longrightarrow>
     fromEscapedString (p @ ''='' @ rest) = parseAltUriValue ct rest"
  using fromEscapedString_prefix [of p rest] alt_prefix_not_number [of p] by simp

lemma table_cases:
  obtains (sha1) "t = 1" "ComponentTypeTable_get t = getComponentType1"
  | (sha2) "t = 2" "ComponentTypeTable_get t = getComponentType2"
  | (generic) "t = 8" "ComponentTypeTable_get t = GenericNameComponentType"
  | (decimal) n p where "ComponentTypeTable_get t = DecimalComponentType t n p"
      "findByUriPrefix p = Some (DecimalComponentType t n p)" "p \<in> set alt_prefixes"
  | (base) "ComponentTypeTable_get t = BaseType"
proof -
  have tab: "map_of componentTypeTable t = None \<or> t \<in> {1, 2, 8, 50, 52, 54, 56, 58}"
    by (auto simp: componentTypeTable_def)
  have dec: "thesis" if "t \<in> {50, 52, 54, 56, 58}"
    using that decimal
    by (auto simp: ComponentTypeTable_get_def componentTypeTable_def findByUriPrefix_def
        alt_prefixes_def getComponentType1_def getComponentType2_def)
  from tab dec show thesis
    using sha1 sha2 generic base table_1 table_2
    by (auto simp: ComponentTypeTable_get_def componentTypeTable_def split: option.splits)
qed

text \<open>A number whose value is its shortest encoding; only then does a decimal URI determine it.\<close>

definition shortest_number :: "block \<Rightarrow> bool" where
  "shortest_number c \<longleftrightarrow>
     (Component_isNumber c \<longrightarrow> value_bytes c = nni_bytes (word_of_nat (be_nat (value_bytes c))))"

lemma toNumber_spec:
  assumes "wf_block c" "Component_isNumber c"
  shows "toNumber c = Inr (word_of_nat (be_nat (value_bytes c)))"
proof -
  have "length (value_bytes c) \<in> nni_sizes"
    using assms by (auto simp: Component_isNumber_def value_size_length nni_sizes_def)
  then show ?thesis
    using assms by (simp add: toNumber_def readNonNegativeInteger_view readNonNegativeInteger_eq)
qed

lemma Component_fromNumber_spec:
  assumes "valid_tv (t, nni_bytes n)"
  shows "Component_fromNumber n t = Inr (tlv_block t (nni_bytes n))"
proof -
  have t: "t \<noteq> 0" using assms by (auto simp: valid_tv_def)
  have l: "length (nni_bytes n) < 2 ^ 64" by (simp add: sizeOfNonNegativeInteger_def)
  have "makeNonNegativeIntegerBlock t n = Inr (tlv_block t (nni_bytes n))"
    unfolding makeNonNegativeIntegerBlock_def using t l by (intro makeBlock_tlv prepends_nniBlock)
  then show ?thesis
    using assms wf_tlv_block [OF t l] by (simp add: Component_fromNumber_def Component_ofBlock_valid)
qed

lemma Component_ofBuffer_valid: "valid_tv (t, v) \<Longrightarrow> Component_ofBuffer t v = Inr (Block_ofValue t v)"
  by (simp add: Component_ofBuffer_def ensureValid_iff view_def Block_ofValue_def value_bytes_def)

lemma view_ofValue [simp]: "view (Block_ofValue t v) = (t, v)"
  by (simp add: view_def Block_ofValue_def value_bytes_def)

lemma fromEscapedString_writeUri:
  assumes "wf_block c" "valid_tv (view c)" "length (value_bytes c) < 2 ^ 64" "shortest_number c"
  shows "\<exists>s d. writeUri (ComponentTypeTable_get (m_type c)) c = Inr s \<and> fromEscapedString s = Inr d \<and>
    wf_block d \<and> view d = view c"
proof -
  have t: "m_type c \<noteq> 0" using assms(2) by (auto simp: valid_tv_def)
  have tlv: "wf_block (tlv_block (m_type c) (value_bytes c))" using t assms(3) by (rule wf_tlv_block)
  have v: "valid_tv (m_type c, value_bytes c)" using assms(2) by (simp add: view_def)
  have plain: ?thesis if "writeUri (ComponentTypeTable_get (m_type c)) c = Inr (ComponentType_writeUri_base c)"
    using that fromEscapedString_canonical [OF assms(2,3)] tlv by (auto simp: view_def)
  show ?thesis
  proof (cases rule: table_cases [of "m_type c"])
    case sha1
    have "findByUriPrefix ''sha256digest'' = Some getComponentType1"
      by (simp add: findByUriPrefix_def componentTypeTable_def getComponentType1_def)
    then have "fromEscapedString (''sha256digest'' @ ''='' @ hexText False (value_bytes c)) =
        Inr (Block_ofValue 1 (value_bytes c))"
      using v sha1(1) by (subst fromEscapedString_alt) (auto simp: alt_prefixes_def getComponentType1_def
          fromHexE_hexText Component_ofBuffer_valid)
    then show ?thesis
      using sha1 by (simp add: getComponentType1_def) (simp add: view_def)
  next
    case sha2
    have "findByUriPrefix ''params-sha256'' = Some getComponentType2"
      by (simp add: findByUriPrefix_def componentTypeTable_def getComponentType1_def getComponentType2_def)
    then have "fromEscapedString (''params-sha256'' @ ''='' @ hexText False (value_bytes c)) =
        Inr (Block_ofValue 2 (value_bytes c))"
      using v sha2(1) by (subst fromEscapedString_alt) (auto simp: alt_prefixes_def getComponentType2_def
          fromHexE_hexText Component_ofBuffer_valid)
    then show ?thesis
      using sha2 by (simp add: getComponentType2_def) (simp add: view_def)
  next
    case generic
    then show ?thesis using fromEscapedString_generic [OF assms(2,3)] tlv by (simp add: view_def)
  next
    case (decimal n p)
    let ?n = "word_of_nat (be_nat (value_bytes c)) :: uint64"
    show ?thesis
    proof (cases "Component_isNumber c")
      case True
      then have vn: "value_bytes c = nni_bytes ?n" using assms(4) by (simp add: shortest_number_def)
      have "writeUri (ComponentTypeTable_get (m_type c)) c = Inr (p @ ''='' @ to_string (unat ?n))"
        using decimal(1) True toNumber_spec [OF assms(1)] by simp
      moreover have "fromEscapedString (p @ ''='' @ to_string (unat ?n)) =
          Inr (tlv_block (m_type c) (value_bytes c))"
        using fromEscapedString_alt [OF decimal(3,2)] Component_fromNumber_spec [of "m_type c" ?n] v vn
        by (simp add: stoull_to_string)
      ultimately show ?thesis using tlv by (auto simp: view_def)
    qed (use decimal plain in simp)
  qed (use plain in simp)
qed

section \<open>Naming conventions\<close>

lemma fromNumberWithMarker_spec:
  obtains b where "fromNumberWithMarker m n = Inr b" "wf_block b" "hasWire b"
    "view b = (tlv_GenericNameComponent, m # nni_bytes n)"
    "wire_bytes b = tlv_bytes tlv_GenericNameComponent (m # nni_bytes n)"
proof -
  define vl where "vl = Estimator_prependNonNegativeInteger n + Estimator_prependBytes [m]"
  define e0 where "e0 = mk_Encoder (vl + Estimator_prependVarNumber (word_of_nat vl)
    + Estimator_prependVarNumber (ucast tlv_GenericNameComponent)) 0"
  define e4 where "e4 = snd (Encoder_prependVarNumber (ucast tlv_GenericNameComponent)
    (snd (Encoder_prependVarNumber (word_of_nat vl)
      (snd (Encoder_prependBytes [m] (snd (Encoder_prependNonNegativeInteger n e0)))))))"
  have vl: "vl = length (m # nni_bytes n)"
    by (simp add: vl_def Estimator_prependNonNegativeInteger_def Estimator_prependBytes_def)
  have "enc_inv e0" by (simp add: e0_def)
  then have e4: "enc_inv e4" "contents e4 = tlv_bytes tlv_GenericNameComponent (m # nni_bytes n)"
    by (simp_all add: e4_def Encoder_prependNonNegativeInteger_spec Encoder_prependBytes_spec
        Encoder_prependVarNumber_spec tlv_bytes_def vl) (simp add: e0_def)
  have l: "length (m # nni_bytes n) < 2 ^ 64" by (simp add: sizeOfNonNegativeInteger_def)
  obtain b where b: "Block_fromEncoder e4 = Inr b" "wf_block b" "hasWire b"
      "view b = (tlv_GenericNameComponent, m # nni_bytes n)"
      "wire_bytes b = tlv_bytes tlv_GenericNameComponent (m # nni_bytes n)"
    using Block_fromEncoder_tlv [OF e4 _ l] by auto
  have "Component_ofBlock b = Inr b" using b by (intro Component_ofBlock_valid) (auto simp: valid_tv_def)
  then have "fromNumberWithMarker m n = Inr b"
    unfolding fromNumberWithMarker_def Let_def vl_def [symmetric] e0_def [symmetric] e4_def [symmetric]
    by (simp add: b)
  with b show ?thesis by (intro that)
qed

lemma toNumberWithMarker_spec:
  assumes "wf_block b" "view b = (t, m # nni_bytes n)"
  shows "toNumberWithMarker m b = Inr n" "isNumberWithMarker m b"
proof -
  have v: "value_bytes b = m # nni_bytes n" using assms(2) by (simp add: view_def)
  have s: "value_size b = Suc (sizeOfNonNegativeInteger n)"
    using value_size_length [OF assms(1)] by (simp add: v)
  show i: "isNumberWithMarker m b"
    by (simp add: isNumberWithMarker_def s v sizeOfNonNegativeInteger_def)
  show "toNumberWithMarker m b = Inr n"
    using i readNonNegativeInteger_bytes [of ContiguousIterator n "[]"]
    by (simp add: toNumberWithMarker_def s v)
qed

lemma toNumber_nni:
  assumes "wf_block b" "view b = (t, nni_bytes n)"
  shows "toNumber b = Inr n" "Component_isNumber b"
proof -
  have v: "value_bytes b = nni_bytes n" using assms(2) by (simp add: view_def)
  show i: "Component_isNumber b"
    using value_size_length [OF assms(1)] by (simp add: Component_isNumber_def v sizeOfNonNegativeInteger_def)
  show "toNumber b = Inr n"
    using i assms(1) by (simp add: toNumber_def readNonNegativeInteger_nni v)
qed

section \<open>Wire encoding\<close>

lemma Component_wireEncode_prepends:
  assumes "wf_block c"
  shows "prepends (Component_wireEncode_enc c) (tlv_bytes (m_type c) (value_bytes c))"
proof -
  let ?tail = "[\<lambda>_. prependVarNumber (word_of_nat (value_size c)), \<lambda>_. prependVarNumber (ucast (m_type c))]"
  have s: "value_size c = length (value_bytes c)" by (rule value_size_length [OF assms])
  have h: "prependsFrom (if value_size c > 0 then [\<lambda>_. prependBytes (value_bytes c)] else []) 0 (value_bytes c)"
    using prependsFrom_single [of "\<lambda>_. prependBytes (value_bytes c)" 0 "value_bytes c"] prependsFrom_Nil
    by (auto simp: s)
  have "prependsFrom ?tail (0 + length (value_bytes c))
      (varNumber_bytes (ucast (m_type c)) @ varNumber_bytes (word_of_nat (value_size c)))"
    by (rule prependsFrom_Cons [OF prepends_varNumber prependsFrom_single [OF prepends_varNumber]])
  from prepends_steps [OF prependsFrom_append [OF h this]] show ?thesis
    by (simp add: Component_wireEncode_enc_def tlv_bytes_def s)
qed

interpretation comp: wire_encodable Component_wireEncode_enc
  "\<lambda>c. tlv_bytes (m_type c) (value_bytes c)" wf_block
  by unfold_locales (rule Component_wireEncode_prepends)

lemma Component_wireEncode_spec:
  assumes "wf_block c" "valid_tv (view c)" "length (value_bytes c) < 2 ^ 64"
  obtains w where "Component_wireEncode c = Inr w" "wf_block w" "hasWire w" "view w = view c"
proof (cases "hasWire c")
  case True
  then show ?thesis using assms that by (simp add: Component_wireEncode_def)
next
  case False
  have t: "m_type c \<noteq> 0" using assms(2) by (auto simp: valid_tv_def)
  have "makeBlock (Component_wireEncode_enc c) = Inr (tlv_block (m_type c) (value_bytes c))"
    using Component_wireEncode_prepends [OF assms(1)] t assms(3) by (rule makeBlock_tlv)
  moreover have "Component_ofBlock (tlv_block (m_type c) (value_bytes c)) = Inr (tlv_block (m_type c) (value_bytes c))"
    using wf_tlv_block [OF t assms(3)] assms(2) by (intro Component_ofBlock_valid) (simp_all add: view_def)
  ultimately show ?thesis
    using False wf_tlv_block [OF t assms(3)]
    by (intro that [of "tlv_block (m_type c) (value_bytes c)"]) (simp_all add: Component_wireEncode_def view_def)
qed

section \<open>Naming conventions\<close>

text \<open>
  The pairs \<open>fromVersion\<close>/\<open>toVersion\<close>, \<open>fromSegment\<close>/\<open>toSegment\<close> and so on share one contract: a marker for
  the 2014 convention, a type for the 2019 one, and the same choice between them.
\<close>

definition convention_agrees :: "conventions \<Rightarrow> bool" where
  "convention_agrees g \<longleftrightarrow>
     (if g_conventionEncoding g = MARKER then canDecodeMarkerConvention g else canDecodeTypedConvention g)"

locale number_convention =
  fixes from_conv :: "conventions \<Rightarrow> uint64 \<Rightarrow> block result"
    and is_conv :: "conventions \<Rightarrow> block \<Rightarrow> bool"
    and to_conv :: "conventions \<Rightarrow> block \<Rightarrow> uint64 result"
    and marker :: byte
    and conv_type :: uint32
    and what :: error
  assumes conv_type: "2 < unat conv_type" "unat conv_type \<le> 65535" "conv_type \<noteq> tlv_GenericNameComponent"
    and from_eq: "from_conv g n = (if g_conventionEncoding g = MARKER then fromNumberWithMarker marker n
      else Component_fromNumber n conv_type)"
    and is_eq: "is_conv g c \<longleftrightarrow>
      (canDecodeMarkerConvention g \<and> m_type c = tlv_GenericNameComponent \<and> isNumberWithMarker marker c) \<or>
      (canDecodeTypedConvention g \<and> m_type c = conv_type \<and> Component_isNumber c)"
    and to_eq: "to_conv g c =
      (if canDecodeMarkerConvention g \<and> m_type c = tlv_GenericNameComponent then toNumberWithMarker marker c
       else if canDecodeTypedConvention g \<and> m_type c = conv_type then toNumber c else Inl what)"
begin

lemma convention_round_trip:
  assumes "convention_agrees g"
  shows "\<exists>c. from_conv g n = Inr c \<and> is_conv g c \<and> to_conv g c = Inr n"
proof (cases "g_conventionEncoding g = MARKER")
  case True
  obtain b where b: "fromNumberWithMarker marker n = Inr b" "wf_block b"
    "view b = (tlv_GenericNameComponent, marker # nni_bytes n)"
    using fromNumberWithMarker_spec [of marker n] by blast
  from True assms b(1) toNumberWithMarker_spec [OF b(2,3)] b(3) show ?thesis
    by (auto simp: from_eq is_eq to_eq convention_agrees_def view_def)
next
  case False
  let ?b = "tlv_block conv_type (nni_bytes n)"
  have v: "valid_tv (conv_type, nni_bytes n)" using conv_type(1,2) by (auto simp: valid_tv_def)
  have "wf_block ?b" using conv_type(1) by (intro wf_tlv_block) (auto simp: sizeOfNonNegativeInteger_def)
  from toNumber_nni [OF this view_tlv_block] Component_fromNumber_spec [OF v] False assms conv_type(3)
  show ?thesis by (auto simp: from_eq is_eq to_eq convention_agrees_def)
qed

end

interpretation ver: number_convention fromVersion isVersion toVersion VERSION_MARKER tlv_VersionNameComponent
  "ComponentError ''Not a Version component''"
  by unfold_locales (auto simp: fromVersion_def isVersion_def toVersion_def)

interpretation seg: number_convention fromSegment isSegment toSegment SEGMENT_MARKER tlv_SegmentNameComponent
  "ComponentError ''Not a Segment component''"
  by unfold_locales (auto simp: fromSegment_def isSegment_def toSegment_def)

interpretation off: number_convention fromByteOffset isByteOffset toByteOffset SEGMENT_OFFSET_MARKER
  tlv_ByteOffsetNameComponent "ComponentError ''Not a ByteOffset component''"
  by unfold_locales (auto simp: fromByteOffset_def isByteOffset_def toByteOffset_def)

interpretation sqn: number_convention fromSequenceNumber isSequenceNumber toSequenceNumber SEQUENCE_NUMBER_MARKER
  tlv_SequenceNumNameComponent "ComponentError ''Not a SequenceNumber component''"
  by unfold_locales (auto simp: fromSequenceNumber_def isSequenceNumber_def toSequenceNumber_def)

section \<open>Properties of name components\<close>

text \<open>
  C5: \<open>Component::compare\<close> is the NDN canonical order: by type, then by length of the value, then by
  the bytes of the value, whichever of its two branches (comparing wires, or type, size and
  value) is taken, for components whose cached wire, if any, is a shortest encoding.
\<close>

theorem compare_canonical:
  assumes "component_ok a" "component_ok b" "shortest a" "shortest b"
  shows "cmp (Component_compare a b) 0 = cmp (canonical_key (view a)) (canonical_key (view b)) \<and>
    (Component_compare a b = 0 \<longleftrightarrow> Component_equals a b)"
proof -
  have c: "cmp (Component_compare a b) 0 = cmp (canonical_key (view a)) (canonical_key (view b))"
    by (rule Component_compare_canonical [OF assms])
  have "Component_compare a b = 0 \<longleftrightarrow> cmp (Component_compare a b) 0 = 0" by simp
  also have "\<dots> \<longleftrightarrow> view a = view b" by (simp only: c cmp_simps canonical_key_inject)
  finally show ?thesis using c assms by (simp add: Component_equals_view component_ok_def)
qed

theorem compare_canonical_witness:
  "cmp (Component_compare (tlv_block 8 [65]) (Block_ofValue 8 [64, 0])) 0 =
     cmp (canonical_key (view (tlv_block 8 [65]))) (canonical_key (view (Block_ofValue 8 [64, 0]))) \<and>
   (Component_compare (tlv_block 8 [65]) (Block_ofValue 8 [64, 0]) = 0 \<longleftrightarrow>
      Component_equals (tlv_block 8 [65]) (Block_ofValue 8 [64, 0]))"
  by (rule compare_canonical; code_simp)

text \<open>
  C40: Without that restriction the order is not consistent with equality: two valid components with
  a wire, one of them not a shortest encoding, are equal but compare as different.
\<close>

theorem compare_equals_inconsistent:
  "\<exists>a b. component_ok a \<and> component_ok b \<and> Component_equals a b \<and> Component_compare a b \<noteq> 0"
proof -
  let ?w = "[8, 253, 0, 1, 65] :: byte list"
  let ?a = "tlv_block 8 [65]" and ?b = "Block (Some ?w) 0 5 4 5 8 5 []"
  have "component_ok ?a" "component_ok ?b" "Component_equals ?a ?b" "Component_compare ?a ?b \<noteq> 0"
    by (code_simp, code_simp, code_simp, code_simp)
  then show ?thesis by blast
qed

text \<open>
  C6: \<open>Component::getSuccessor\<close> is the immediate successor in canonical order: the result is a valid
  component, greater than the argument, and no valid component lies strictly between them.
\<close>

theorem getSuccessor_immediate:
  assumes "component_ok c"
  shows "\<exists>s. Component_getSuccessor c = Inr s \<and> wf_block s \<and> ensureValid s = Inr s \<and>
    canonical_key (view c) < canonical_key (view s) \<and>
    (\<forall>d. component_ok d \<longrightarrow> canonical_key (view c) < canonical_key (view d) \<longrightarrow>
       canonical_key (view s) \<le> canonical_key (view d))"
proof -
  have c: "wf_block c" "valid_tv (view c)" "Suc (length (value_bytes c)) < 2 ^ 64"
    using assms by (auto simp: component_ok_def ensureValid_iff)
  obtain s where s: "Component_getSuccessor c = Inr s" "wf_block s" "view s = successor_tv (view c)"
    by (rule Component_getSuccessor_spec [OF c])
  have "ensureValid s = Inr s" using s c(2) by (simp add: ensureValid_iff successor_tv_valid)
  moreover have "canonical_key (view s) \<le> canonical_key (view d)"
    if "component_ok d" "canonical_key (view c) < canonical_key (view d)" for d
    using that c(2) s(3) by (auto simp: component_ok_def ensureValid_iff intro: successor_tv_least)
  ultimately show ?thesis using s successor_tv_greater [OF c(2)] by auto
qed

theorem getSuccessor_immediate_witness:
  "\<exists>s. Component_getSuccessor (tlv_block 8 [65, 255]) = Inr s \<and> wf_block s \<and> ensureValid s = Inr s \<and>
    canonical_key (view (tlv_block 8 [65, 255])) < canonical_key (view s) \<and>
    (\<forall>d. component_ok d \<longrightarrow> canonical_key (view (tlv_block 8 [65, 255])) < canonical_key (view d) \<longrightarrow>
       canonical_key (view s) \<le> canonical_key (view d))"
  by (rule getSuccessor_immediate) code_simp

text \<open>
  C36: The typed and marker conventions for versions, segments, byte offsets and sequence numbers round
  trip for every 64-bit number, whenever the convention used for encoding is among those enabled for decoding.
\<close>

theorem conventions_round_trip:
  assumes "convention_agrees g"
  shows "(\<exists>c. fromVersion g n = Inr c \<and> isVersion g c \<and> toVersion g c = Inr n) \<and>
    (\<exists>c. fromSegment g n = Inr c \<and> isSegment g c \<and> toSegment g c = Inr n) \<and>
    (\<exists>c. fromByteOffset g n = Inr c \<and> isByteOffset g c \<and> toByteOffset g c = Inr n) \<and>
    (\<exists>c. fromSequenceNumber g n = Inr c \<and> isSequenceNumber g c \<and> toSequenceNumber g c = Inr n)"
  using assms ver.convention_round_trip seg.convention_round_trip off.convention_round_trip
    sqn.convention_round_trip by simp

theorem conventions_round_trip_witness:
  "\<exists>c. fromVersion default_conventions 300 = Inr c \<and> isVersion default_conventions c \<and>
     toVersion default_conventions c = Inr 300"
proof -
  have "convention_agrees default_conventions" by code_simp
  from conventions_round_trip [OF this, of 300] show ?thesis by simp
qed

end
