(* ===== verification/Name.thy ===== *)
theory Name
  imports NameComponentUri
begin

text \<open>
  \<open>Name\<close> (\<open>name.hpp\<close>, \<open>name.cpp\<close>): a block of type Name whose sub-elements are the components.
  \<open>wireEncode() const\<close> stores the encoding in the mutable \<open>m_wire\<close>; it returns the changed name
  here.  Indexes are \<open>ssize_t\<close> (\<open>int\<close>), counts are \<open>size_t\<close> and wrap.  Unchecked accesses out of
  range are the error \<open>LogicError\<close>.
\<close>

section \<open>State and wire format\<close>

record name =
  name_wire :: block

abbreviation components :: "name \<Rightarrow> block list" where
  "components n \<equiv> m_elements (name_wire n)"

definition Name_npos :: uint64 where
  "Name_npos = -1"

definition Name_default :: name where
  "Name_default = \<lparr>name_wire = Block_ofType tlv_Name\<rparr>"

definition Name_ofBlock :: "block \<Rightarrow> name result" where
  "Name_ofBlock wire = bindE (parseE wire) (\<lambda>w. Inr \<lparr>name_wire = w\<rparr>)"

definition Name_empty :: "name \<Rightarrow> bool" where
  "Name_empty n \<longleftrightarrow> components n = []"

definition Name_size :: "name \<Rightarrow> nat" where
  "Name_size n = length (components n)"

definition Name_append :: "block \<Rightarrow> name \<Rightarrow> name" where
  "Name_append c n = n\<lparr>name_wire := Block_push_back c (name_wire n)\<rparr>"

function Name_uri_loop :: "string \<Rightarrow> name \<Rightarrow> name result" where
  "Name_uri_loop uri n =
     (if uri = [] then Inr n
      else let comp = takeWhile (\<lambda>c. c \<noteq> CHR ''/'') uri
           in bindE (fromEscapedString comp) (\<lambda>c.
                Name_uri_loop (drop (length comp + 1) uri) (Name_append c n)))"
  by auto
termination by (relation "measure (\<lambda>(uri, n). length uri)") auto

declare Name_uri_loop.simps [simp del]

text \<open>
  \<open>Name(std::string uri)\<close>: the scheme is what stands before a colon that comes before any slash; an
  authority follows two slashes.  This constructor leaves \<open>m_wire\<close> default-constructed.
\<close>

definition uri_find :: "char \<Rightarrow> nat \<Rightarrow> string \<Rightarrow> nat option" where
  "uri_find c start uri =
     (let k = length (takeWhile (\<lambda>x. x \<noteq> c) (drop start uri))
      in if start + k < length uri then Some (start + k) else None)"

definition stripScheme :: "string \<Rightarrow> string" where
  "stripScheme uri =
     (case uri_find CHR '':'' 0 uri of
        None \<Rightarrow> uri
      | Some iColon \<Rightarrow>
          (case uri_find CHR ''/'' 0 uri of
             None \<Rightarrow> drop (iColon + 1) uri
           | Some iFirstSlash \<Rightarrow> if iColon < iFirstSlash then drop (iColon + 1) uri else uri))"

definition Name_ofUri :: "string \<Rightarrow> name result" where
  "Name_ofUri uri0 =
     (let n = \<lparr>name_wire = Block_default\<rparr> in
      if uri0 = [] then Inr n
      else
        let uri = stripScheme uri0 in
        if uri \<noteq> [] \<and> hd uri = CHR ''/'' then
          if length uri \<ge> 2 \<and> uri ! 1 = CHR ''/'' then
            (case uri_find CHR ''/'' 2 uri of
               None \<Rightarrow> Inr n
             | Some iAfterAuthority \<Rightarrow> Name_uri_loop (drop (iAfterAuthority + 1) uri) n)
          else Name_uri_loop (drop 1 uri) n
        else Name_uri_loop uri n)"

definition Name_wireEncode_enc :: "name \<Rightarrow> enc_op" where
  "Name_wireEncode_enc n = runSteps
     (map (\<lambda>c _. Component_wireEncode_enc c) (rev (components n)) @
      [\<lambda>totalLength. prependVarNumber (word_of_nat totalLength),
       \<lambda>_. prependVarNumber (ucast tlv_Name)])"

definition Name_wireEncode :: "name \<Rightarrow> name result" where
  "Name_wireEncode n =
     (if hasWire (name_wire n) then Inr n
      else bindE (makeBlock (Name_wireEncode_enc n)) (\<lambda>b.
             bindE (parseE b) (\<lambda>w. Inr (n\<lparr>name_wire := w\<rparr>))))"

definition Name_wireDecode :: "block \<Rightarrow> name result" where
  "Name_wireDecode wire =
     (if m_type wire \<noteq> tlv_Name then Inl (TlvError (expecting ''Name'' (m_type wire)))
      else bindE (parseE wire) (\<lambda>w. Inr \<lparr>name_wire = w\<rparr>))"

definition Name_deepCopy :: "name \<Rightarrow> name result" where
  "Name_deepCopy n = Name_wireEncode (n\<lparr>name_wire := resetWire (name_wire n)\<rparr>)"

section \<open>Accessors\<close>

definition Name_get :: "int \<Rightarrow> name \<Rightarrow> block result" where
  "Name_get i n =
     (let i' = (if i < 0 then i + int (Name_size n) else i)
      in if i' < 0 \<or> nat i' \<ge> Name_size n then Inl (LogicError ''undefined behavior'')
         else Inr (components n ! nat i'))"

definition Name_at :: "int \<Rightarrow> name \<Rightarrow> block result" where
  "Name_at i n =
     (let i' = (if i < 0 then i + int (Name_size n) else i)
      in if i' < 0 \<or> nat i' \<ge> Name_size n
         then Inl (NameError ''Requested component does not exist (out of bounds)'')
         else Inr (components n ! nat i'))"

fun subName_loop :: "nat \<Rightarrow> nat \<Rightarrow> name \<Rightarrow> name \<Rightarrow> name result" where
  "subName_loop 0 i n acc = Inr acc"
| "subName_loop (Suc k) i n acc =
     bindE (Name_at (int i) n) (\<lambda>c. subName_loop k (Suc i) n (Name_append c acc))"

definition getSubName :: "int \<Rightarrow> uint64 \<Rightarrow> name \<Rightarrow> name result" where
  "getSubName iStartComponent nComponents n =
     (let iSC = (if iStartComponent < 0 then iStartComponent + int (Name_size n) else iStartComponent);
          iStart = (if iSC < 0 then 0 else nat iSC);
          iEnd = (if nComponents \<noteq> Name_npos
                  then min (Name_size n) (unat (word_of_nat iStart + nComponents))
                  else Name_size n)
      in subName_loop (iEnd - iStart) iStart n Name_default)"

definition getPrefix :: "int \<Rightarrow> name \<Rightarrow> name result" where
  "getPrefix nComponents n =
     (if nComponents < 0 then getSubName 0 (word_of_nat (Name_size n) + word_of_int nComponents) n
      else getSubName 0 (word_of_int nComponents) n)"

section \<open>Modifiers\<close>

definition Name_set :: "int \<Rightarrow> block \<Rightarrow> name \<Rightarrow> name result" where
  "Name_set i c n =
     (let i' = (if i < 0 then i + int (Name_size n) else i)
      in if i' < 0 \<or> nat i' \<ge> Name_size n then Inl (LogicError ''undefined behavior'')
         else Inr (n\<lparr>name_wire := resetWire (set_elements ((components n)[nat i' := c]) (name_wire n))\<rparr>))"

text \<open>\<open>append(Block)\<close>: a block of another type is wrapped.\<close>

definition Name_append_block :: "block \<Rightarrow> name \<Rightarrow> name result" where
  "Name_append_block v n =
     (if m_type v = tlv_GenericNameComponent then Inr (Name_append v n)
      else bindE (Block_ofBlock tlv_GenericNameComponent v) (\<lambda>b. Inr (Name_append b n)))"

definition Name_appendE :: "block result \<Rightarrow> name \<Rightarrow> name result" where
  "Name_appendE r n = bindE r (\<lambda>c. Inr (Name_append c n))"

fun append_loop :: "nat \<Rightarrow> nat \<Rightarrow> name \<Rightarrow> name \<Rightarrow> name result" where
  "append_loop 0 i other n = Inr n"
| "append_loop (Suc k) i other n =
     bindE (Name_at (int i) other) (\<lambda>c. append_loop k (Suc i) other (Name_append c n))"

definition Name_append_name :: "name \<Rightarrow> name \<Rightarrow> name result" where
  "Name_append_name other n = append_loop (Name_size other) 0 other n"

definition appendNumber :: "uint64 \<Rightarrow> name \<Rightarrow> name result" where
  "appendNumber number = Name_appendE (Component_fromNumber number tlv_GenericNameComponent)"

definition appendNumberWithMarker :: "byte \<Rightarrow> uint64 \<Rightarrow> name \<Rightarrow> name result" where
  "appendNumberWithMarker marker number = Name_appendE (fromNumberWithMarker marker number)"

text \<open>\<open>now\<close> is the reading of the system clock.\<close>

definition toUnixTimestamp :: "time_point \<Rightarrow> int" where
  "toUnixTimestamp t = (if t < 0 then - ((- t) div 1000000) else t div 1000000)"

definition appendVersion :: "conventions \<Rightarrow> time_point \<Rightarrow> uint64 option \<Rightarrow> name \<Rightarrow> name result" where
  "appendVersion g now version = Name_appendE (fromVersion g
     (case version of Some v \<Rightarrow> v | None \<Rightarrow> word_of_int (toUnixTimestamp now)))"

definition appendSegment :: "conventions \<Rightarrow> uint64 \<Rightarrow> name \<Rightarrow> name result" where
  "appendSegment g segmentNo = Name_appendE (fromSegment g segmentNo)"

definition appendByteOffset :: "conventions \<Rightarrow> uint64 \<Rightarrow> name \<Rightarrow> name result" where
  "appendByteOffset g offset = Name_appendE (fromByteOffset g offset)"

definition appendTimestamp :: "conventions \<Rightarrow> time_point \<Rightarrow> time_point option \<Rightarrow> name \<Rightarrow> name result" where
  "appendTimestamp g now timestamp = Name_appendE (fromTimestamp g
     (case timestamp of Some t \<Rightarrow> t | None \<Rightarrow> now))"

definition appendSequenceNumber :: "conventions \<Rightarrow> uint64 \<Rightarrow> name \<Rightarrow> name result" where
  "appendSequenceNumber g seqNo = Name_appendE (fromSequenceNumber g seqNo)"

text \<open>The overloads for a shared buffer make a component without a wire.\<close>

definition appendImplicitSha256Digest_buffer :: "buffer \<Rightarrow> name \<Rightarrow> name result" where
  "appendImplicitSha256Digest_buffer digest = Name_appendE (fromImplicitSha256Digest_buffer digest)"

definition appendImplicitSha256Digest :: "byte list \<Rightarrow> name \<Rightarrow> name result" where
  "appendImplicitSha256Digest digest = Name_appendE (fromImplicitSha256Digest digest)"

definition appendParametersSha256Digest_buffer :: "buffer \<Rightarrow> name \<Rightarrow> name result" where
  "appendParametersSha256Digest_buffer digest = Name_appendE (fromParametersSha256Digest_buffer digest)"

definition appendParametersSha256Digest :: "byte list \<Rightarrow> name \<Rightarrow> name result" where
  "appendParametersSha256Digest digest = Name_appendE (fromParametersSha256Digest digest)"

definition SHA256_OF_EMPTY_STRING :: "byte list" where
  "SHA256_OF_EMPTY_STRING =
     be_bytes 32 0xe3b0c44298fc1c149afbf4c8996fb92427ae41e4649b934ca495991b7852b855"

definition appendParametersSha256DigestPlaceholder :: "name \<Rightarrow> name result" where
  "appendParametersSha256DigestPlaceholder =
     Name_appendE (Component_ofBytes tlv_ParametersSha256DigestComponent SHA256_OF_EMPTY_STRING)"

definition Name_erase :: "int \<Rightarrow> name \<Rightarrow> name result" where
  "Name_erase i n =
     (let i' = (if i < 0 then i + int (Name_size n) else i)
      in if i' < 0 \<or> nat i' \<ge> Name_size n then Inl (LogicError ''undefined behavior'')
         else Inr (n\<lparr>name_wire := Block_erase (nat i') (name_wire n)\<rparr>))"

definition Name_clear :: "name \<Rightarrow> name" where
  "Name_clear n = n\<lparr>name_wire := Block_ofType tlv_Name\<rparr>"

section \<open>Algorithms\<close>

definition Name_getSuccessor :: "name \<Rightarrow> name result" where
  "Name_getSuccessor n =
     (if Name_empty n
      then Name_ofUri (''/sha256digest='' @ replicate 64 CHR ''0'')
      else bindE (getPrefix (-1) n) (\<lambda>p. bindE (Name_get (-1) n) (\<lambda>c.
             bindE (Component_getSuccessor c) (\<lambda>s. Inr (Name_append s p)))))"

definition isPrefixOf :: "name \<Rightarrow> name \<Rightarrow> bool" where
  "isPrefixOf n other \<longleftrightarrow>
     (if Name_size n > Name_size other then False
      else list_all (\<lambda>i. Component_equals (components n ! i) (components other ! i)) [0..<Name_size n])"

definition Name_equals :: "name \<Rightarrow> name \<Rightarrow> bool" where
  "Name_equals n other \<longleftrightarrow>
     (if Name_size n \<noteq> Name_size other then False
      else list_all (\<lambda>i. Component_equals (components n ! i) (components other ! i)) [0..<Name_size n])"

fun compare_loop :: "nat \<Rightarrow> nat \<Rightarrow> nat \<Rightarrow> name \<Rightarrow> name \<Rightarrow> int result" where
  "compare_loop 0 pos1 pos2 n other = Inr 0"
| "compare_loop (Suc k) pos1 pos2 n other =
     bindE (Name_get (int pos1) n) (\<lambda>c. bindE (Name_get (int pos2) other) (\<lambda>d.
       let comp = Component_compare c d in
       if comp \<noteq> 0 then Inr comp else compare_loop k (Suc pos1) (Suc pos2) n other))"

definition Name_compare_range :: "uint64 \<Rightarrow> uint64 \<Rightarrow> name \<Rightarrow> uint64 \<Rightarrow> uint64 \<Rightarrow> name \<Rightarrow> int result" where
  "Name_compare_range pos1 count1 other pos2 count2 n =
     (let c1 = min count1 (word_of_nat (Name_size n) - pos1);
          c2 = min count2 (word_of_nat (Name_size other) - pos2);
          count = min c1 c2
      in bindE (compare_loop (unat count) (unat pos1) (unat pos2) n other) (\<lambda>comp.
           if comp \<noteq> 0 then Inr comp else Inr (sint (ucast (c1 - c2) :: 32 word))))"

definition Name_compare :: "name \<Rightarrow> name \<Rightarrow> int result" where
  "Name_compare n other = Name_compare_range 0 Name_npos other 0 Name_npos n"

section \<open>URI representation\<close>

fun Name_uri_components :: "string option \<Rightarrow> uriFormat \<Rightarrow> block list \<Rightarrow> string result" where
  "Name_uri_components env format [] = Inr []"
| "Name_uri_components env format (c # cs) =
     bindE (Component_toUri env format c) (\<lambda>s.
       bindE (Name_uri_components env format cs) (\<lambda>rest. Inr (''/'' @ s @ rest)))"

definition Name_toUri :: "string option \<Rightarrow> uriFormat \<Rightarrow> name \<Rightarrow> string result" where
  "Name_toUri env format n =
     (if Name_empty n then Inr ''/'' else Name_uri_components env format (components n))"

end
