(* ===== verification/NameProps.thy ===== *)
theory NameProps
  imports Name "HOL-Library.List_Lexorder" "HOL-Library.Product_Lexorder"
begin

text \<open>
  Names as the sequences of types and values of their components: encoding and decoding, comparison
  as the canonical (lexicographic) order, prefixes, sub-names, the successor and the URI form.
\<close>

section \<open>The components of a name\<close>

definition name_view :: "name \<Rightarrow> (uint32 \<times> byte list) list" where
  "name_view n = map view (components n)"

definition name_ok :: "name \<Rightarrow> bool" where
  "name_ok n \<longleftrightarrow> wf_block (name_wire n) \<and> list_all component_ok (components n) \<and>
     length (tlvs_bytes (name_view n)) < 2 ^ 64 \<and> Name_size n < 2 ^ 31"

lemma length_name_view [simp]: "length (name_view n) = Name_size n"
  by (simp add: name_view_def Name_size_def)

lemma component_ok_view: "component_ok c \<Longrightarrow> wf_block c \<and> valid_tv (view c) \<and> length (value_bytes c) < 2 ^ 31"
  using ensureValid_iff [of c c] by (simp add: component_ok_def)

lemma component_okI: "wf_block c \<Longrightarrow> valid_tv (view c) \<Longrightarrow> length (value_bytes c) < 2 ^ 31 \<Longrightarrow> component_ok c"
  using ensureValid_iff [of c c] by (simp add: component_ok_def)

lemma name_ok_tlvs: "name_ok n \<Longrightarrow> tlvs_ok (name_view n)"
  by (auto simp: name_ok_def tlvs_ok_def name_view_def list_all_iff valid_tv_def view_def
      dest!: component_ok_view)

lemma components_append [simp]:
  "components (Name_append c n) = components n @ [c]"
  by (simp add: Name_append_def Block_push_back_def set_elements_def resetWire_def)

lemma name_view_append [simp]: "name_view (Name_append c n) = name_view n @ [view c]"
  by (simp add: name_view_def)

lemma name_view_default [simp]: "name_view Name_default = []"
  by (simp add: name_view_def Name_default_def Block_ofType_def)

section \<open>Encoding and decoding\<close>

lemma concat_component_tlv:
  "concat (map (\<lambda>c. tlv_bytes (m_type c) (value_bytes c)) cs) = tlvs_bytes (map view cs)"
  by (induction cs) (simp_all add: view_def)

lemma Name_wireEncode_prepends:
  assumes "list_all wf_block (components n)"
  shows "prepends (Name_wireEncode_enc n) (tlv_bytes tlv_Name (tlvs_bytes (name_view n)))"
proof -
  have "prependsFrom (map (\<lambda>c _. Component_wireEncode_enc c) (rev (components n))) 0
      (concat (map (\<lambda>c. tlv_bytes (m_type c) (value_bytes c)) (components n)))"
    using assms by (intro prependsFrom_rev_map Component_wireEncode_prepends) (simp add: list_all_iff)
  from prepends_tlv_steps [OF this, of tlv_Name] show ?thesis
    by (simp add: Name_wireEncode_enc_def concat_component_tlv name_view_def)
qed

interpretation nam: wire_encodable Name_wireEncode_enc
  "\<lambda>n. tlv_bytes tlv_Name (tlvs_bytes (name_view n))" "\<lambda>n. list_all wf_block (components n)"
  by unfold_locales (rule Name_wireEncode_prepends)

text \<open>A block that holds shortest encodings of components decodes to exactly those.\<close>

lemma parseE_tlvs:
  assumes "wf_block b" "m_elements b = []" "value_bytes b = tlvs_bytes tvs" "tlvs_ok tvs"
  obtains b' where "parseE b = Inr b'" "map view (m_elements b') = tvs" "wf_block b'"
    "view b' = view b" "wire_bytes b' = wire_bytes b" "hasWire b' = hasWire b"
    "\<And>x. x \<in> set (m_elements b') \<Longrightarrow> m_elements x = [] \<and> wf_block x \<and> hasWire x \<and> shortest x"
proof -
  obtain b' where b': "parse b = (None, b')" "map view (m_elements b') = tvs"
      "map wire_bytes (m_elements b') = map (\<lambda>(t, v). tlv_bytes t v) tvs"
      "list_all wf_block (m_elements b')" "list_all hasWire (m_elements b')"
      "\<And>x. x \<in> set (m_elements b') \<Longrightarrow> m_elements x = []" "wf_block b'"
    using parse_tlvs [OF assms] by blast
  have "map wire_bytes (m_elements b') = map (\<lambda>x. tlv_bytes (m_type x) (value_bytes x)) (m_elements b')"
    using b'(2,3) by (auto simp: view_def)
  then have "shortest x" if "x \<in> set (m_elements b')" for x
    using that by (simp add: shortest_def)
  with b' parse_same [OF b'(1)] show ?thesis
    by (intro that [of b']) (auto simp: parseE_def list_all_iff)
qed

definition fresh_name :: "(uint32 \<times> byte list) list \<Rightarrow> name \<Rightarrow> bool" where
  "fresh_name tvs n \<longleftrightarrow> name_view n = tvs \<and> wf_block (name_wire n) \<and> hasWire (name_wire n) \<and>
     m_type (name_wire n) = tlv_Name \<and> wire_bytes (name_wire n) = tlv_bytes tlv_Name (tlvs_bytes tvs) \<and>
     list_all shortest (components n)"

lemma Name_wireDecode_tlvs:
  assumes "wf_block b" "m_elements b = []" "view b = (tlv_Name, tlvs_bytes tvs)" "tlvs_ok tvs"
  obtains n where "Name_wireDecode b = Inr n" "Name_ofBlock b = Inr n" "name_view n = tvs"
    "wf_block (name_wire n)" "hasWire (name_wire n) = hasWire b" "wire_bytes (name_wire n) = wire_bytes b"
    "view (name_wire n) = view b" "list_all shortest (components n)"
proof -
  have v: "m_type b = tlv_Name" "value_bytes b = tlvs_bytes tvs" using assms(3) by (simp_all add: view_def)
  obtain b' where b': "parseE b = Inr b'" "map view (m_elements b') = tvs" "wf_block b'"
      "view b' = view b" "wire_bytes b' = wire_bytes b" "hasWire b' = hasWire b"
      "\<And>x. x \<in> set (m_elements b') \<Longrightarrow> m_elements x = [] \<and> wf_block x \<and> hasWire x \<and> shortest x"
    using parseE_tlvs [OF assms(1,2) v(2) assms(4)] by metis
  then show ?thesis
    using v(1) by (intro that [of "\<lparr>name_wire = b'\<rparr>"])
      (simp_all add: Name_wireDecode_def Name_ofBlock_def name_view_def list_all_iff)
qed

lemma Name_wireEncode_spec:
  assumes "name_ok n" "\<not> hasWire (name_wire n)"
  obtains n' where "Name_wireEncode n = Inr n'" "fresh_name (name_view n) n'"
proof -
  let ?v = "tlvs_bytes (name_view n)"
  have l: "length ?v < 2 ^ 64" and w: "list_all wf_block (components n)"
    using assms(1) by (auto simp: name_ok_def list_all_iff component_ok_def)
  have mk: "makeBlock (Name_wireEncode_enc n) = Inr (tlv_block tlv_Name ?v)"
    using Name_wireEncode_prepends [OF w] l by (intro makeBlock_tlv) simp_all
  have wf: "wf_block (tlv_block tlv_Name ?v)" using l by (intro wf_tlv_block) simp_all
  obtain b' where b': "parseE (tlv_block tlv_Name ?v) = Inr b'" "map view (m_elements b') = name_view n"
      "wf_block b'" "view b' = (tlv_Name, ?v)" "wire_bytes b' = tlv_bytes tlv_Name ?v" "hasWire b'"
      "\<And>x. x \<in> set (m_elements b') \<Longrightarrow> m_elements x = [] \<and> wf_block x \<and> hasWire x \<and> shortest x"
    using parseE_tlvs [OF wf _ _ name_ok_tlvs [OF assms(1)]] by (auto simp: tlv_block_sel)
  have "m_type b' = tlv_Name" using b'(4) by (simp add: view_def)
  with b' show ?thesis
    using assms(2) by (intro that [of "n\<lparr>name_wire := b'\<rparr>"])
      (auto simp: Name_wireEncode_def mk fresh_name_def list_all_iff name_view_def)
qed

section \<open>Accessors\<close>

lemma Name_get_nat: "i < Name_size n \<Longrightarrow> Name_get (int i) n = Inr (components n ! i)"
  by (simp add: Name_get_def)

lemma Name_at_nat: "i < Name_size n \<Longrightarrow> Name_at (int i) n = Inr (components n ! i)"
  by (simp add: Name_at_def)

lemma Name_get_last: "\<not> Name_empty n \<Longrightarrow> Name_get (-1) n = Inr (last (components n))"
proof -
  assume "\<not> Name_empty n"
  then have "components n \<noteq> []" by (simp add: Name_empty_def)
  then have "0 < Name_size n" "nat (int (Name_size n) - 1) = Name_size n - 1" by (auto simp: Name_size_def)
  then show ?thesis
    using \<open>components n \<noteq> []\<close> by (cases "components n") (auto simp: Name_get_def last_conv_nth Name_size_def)
qed

lemma subName_loop_spec:
  "i + k \<le> Name_size n \<Longrightarrow>
     \<exists>r. subName_loop k i n acc = Inr r \<and> components r = components acc @ take k (drop i (components n)) \<and>
       (wf_block (name_wire acc) \<longrightarrow> list_all wf_block (components n) \<longrightarrow> wf_block (name_wire r))"
proof (induction k arbitrary: i acc)
  case (Suc k)
  let ?c = "components n ! i"
  have i: "i < length (components n)" using Suc.prems by (simp add: Name_size_def)
  obtain r where r: "subName_loop k (Suc i) n (Name_append ?c acc) = Inr r"
      "components r = (components acc @ [?c]) @ take k (drop (Suc i) (components n))"
      "wf_block (name_wire (Name_append ?c acc)) \<longrightarrow> list_all wf_block (components n) \<longrightarrow> wf_block (name_wire r)"
    using Suc.IH [of "Suc i" "Name_append ?c acc"] Suc.prems by auto
  have "take (Suc k) (drop i (components n)) = ?c # take k (drop (Suc i) (components n))"
    using i by (simp add: Cons_nth_drop_Suc [symmetric])
  moreover have "wf_block (name_wire (Name_append ?c acc))"
    if "wf_block (name_wire acc)" "list_all wf_block (components n)"
    using that i by (simp add: Name_append_def wf_push_back list_all_length)
  ultimately show ?case
    using r i by (simp add: Name_at_nat Name_size_def)
qed auto

lemma getSubName_spec:
  assumes "Name_size n < 2 ^ 63" "i \<le> Name_size n" "unat k < 2 ^ 63"
  obtains r where "getSubName (int i) k n = Inr r" "components r = take (unat k) (drop i (components n))"
    "list_all wf_block (components n) \<Longrightarrow> wf_block (name_wire r)"
proof -
  have "unat Name_npos = 2 ^ 64 - 1"
    by (simp add: Name_npos_def unsigned_minus_1_eq_mask mask_eq_exp_minus_1)
  then have npos: "k \<noteq> Name_npos" using assms(3) by auto
  have "unat (word_of_nat i + k) = i + unat k"
    using assms by (simp add: unat_word_ariths unat_of_nat)
  then have "getSubName (int i) k n = subName_loop (min (Name_size n) (i + unat k) - i) i n Name_default"
    using npos by (simp add: getSubName_def Let_def)
  moreover obtain r where "subName_loop (min (Name_size n) (i + unat k) - i) i n Name_default = Inr r"
      "components r = take (min (Name_size n) (i + unat k) - i) (drop i (components n))"
      "list_all wf_block (components n) \<Longrightarrow> wf_block (name_wire r)"
    using subName_loop_spec [of i "min (Name_size n) (i + unat k) - i" n Name_default] assms(2)
    by (auto simp: Name_default_def Block_ofType_def)
  moreover have "take (min (Name_size n) (i + unat k) - i) (drop i (components n)) = take (unat k) (drop i (components n))"
    by (auto simp: Name_size_def min_def)
  ultimately show ?thesis using that by simp
qed

lemma getPrefix_drop_last:
  assumes "\<not> Name_empty n" "Name_size n < 2 ^ 63"
  obtains p where "getPrefix (-1) n = Inr p" "components p = butlast (components n)"
    "list_all wf_block (components n) \<Longrightarrow> wf_block (name_wire p)"
proof -
  have s: "0 < Name_size n" using assms(1) by (simp add: Name_empty_def Name_size_def)
  have w: "word_of_nat (Name_size n) + word_of_int (-1) = (word_of_nat (Name_size n - 1) :: uint64)"
    using s by (simp add: of_nat_diff)
  have u: "unat (word_of_nat (Name_size n - 1) :: uint64) = Name_size n - 1"
    using assms(2) by (intro unat_word_of_length) simp
  obtain p where "getSubName (int 0) (word_of_nat (Name_size n - 1)) n = Inr p"
      "components p = take (Name_size n - 1) (components n)"
      "list_all wf_block (components n) \<Longrightarrow> wf_block (name_wire p)"
    using getSubName_spec [OF assms(2), of 0 "word_of_nat (Name_size n - 1)"] assms(2)
    by (metis u drop_0 le0 less_imp_diff_less)
  then show ?thesis
    using w that by (simp add: getPrefix_def butlast_conv_take Name_size_def)
qed

section \<open>Equality and prefixes\<close>

lemma isPrefixOf_prefix:
  assumes "list_all wf_block (components n)" "list_all wf_block (components m)"
  shows "isPrefixOf n m \<longleftrightarrow> prefix (name_view n) (name_view m)"
proof (cases "Name_size n \<le> Name_size m")
  case True
  then have l: "length (components n) \<le> length (components m)" by (simp add: Name_size_def)
  have "isPrefixOf n m \<longleftrightarrow> (\<forall>i<length (components n). view (components n ! i) = view (components m ! i))"
    using True l assms
    by (auto simp: isPrefixOf_def list_all_length Name_size_def Component_equals_view)
  also have "\<dots> \<longleftrightarrow> name_view n = take (length (components n)) (name_view m)"
    using l by (auto simp: name_view_def list_eq_iff_nth_eq)
  also have "\<dots> \<longleftrightarrow> prefix (name_view n) (name_view m)"
    by (auto simp: prefix_def name_view_def) (metis append_take_drop_id)
  finally show ?thesis .
next
  case False
  then show ?thesis by (auto simp: isPrefixOf_def dest: prefix_length_le)
qed

lemma Name_equals_view:
  assumes "list_all wf_block (components n)" "list_all wf_block (components m)"
  shows "Name_equals n m \<longleftrightarrow> name_view n = name_view m"
proof -
  have "Name_equals n m \<longleftrightarrow> Name_size n = Name_size m \<and> isPrefixOf n m"
    by (auto simp: Name_equals_def isPrefixOf_def)
  also have "\<dots> \<longleftrightarrow> name_view n = name_view m"
    unfolding isPrefixOf_prefix [OF assms] by (metis length_name_view prefix_order.refl prefix_length_prefix prefix_order.antisym order_refl)
  finally show ?thesis .
qed

section \<open>Canonical order\<close>

definition canonical_keys :: "name \<Rightarrow> (nat \<times> nat \<times> nat) list" where
  "canonical_keys n = map canonical_key (name_view n)"

lemma canonical_keys_inject: "canonical_keys n = canonical_keys m \<longleftrightarrow> name_view n = name_view m"
  by (auto simp: canonical_keys_def inj_map_eq_map inj_def canonical_key_inject)

lemma cmp_Cons: "cmp (x # xs) (y # ys) = (if x = y then cmp xs ys else cmp x y)"
  by (auto simp: cmp_def)

lemma cmp_Nil: "cmp [] (y # ys) = -1" "cmp (x # xs) [] = 1"
  by (auto simp: cmp_def)

lemma cmp_list_take:
  "cmp xs ys = (let k = min (length xs) (length ys); c = cmp (take k xs) (take k ys)
     in if c \<noteq> 0 then c else cmp (length xs) (length ys))"
proof (induction xs ys rule: list_induct2')
  case (4 x xs y ys)
  then show ?case by (simp add: cmp_Cons Let_def) (simp add: cmp_def)
qed (simp_all add: cmp_Nil cmp_def)

lemma compare_loop_spec:
  "i + k \<le> length (components n) \<Longrightarrow> i + k \<le> length (components m) \<Longrightarrow>
   list_all (\<lambda>c. component_ok c \<and> shortest c) (components n) \<Longrightarrow>
   list_all (\<lambda>c. component_ok c \<and> shortest c) (components m) \<Longrightarrow>
     \<exists>r. compare_loop k i i n m = Inr r \<and>
       cmp r 0 = cmp (take k (drop i (canonical_keys n))) (take k (drop i (canonical_keys m)))"
proof (induction k arbitrary: i)
  case (Suc k)
  let ?c = "components n ! i" and ?d = "components m ! i"
  have i: "i < length (components n)" "i < length (components m)" using Suc.prems by simp_all
  have c: "cmp (Component_compare ?c ?d) 0 = cmp (canonical_key (view ?c)) (canonical_key (view ?d))"
    using Suc.prems i by (intro Component_compare_canonical) (simp_all add: list_all_length)
  have tk: "take (Suc k) (drop i (canonical_keys n)) =
      canonical_key (view ?c) # take k (drop (Suc i) (canonical_keys n))"
      "take (Suc k) (drop i (canonical_keys m)) =
      canonical_key (view ?d) # take k (drop (Suc i) (canonical_keys m))"
    using i by (simp_all add: canonical_keys_def name_view_def Cons_nth_drop_Suc [symmetric])
  obtain r where r: "compare_loop k (Suc i) (Suc i) n m = Inr r"
      "cmp r 0 = cmp (take k (drop (Suc i) (canonical_keys n))) (take k (drop (Suc i) (canonical_keys m)))"
    using Suc.IH [of "Suc i"] Suc.prems by auto
  show ?case
  proof (cases "Component_compare ?c ?d = 0")
    case True
    then have "canonical_key (view ?c) = canonical_key (view ?d)" using c by (simp add: cmp_simps(1))
    then show ?thesis using True r i by (simp add: tk cmp_Cons Name_get_nat Name_size_def Let_def)
  next
    case False
    then have "canonical_key (view ?c) \<noteq> canonical_key (view ?d)" using c by auto
    then show ?thesis using False c i by (simp add: tk cmp_Cons Name_get_nat Name_size_def Let_def)
  qed
qed simp

definition name_canon :: "name \<Rightarrow> bool" where
  "name_canon n \<longleftrightarrow> name_ok n \<and> list_all shortest (components n)"

lemma ucast_diff_32:
  "(ucast (word_of_nat a - word_of_nat b :: uint64) :: 32 word) = word_of_int (int a - int b)"
proof -
  have "(word_of_nat a - word_of_nat b :: uint64) = word_of_int (int a - int b)" by simp
  then have "(ucast (word_of_nat a - word_of_nat b :: uint64) :: 32 word) =
      word_of_int (take_bit 64 (int a - int b))"
    by (simp only: unsigned_of_int) simp
  then show ?thesis
    by (simp add: word_of_int_eq_iff take_bit_take_bit del: of_int_diff)
qed

lemma Name_compare_spec:
  assumes "name_canon n" "name_canon m"
  obtains r where "Name_compare n m = Inr r" "cmp r 0 = cmp (canonical_keys n) (canonical_keys m)"
proof -
  let ?a = "Name_size n" and ?b = "Name_size m"
  have sz: "?a < 2 ^ 31" "?b < 2 ^ 31" using assms by (simp_all add: name_canon_def name_ok_def)
  have u: "unat (word_of_nat ?a :: uint64) = ?a" "unat (word_of_nat ?b :: uint64) = ?b"
    using sz by (auto intro!: unat_word_of_length)
  have top: "min Name_npos (w :: uint64) = w" for w
    unfolding Name_npos_def by (rule min_absorb2) (rule word_order.extremum)
  have cnt: "unat (min (word_of_nat ?a) (word_of_nat ?b) :: uint64) = min ?a ?b"
    by (simp add: min_def word_le_nat_alt u)
  obtain r where r: "compare_loop (min ?a ?b) 0 0 n m = Inr r"
      "cmp r 0 = cmp (take (min ?a ?b) (canonical_keys n)) (take (min ?a ?b) (canonical_keys m))"
    using compare_loop_spec [of 0 "min ?a ?b" n m] assms
    by (auto simp: name_canon_def name_ok_def list_all_iff Name_size_def)
  have s: "sint (ucast (word_of_nat ?a - word_of_nat ?b :: uint64) :: 32 word) = int ?a - int ?b"
    unfolding ucast_diff_32 using sz by (intro sint_word_of_int32) auto
  have cmpr: "Name_compare n m = Inr (if r \<noteq> 0 then r else int ?a - int ?b)"
    by (simp add: Name_compare_def Name_compare_range_def Let_def top cnt r(1) s)
  have keys: "length (canonical_keys n) = ?a" "length (canonical_keys m) = ?b"
    by (simp_all add: canonical_keys_def)
  have "cmp (canonical_keys n) (canonical_keys m) = (if cmp r 0 \<noteq> 0 then cmp r 0 else cmp ?a ?b)"
    using cmp_list_take [of "canonical_keys n" "canonical_keys m"] by (simp only: Let_def keys r(2))
  moreover have "cmp (int ?a - int ?b) 0 = cmp ?a ?b" by (simp add: cmp_def)
  ultimately show ?thesis
    by (intro that [OF cmpr]) (auto simp: cmp_simps(2))
qed

section \<open>Successor\<close>

lemma lex_successor:
  "P @ [k] < M \<Longrightarrow> \<not> prefix (P @ [k]) M \<Longrightarrow> (\<And>x. x \<in> set M \<Longrightarrow> k < x \<Longrightarrow> k' \<le> x) \<Longrightarrow> P @ [k'] \<le> (M :: 'a::linorder list)"
proof (induction P arbitrary: M)
  case Nil
  then obtain x xs where M: "M = x # xs" by (cases M) auto
  with Nil have "k < x" by auto
  then have "k' \<le> x" using Nil.prems(3) M by simp
  then show ?case by (cases xs) (auto simp: M order_le_less)
next
  case (Cons p P)
  then obtain x xs where M: "M = x # xs" by (cases M) auto
  with Cons.prems have "p < x \<or> p = x \<and> P @ [k] < xs \<and> \<not> prefix (P @ [k]) xs" by auto
  then show ?case using Cons.IH [of xs] Cons.prems(3) by (auto simp: M)
qed

lemma Name_getSuccessor_spec:
  assumes "name_ok n" "\<not> Name_empty n"
  obtains s where "Name_getSuccessor n = Inr s"
    "name_view s = butlast (name_view n) @ [successor_tv (last (name_view n))]"
    "wf_block (name_wire s)"
proof -
  let ?c = "last (components n)"
  have ne: "components n \<noteq> []" using assms(2) by (simp add: Name_empty_def)
  have wf: "list_all wf_block (components n)" using assms(1) by (auto simp: name_ok_def list_all_iff component_ok_def)
  have ok: "component_ok ?c" using assms(1) ne by (simp add: name_ok_def list_all_iff)
  obtain p where p: "getPrefix (-1) n = Inr p" "components p = butlast (components n)" "wf_block (name_wire p)"
    using getPrefix_drop_last [OF assms(2)] assms(1) wf by (auto simp: name_ok_def)
  obtain s where s: "Component_getSuccessor ?c = Inr s" "wf_block s" "view s = successor_tv (view ?c)"
    using Component_getSuccessor_spec [of ?c] component_ok_view [OF ok] by auto
  have "Name_getSuccessor n = Inr (Name_append s p)"
    using assms(2) p s by (simp add: Name_getSuccessor_def Name_get_last)
  moreover have "name_view (Name_append s p) = butlast (name_view n) @ [successor_tv (last (name_view n))]"
    using p s ne by (simp add: name_view_def map_butlast last_map)
  moreover have "wf_block (name_wire (Name_append s p))"
    using p s by (simp add: Name_append_def wf_push_back)
  ultimately show ?thesis by (rule that)
qed

lemma Name_getSuccessor_greater:
  assumes "name_ok n" "\<not> Name_empty n" "name_view s = butlast (name_view n) @ [successor_tv (last (name_view n))]"
  shows "canonical_keys n < canonical_keys s"
proof -
  have ne: "name_view n \<noteq> []" using assms(2) by (simp add: Name_empty_def name_view_def)
  have "valid_tv (last (name_view n))"
    using assms(1) ne by (auto simp: name_ok_def name_view_def last_map list_all_iff dest!: component_ok_view)
  then have "canonical_key (last (name_view n)) < canonical_key (last (name_view s))"
    using successor_tv_greater assms(3) by simp
  moreover have "xs @ [a] < xs @ [b]" if "a < b" for xs :: "(nat \<times> nat \<times> nat) list" and a b
    using that by (induction xs) auto
  moreover have "canonical_keys n = map canonical_key (butlast (name_view n)) @ [canonical_key (last (name_view n))]"
    unfolding canonical_keys_def using ne by (metis append_butlast_last_id map_append list.map(1,2))
  ultimately show ?thesis by (simp add: canonical_keys_def assms(3))
qed

lemma Name_getSuccessor_least:
  assumes "name_ok n" "\<not> Name_empty n" "name_view s = butlast (name_view n) @ [successor_tv (last (name_view n))]"
    and m: "name_ok m" "canonical_keys n < canonical_keys m" "\<not> isPrefixOf n m"
  shows "canonical_keys s \<le> canonical_keys m"
proof -
  let ?l = "last (name_view n)" and ?P = "map canonical_key (butlast (name_view n))"
  have ne: "name_view n \<noteq> []" using assms(2) by (simp add: Name_empty_def name_view_def)
  have wf: "list_all wf_block (components n)" "list_all wf_block (components m)"
    using assms(1) m(1) by (auto simp: name_ok_def list_all_iff component_ok_def)
  have keys: "canonical_keys n = ?P @ [canonical_key ?l]"
    unfolding canonical_keys_def using ne by (metis append_butlast_last_id map_append list.map(1,2))
  have np: "\<not> prefix (canonical_keys n) (canonical_keys m)"
  proof
    assume "prefix (canonical_keys n) (canonical_keys m)"
    then have "map canonical_key (name_view n) = map canonical_key (take (length (name_view n)) (name_view m))"
      by (auto simp: canonical_keys_def prefix_def simp flip: take_map)
    then have "name_view n = take (length (name_view n)) (name_view m)"
      by (rule map_injective) (simp add: inj_def canonical_key_inject)
    then have "prefix (name_view n) (name_view m)" by (metis take_is_prefix)
    then show False using m(3) isPrefixOf_prefix [OF wf] by simp
  qed
  have "canonical_key (successor_tv ?l) \<le> x" if x: "x \<in> set (canonical_keys m)" "canonical_key ?l < x" for x
  proof -
    obtain tv where tv: "tv \<in> set (name_view m)" "x = canonical_key tv"
      using x(1) unfolding canonical_keys_def set_map by blast
    have "valid_tv tv" using tv m(1)
      by (auto simp: name_ok_def name_view_def list_all_iff dest!: component_ok_view)
    moreover have "valid_tv ?l"
      using assms(1) ne by (auto simp: name_ok_def name_view_def last_map list_all_iff dest!: component_ok_view)
    ultimately show ?thesis using successor_tv_least x tv by simp
  qed
  with m(2) np have "?P @ [canonical_key (successor_tv ?l)] \<le> canonical_keys m"
    unfolding keys by (intro lex_successor)
  then show ?thesis by (simp add: canonical_keys_def assms(3))
qed

end
