(* ===== verification/NameUri.thy ===== *)
theory NameUri
  imports NameProps
begin

text \<open>
  The URI of a name, in any format, read back by \<open>Name(std::string)\<close>.
\<close>

section \<open>Characters of a component's URI\<close>

definition uri_safe :: "string \<Rightarrow> bool" where
  "uri_safe s \<longleftrightarrow> s \<noteq> [] \<and> CHR ''/'' \<notin> set s \<and> CHR '':'' \<notin> set s"

lemma toHexChar_safe: "toHexChar n up \<noteq> CHR ''/''" "toHexChar n up \<noteq> CHR '':''"
proof -
  have "toHexChar n True \<in> set ''0123456789ABCDEF''" "toHexChar n False \<in> set ''0123456789abcdef''"
    unfolding toHexChar_def by (simp_all only: if_True if_False) (intro nth_mem; simp)+
  then show "toHexChar n up \<noteq> CHR ''/''" "toHexChar n up \<noteq> CHR '':''" by (cases up; auto)+
qed

lemma slash_colon_reserved: "\<not> isUnreserved CHR ''/''" "\<not> isUnreserved CHR '':''"
  by (simp_all add: isUnreserved_def char_le_def byte_of_def)

lemma escape_safe: "CHR ''/'' \<notin> set (escape v) \<and> CHR '':'' \<notin> set (escape v)"
  using slash_colon_reserved toHexChar_safe [THEN not_sym] by (induction v) auto

lemma escape_not_Nil: "v \<noteq> [] \<Longrightarrow> escape v \<noteq> []"
  by (cases v) auto

lemma writeUriEscapedValue_safe: "uri_safe (writeUriEscapedValue c)"
  using escape_safe [of "value_bytes c"] escape_not_Nil [of "value_bytes c"]
  by (cases "value_bytes c = []") (auto simp: uri_safe_def writeUriEscapedValue_def)

lemma isDigitChar_safe: "isDigitChar c \<Longrightarrow> c \<noteq> CHR ''/'' \<and> c \<noteq> CHR '':''"
  by (auto simp: isDigitChar_def byte_of_def)

lemma to_string_safe: "uri_safe (to_string n)"
  using to_string_digits [of n] isDigitChar_safe by (auto simp: uri_safe_def list_all_iff)

lemma uri_safe_join: "uri_safe a \<Longrightarrow> uri_safe b \<Longrightarrow> uri_safe (a @ ''='' @ b)"
  by (auto simp: uri_safe_def)

lemma hex_digits_safe:
  "c \<in> set ''0123456789ABCDEF'' \<union> set ''0123456789abcdef'' \<Longrightarrow> CHR ''/'' \<noteq> c \<and> CHR '':'' \<noteq> c"
  by auto

lemma hexText_safe: "CHR ''/'' \<notin> set (hexText up v) \<and> CHR '':'' \<notin> set (hexText up v)"
proof -
  have "char_of_byte (H2C up n) \<in> set ''0123456789ABCDEF'' \<union> set ''0123456789abcdef''" if "n < 16" for n
  proof -
    have "char_of_byte (H2C up n) = (if up then ''0123456789ABCDEF'' else ''0123456789abcdef'') ! n"
      using that by (simp add: H2C_def bytes_of_def)
    also have "\<dots> \<in> set (if up then ''0123456789ABCDEF'' else ''0123456789abcdef'')"
      using that by (intro nth_mem) simp
    finally show ?thesis by (auto split: if_splits)
  qed
  then have h: "CHR ''/'' \<noteq> char_of_byte (H2C up (k mod 16)) \<and> CHR '':'' \<noteq> char_of_byte (H2C up (k mod 16))" for k
    by (intro hex_digits_safe) simp
  then show ?thesis
    by (simp add: hexText_eq string_of_def HexEncode_toHex_def image_iff)
qed

lemma alt_prefix_safe: "p \<in> set alt_prefixes \<Longrightarrow> uri_safe p"
  by (auto simp: alt_prefixes_def uri_safe_def)

lemma base_uri_safe: "uri_safe (ComponentType_writeUri_base c)"
  unfolding ComponentType_writeUri_base_def
  by (intro uri_safe_join to_string_safe writeUriEscapedValue_safe)

lemma writeUri_safe:
  assumes "writeUri (ComponentTypeTable_get (m_type c)) c = Inr s"
  shows "uri_safe s"
proof (cases rule: table_cases [of "m_type c"])
  case (decimal n p)
  then show ?thesis
    using assms uri_safe_join [OF alt_prefix_safe to_string_safe] base_uri_safe
    by (auto simp: bindE_eq_Inr split: if_splits)
qed (use assms base_uri_safe writeUriEscapedValue_safe hexText_safe in
    \<open>auto simp: getComponentType1_def getComponentType2_def uri_safe_def\<close>)

lemma Component_uri_round_trip:
  assumes "component_ok c" "shortest_number c"
  obtains s d where "Component_toUri env format c = Inr s" "uri_safe s" "fromEscapedString s = Inr d"
    "wf_block d" "view d = view c"
proof -
  have v: "wf_block c" "valid_tv (view c)" "length (value_bytes c) < 2 ^ 64"
    using component_ok_view [OF assms(1)] by auto
  show ?thesis
  proof (cases "wantAltUri env format")
    case True
    then show ?thesis
      using that fromEscapedString_writeUri [OF v assms(2)] writeUri_safe [of c]
      by (auto simp: Component_toUri_def)
  next
    case False
    have "m_type c \<noteq> 0" using v(2) by (auto simp: valid_tv_def)
    then have "wf_block (tlv_block (m_type c) (value_bytes c))" using v(3) by (rule wf_tlv_block)
    then show ?thesis
      using False that fromEscapedString_canonical [OF v(2,3)] base_uri_safe [of c]
      by (simp add: Component_toUri_def view_def)
  qed
qed

section \<open>Names\<close>

definition slashed :: "string list \<Rightarrow> string" where
  "slashed us = concat (map (\<lambda>u. ''/'' @ u) us)"

lemma Name_uri_loop_step:
  assumes "uri_safe u" "fromEscapedString u = Inr c"
  shows "Name_uri_loop (u @ slashed us) n = Name_uri_loop (drop 1 (slashed us)) (Name_append c n)"
proof -
  have "takeWhile (\<lambda>c. c \<noteq> CHR ''/'') (u @ slashed us) = u"
    using assms(1) by (cases us) (auto simp: uri_safe_def slashed_def takeWhile_append takeWhile_eq_all_conv)
  then show ?thesis
    using assms by (subst Name_uri_loop.simps) (simp add: uri_safe_def Let_def drop_append)
qed

lemma Name_uri_loop_slashed:
  "list_all2 (\<lambda>u c. uri_safe u \<and> (\<exists>d. fromEscapedString u = Inr d \<and> wf_block d \<and> view d = view c)) us cs \<Longrightarrow>
     \<exists>n'. Name_uri_loop (drop 1 (slashed us)) n = Inr n' \<and> name_view n' = name_view n @ map view cs \<and>
       (list_all wf_block (components n) \<longrightarrow> list_all wf_block (components n'))"
proof (induction us arbitrary: cs n)
  case Nil
  then show ?case by (subst Name_uri_loop.simps) (simp add: slashed_def)
next
  case (Cons u us)
  then obtain c cs' d where c: "cs = c # cs'" "uri_safe u" "fromEscapedString u = Inr d" "wf_block d" "view d = view c"
      "list_all2 (\<lambda>u c. uri_safe u \<and> (\<exists>d. fromEscapedString u = Inr d \<and> wf_block d \<and> view d = view c)) us cs'"
    by (auto simp: list_all2_Cons1)
  have "drop 1 (slashed (u # us)) = u @ slashed us" by (simp add: slashed_def)
  then show ?case
    using Name_uri_loop_step [OF c(2,3), of us n] Cons.IH [OF c(6), of "Name_append d n"] c by simp
qed

lemma Name_uri_components_slashed:
  assumes "list_all (\<lambda>c. component_ok c \<and> shortest_number c) cs"
  shows "\<exists>us. Name_uri_components env format cs = Inr (slashed us) \<and>
    list_all2 (\<lambda>u c. uri_safe u \<and> (\<exists>d. fromEscapedString u = Inr d \<and> wf_block d \<and> view d = view c)) us cs"
  using assms
proof (induction cs)
  case Nil
  then show ?case by (intro exI [of _ "[]"]) (simp add: slashed_def)
next
  case (Cons c cs)
  then obtain us where us: "Name_uri_components env format cs = Inr (slashed us)"
      "list_all2 (\<lambda>u c. uri_safe u \<and> (\<exists>d. fromEscapedString u = Inr d \<and> wf_block d \<and> view d = view c)) us cs"
    by auto
  obtain s d where "Component_toUri env format c = Inr s" "uri_safe s" "fromEscapedString s = Inr d"
      "wf_block d" "view d = view c"
    using Component_uri_round_trip [of c env format] Cons.prems by auto
  with us show ?case
    by (intro exI [of _ "s # us"]) (auto simp: slashed_def)
qed

lemma slashed_no_colon: "list_all uri_safe us \<Longrightarrow> CHR '':'' \<notin> set (slashed us)"
  by (auto simp: slashed_def uri_safe_def list_all_iff)

lemma stripScheme_no_colon: "CHR '':'' \<notin> set s \<Longrightarrow> stripScheme s = s"
proof -
  assume "CHR '':'' \<notin> set s"
  then have t: "takeWhile (\<lambda>x. x \<noteq> CHR '':'') s = s" by (auto simp: takeWhile_eq_all_conv)
  have "uri_find CHR '':'' 0 s = None" by (simp only: uri_find_def drop_0 t Let_def) simp
  then show ?thesis by (simp add: stripScheme_def)
qed

lemma Name_ofUri_slashed:
  assumes "list_all uri_safe us" "us \<noteq> []"
  shows "Name_ofUri (slashed us) = Name_uri_loop (drop 1 (slashed us)) \<lparr>name_wire = Block_default\<rparr>"
proof -
  obtain u us' where us: "us = u # us'" using assms(2) by (cases us) auto
  obtain x xs where u: "u = x # xs" "x \<noteq> CHR ''/''" using assms(1) by (cases u) (auto simp: us uri_safe_def)
  have "stripScheme (slashed us) = slashed us"
    using assms(1) by (intro stripScheme_no_colon slashed_no_colon)
  then show ?thesis using u by (simp add: Name_ofUri_def us slashed_def)
qed

lemma Name_uri_round_trip:
  assumes "list_all component_ok (components n)" "list_all shortest_number (components n)"
  shows "\<exists>s m. Name_toUri env format n = Inr s \<and> Name_ofUri s = Inr m \<and> name_view m = name_view n"
proof (cases "Name_empty n")
  case True
  have "Name_ofUri ''/'' = Inr \<lparr>name_wire = Block_default\<rparr>"
    by (simp add: Name_ofUri_def stripScheme_no_colon Name_uri_loop.simps)
  then show ?thesis
    using True by (simp add: Name_toUri_def Name_empty_def name_view_def Block_default_def)
next
  case False
  obtain us where us: "Name_uri_components env format (components n) = Inr (slashed us)"
      "list_all2 (\<lambda>u c. uri_safe u \<and> (\<exists>d. fromEscapedString u = Inr d \<and> wf_block d \<and> view d = view c)) us (components n)"
    using Name_uri_components_slashed [of "components n" env format] assms by (auto simp: list_all_iff)
  have safe: "list_all uri_safe us" "us \<noteq> []"
    using us(2) False by (auto simp: list_all2_conv_all_nth list_all_length Name_empty_def)
  obtain m where "Name_uri_loop (drop 1 (slashed us)) \<lparr>name_wire = Block_default\<rparr> = Inr m"
      "name_view m = name_view \<lparr>name_wire = Block_default\<rparr> @ map view (components n)"
    using Name_uri_loop_slashed [OF us(2), of "\<lparr>name_wire = Block_default\<rparr>"] by blast
  then show ?thesis
    using False us(1) Name_ofUri_slashed [OF safe]
    by (simp add: Name_toUri_def name_view_def Block_default_def)
qed

section \<open>Properties of names\<close>

lemma name_ok_wf: "name_ok n \<Longrightarrow> list_all wf_block (components n)"
  by (auto simp: name_ok_def component_ok_def list_all_iff)

text \<open>
  C7: Encoding a name and decoding the bytes, whatever follows them, gives an equal name: the same
  components in the same order, and the encoded name caches exactly those bytes.
\<close>

theorem name_wire_round_trip:
  assumes "name_ok n" "\<not> hasWire (name_wire n)"
  shows "\<exists>n' b m. Name_wireEncode n = Inr n' \<and> Name_equals n' n \<and>
    Block_fromSpan (wire_bytes (name_wire n') @ rest) = Inr b \<and> Name_wireDecode b = Inr m \<and>
    Name_equals m n \<and> wire_bytes (name_wire m) = wire_bytes (name_wire n')"
proof -
  obtain n' where n': "Name_wireEncode n = Inr n'" "fresh_name (name_view n) n'"
    by (rule Name_wireEncode_spec [OF assms])
  let ?v = "tlvs_bytes (name_view n)"
  have len: "length ?v < 2 ^ 64" using assms(1) by (simp add: name_ok_def)
  have w: "wire_bytes (name_wire n') = tlv_bytes tlv_Name ?v" using n'(2) by (simp add: fresh_name_def)
  have b: "Block_fromSpan (tlv_bytes tlv_Name ?v @ rest) = Inr (tlv_block tlv_Name ?v)"
    using Block_fromSpan_tlv [OF is_tlv_bytes [OF _ len, of tlv_Name], of rest]
    by (simp add: tlv_block_def Let_def)
  obtain m where m: "Name_wireDecode (tlv_block tlv_Name ?v) = Inr m" "name_view m = name_view n"
    "wf_block (name_wire m)" "wire_bytes (name_wire m) = wire_bytes (tlv_block tlv_Name ?v)"
    by (rule Name_wireDecode_tlvs [of "tlv_block tlv_Name ?v" "name_view n"])
      (use len name_ok_tlvs [OF assms(1)] in \<open>simp_all add: wf_tlv_block\<close>)
  have "list_all wf_block (components n')" "list_all wf_block (components m)"
    using n'(2) m(3) wf_elements by (simp_all add: fresh_name_def)
  then have "Name_equals n' n" "Name_equals m n"
    using Name_equals_view name_ok_wf [OF assms(1)] m(2) n'(2) by (simp_all add: fresh_name_def)
  with n'(1) w b m(1,4) show ?thesis by auto
qed

theorem name_wire_round_trip_witness:
  "\<exists>n' b m. Name_wireEncode (Name_append (tlv_block 8 [65]) Name_default) = Inr n' \<and>
    Name_equals n' (Name_append (tlv_block 8 [65]) Name_default) \<and>
    Block_fromSpan (wire_bytes (name_wire n') @ [1, 2]) = Inr b \<and> Name_wireDecode b = Inr m \<and>
    Name_equals m (Name_append (tlv_block 8 [65]) Name_default) \<and>
    wire_bytes (name_wire m) = wire_bytes (name_wire n')"
  by (rule name_wire_round_trip; code_simp)

text \<open>
  C3: \<open>Name::compare\<close> orders names lexicographically by the canonical order of their components, a
  proper prefix first, and is 0 exactly for names that are equal; it never throws.
\<close>

theorem name_compare_lexicographic:
  assumes "name_canon n" "name_canon m"
  shows "\<exists>r. Name_compare n m = Inr r \<and> cmp r 0 = cmp (canonical_keys n) (canonical_keys m) \<and>
    (r = 0 \<longleftrightarrow> Name_equals n m)"
proof -
  obtain r where r: "Name_compare n m = Inr r" "cmp r 0 = cmp (canonical_keys n) (canonical_keys m)"
    by (rule Name_compare_spec [OF assms])
  have "r = 0 \<longleftrightarrow> cmp r 0 = 0" by simp
  also have "\<dots> \<longleftrightarrow> name_view n = name_view m" by (simp only: r(2) cmp_simps canonical_keys_inject)
  also have "\<dots> \<longleftrightarrow> Name_equals n m"
    using assms name_ok_wf by (simp add: Name_equals_view name_canon_def)
  finally show ?thesis using r by blast
qed

theorem name_compare_lexicographic_witness:
  "\<exists>r. Name_compare (Name_append (tlv_block 8 [65]) Name_default)
      (Name_append (tlv_block 8 [66]) (Name_append (tlv_block 8 [65]) Name_default)) = Inr r \<and>
    cmp r 0 = cmp (canonical_keys (Name_append (tlv_block 8 [65]) Name_default))
      (canonical_keys (Name_append (tlv_block 8 [66]) (Name_append (tlv_block 8 [65]) Name_default))) \<and>
    (r = 0 \<longleftrightarrow> Name_equals (Name_append (tlv_block 8 [65]) Name_default)
      (Name_append (tlv_block 8 [66]) (Name_append (tlv_block 8 [65]) Name_default)))"
  by (rule name_compare_lexicographic; code_simp)

text \<open>
  C4: \<open>Name::getSuccessor\<close> of a non-empty name is the least name above the whole subtree: it is
  greater than the name, and no name in between fails to have the original name as a prefix.
\<close>

theorem name_getSuccessor_least:
  assumes "name_ok n" "\<not> Name_empty n"
  shows "\<exists>s. Name_getSuccessor n = Inr s \<and> Name_size s = Name_size n \<and> canonical_keys n < canonical_keys s \<and>
    (\<forall>m. name_ok m \<longrightarrow> canonical_keys n < canonical_keys m \<longrightarrow> \<not> isPrefixOf n m \<longrightarrow>
       canonical_keys s \<le> canonical_keys m)"
proof -
  obtain s where s: "Name_getSuccessor n = Inr s"
    "name_view s = butlast (name_view n) @ [successor_tv (last (name_view n))]"
    by (rule Name_getSuccessor_spec [OF assms])
  have "length (name_view s) = length (name_view n)"
    using assms(2) s(2) by (cases "name_view n") (auto simp: Name_empty_def name_view_def)
  then have "Name_size s = Name_size n" by (simp only: length_name_view)
  with s(1) Name_getSuccessor_greater [OF assms s(2)] Name_getSuccessor_least [OF assms s(2)] show ?thesis
    by auto
qed

theorem name_getSuccessor_least_witness:
  "\<exists>s. Name_getSuccessor (Name_append (tlv_block 8 [65]) Name_default) = Inr s \<and>
    Name_size s = Name_size (Name_append (tlv_block 8 [65]) Name_default) \<and>
    canonical_keys (Name_append (tlv_block 8 [65]) Name_default) < canonical_keys s \<and>
    (\<forall>m. name_ok m \<longrightarrow> canonical_keys (Name_append (tlv_block 8 [65]) Name_default) < canonical_keys m \<longrightarrow>
       \<not> isPrefixOf (Name_append (tlv_block 8 [65]) Name_default) m \<longrightarrow> canonical_keys s \<le> canonical_keys m)"
  by (rule name_getSuccessor_least; code_simp)

text \<open>
  C8: Printing a name as a URI, in any format, and parsing the URI gives a name with the same
  components, for names of valid components whose numbers, where a type prints one, are shortest.
\<close>

theorem name_uri_round_trip:
  assumes "name_ok n" "list_all shortest_number (components n)"
  shows "\<exists>s m. Name_toUri env format n = Inr s \<and> Name_ofUri s = Inr m \<and> name_view m = name_view n"
  using Name_uri_round_trip [of n env format] assms by (simp add: name_ok_def)

theorem name_uri_round_trip_witness:
  "\<exists>s m. Name_toUri None ALTERNATE (Name_append (tlv_block 54 [7]) (Name_append (tlv_block 8 [47, 65]) Name_default)) = Inr s \<and>
    Name_ofUri s = Inr m \<and>
    name_view m = name_view (Name_append (tlv_block 54 [7]) (Name_append (tlv_block 8 [47, 65]) Name_default))"
  by (rule name_uri_round_trip; code_simp)

text \<open>
  \<open>isPrefixOf\<close> and \<open>operator==\<close> of names are prefix and equality of the sequences of components,
  by type and value, whatever wires the names cache.
\<close>

theorem name_prefix_equality:
  assumes "name_ok n" "name_ok m"
  shows "(isPrefixOf n m \<longleftrightarrow> prefix (name_view n) (name_view m)) \<and> (Name_equals n m \<longleftrightarrow> name_view n = name_view m)"
  using assms by (simp add: isPrefixOf_prefix Name_equals_view name_ok_wf)

theorem name_prefix_equality_witness:
  "(isPrefixOf (Name_append (tlv_block 8 [65]) Name_default)
      (Name_append (tlv_block 8 [66]) (Name_append (Block_ofValue 8 [65]) Name_default)) \<longleftrightarrow>
    prefix [(8, [65])] [(8, [65]), (8, [66])])"
proof -
  let ?n = "Name_append (tlv_block 8 [65]) Name_default"
  let ?m = "Name_append (tlv_block 8 [66]) (Name_append (Block_ofValue 8 [65]) Name_default)"
  have "name_ok ?n" "name_ok ?m" by (code_simp, code_simp)
  from name_prefix_equality [OF this] show ?thesis by simp
qed

text \<open>
  \<open>getSubName(i, k)\<close> with \<open>i\<close> not after the end returns the \<open>k\<close> components from the \<open>i\<close>-th on, fewer
  at the end of the name, and \<open>getPrefix(-1)\<close> drops the last component.
\<close>

theorem name_getSubName:
  assumes "name_ok n" "i \<le> Name_size n" "unat k < 2 ^ 63" "\<not> Name_empty n"
  shows "\<exists>r p. getSubName (int i) k n = Inr r \<and> components r = take (unat k) (drop i (components n)) \<and>
    getPrefix (-1) n = Inr p \<and> components p = butlast (components n)"
proof -
  have sz: "Name_size n < 2 ^ 63" using assms(1) by (simp add: name_ok_def)
  from getSubName_spec [OF this assms(2,3)] getPrefix_drop_last [OF assms(4) sz] show ?thesis by metis
qed

theorem name_getSubName_witness:
  "\<exists>r p. getSubName (int 1) 5 (Name_append (tlv_block 8 [66]) (Name_append (tlv_block 8 [65]) Name_default)) = Inr r \<and>
    components r = take (unat (5 :: uint64)) (drop 1 (components (Name_append (tlv_block 8 [66]) (Name_append (tlv_block 8 [65]) Name_default)))) \<and>
    getPrefix (-1) (Name_append (tlv_block 8 [66]) (Name_append (tlv_block 8 [65]) Name_default)) = Inr p \<and>
    components p = butlast (components (Name_append (tlv_block 8 [66]) (Name_append (tlv_block 8 [65]) Name_default)))"
  by (rule name_getSubName; code_simp)

text \<open>
  \<open>getPrefix\<close> with a negative count beyond the size of the name does not give the empty name or
  an error: the count wraps around and the whole name is returned.
\<close>

theorem getPrefix_wraps:
  assumes "name_ok n" "Name_size n < k" "k < 2 ^ 63"
  shows "\<exists>p. getPrefix (- int k) n = Inr p \<and> components p = components n"
proof -
  let ?x = "int (Name_size n) - int k"
  let ?w = "word_of_nat (Name_size n) + word_of_int (- int k) :: uint64"
  have "?w = word_of_int ?x" by simp
  then have "int (unat ?w) = ?x mod 2 ^ 64" by (simp only: uint_word_of_int flip: uint_nat) simp
  also have "\<dots> = (?x + 2 ^ 64) mod 2 ^ 64" by (simp only: mod_add_self2)
  also have "\<dots> = ?x + 2 ^ 64" using assms(2,3) by (intro mod_pos_pos_trivial) auto
  finally have "int (unat ?w) = ?x + 2 ^ 64" .
  moreover have "int k < 2 ^ 63" using assms(3) by simp
  moreover have "Name_size n \<le> u" if "int u = ?x + 2 ^ 64" "int k < 2 ^ 63" for u using that by simp
  ultimately have "Name_size n \<le> unat ?w" by blast
  then have "getPrefix (- int k) n = subName_loop (Name_size n) 0 n Name_default"
    using assms(2) by (simp add: getPrefix_def getSubName_def Let_def min_def)
  then show ?thesis using subName_loop_spec [of 0 "Name_size n" n Name_default]
    by (auto simp: Name_default_def Name_size_def Block_ofType_def)
qed

theorem getPrefix_wraps_witness:
  "\<exists>p. getPrefix (- int 2) (Name_append (tlv_block 8 [65]) Name_default) = Inr p \<and>
     components p = components (Name_append (tlv_block 8 [65]) Name_default)"
  by (rule getPrefix_wraps; code_simp)

end
