(* ===== verification/PacketCodec.thy ===== *)
theory PacketCodec
  imports NameProps
begin

text \<open>
  What the packet classes share: walking the sub-elements of a parsed block, and the locale
  \<open>packet_codec\<close>, the contract of a class whose \<open>wireEncode\<close> writes a sequence of elements and whose
  \<open>wireDecode\<close> reads them.
\<close>

section \<open>Walking sub-elements\<close>

text \<open>\<open>if (val != end && val->type() == t) ... ++val\<close>\<close>

fun takeType :: "uint32 \<Rightarrow> block list \<Rightarrow> block option \<times> block list" where
  "takeType t [] = (None, [])"
| "takeType t (x # xs) = (if m_type x = t then (Some x, xs) else (None, x # xs))"

section \<open>Blocks written out\<close>

lemma block_out_shortest: "shortest b \<Longrightarrow> block_out b = tlv_bytes (m_type b) (value_bytes b)"
  by (simp add: block_out_def shortest_def)

lemma concat_block_out:
  "list_all shortest bs \<Longrightarrow> concat (map block_out bs) = tlvs_bytes (map view bs)"
  by (induction bs) (simp_all add: block_out_shortest view_def)

section \<open>Sequences of elements written out\<close>

text \<open>
  Steps that prepend, last to first, the elements \<open>tvs\<close>.  The rules in \<open>prepends_rules\<close> follow the way a
  \<open>wireEncode\<close> is put together, so that its elements are found by applying them.
\<close>

named_theorems prepends_rules

definition prependsTlv :: "(nat \<Rightarrow> enc_op) list \<Rightarrow> (uint32 \<times> byte list) list \<Rightarrow> bool" where
  "prependsTlv ss tvs \<longleftrightarrow> (\<forall>n. prependsFrom ss n (tlvs_bytes tvs))"

lemma prependsTlv_Nil [prepends_rules]: "prependsTlv [] []"
  by (simp add: prependsTlv_def prependsFrom_Nil)

lemma prependsTlv_append [prepends_rules]:
  "prependsTlv ss a \<Longrightarrow> prependsTlv ts b \<Longrightarrow> prependsTlv (ss @ ts) (b @ a)"
  by (simp add: prependsTlv_def prependsFrom_append)

lemma prependsTlv_Cons:
  "prepends f (tlv_bytes t v) \<Longrightarrow> prependsTlv ts b \<Longrightarrow> prependsTlv ((\<lambda>_. f) # ts) (b @ [(t, v)])"
  using prependsTlv_append [of "[\<lambda>_. f]" "[(t, v)]" ts b]
  by (simp add: prependsTlv_def prependsFrom_single)

lemma prependsTlv_single [prepends_rules]: "prepends f (tlv_bytes t v) \<Longrightarrow> prependsTlv [\<lambda>_. f] [(t, v)]"
  using prependsTlv_Cons [of f t v "[]" "[]"] by (simp add: prependsTlv_Nil)

lemma prependsTlv_if [prepends_rules]:
  "(c \<Longrightarrow> prependsTlv ss a) \<Longrightarrow> (\<not> c \<Longrightarrow> prependsTlv ts b) \<Longrightarrow>
     prependsTlv (if c then ss else ts) (if c then a else b)"
  by simp

lemma prependsTlv_option [prepends_rules]:
  "(m = None \<Longrightarrow> prependsTlv ss a) \<Longrightarrow> (\<And>x. m = Some x \<Longrightarrow> prependsTlv (ts x) (b x)) \<Longrightarrow>
     prependsTlv (case m of None \<Rightarrow> ss | Some x \<Rightarrow> ts x) (case m of None \<Rightarrow> a | Some x \<Rightarrow> b x)"
  by (cases m) simp_all

lemma prependsTlv_rev_map [prepends_rules]:
  assumes "\<And>x. x \<in> set xs \<Longrightarrow> prepends (f x) (tlv_bytes (t x) (v x))"
  shows "prependsTlv (map (\<lambda>x _. f x) (rev xs)) (map (\<lambda>x. (t x, v x)) xs)"
proof -
  have "concat (map (\<lambda>x. tlv_bytes (t x) (v x)) xs) = tlvs_bytes (map (\<lambda>x. (t x, v x)) xs)"
    by (induction xs) simp_all
  then show ?thesis
    using prependsFrom_rev_map [of xs f "\<lambda>x. tlv_bytes (t x) (v x)"] assms by (simp add: prependsTlv_def)
qed

lemma prepends_block_shortest [prepends_rules]:
  "wf_block b \<Longrightarrow> shortest b \<Longrightarrow> prepends (prependBlock b) (tlv_bytes (m_type b) (value_bytes b))"
  using prepends_block [of b] by (simp add: block_out_shortest)

lemmas [prepends_rules] = prepends_nniBlock prepends_binaryBlock prepends_stringBlock prepends_doubleBlock
  prepends_emptyBlock

text \<open>The last two steps of every \<open>wireEncode\<close>: the length and the type.\<close>

lemma prepends_element:
  assumes "prependsTlv ss tvs" "tvs = tvs'"
  shows "prepends (runSteps (ss @ [\<lambda>len. prependVarNumber (word_of_nat len), \<lambda>_. prependVarNumber (ucast t)]))
    (tlv_bytes t (tlvs_bytes tvs'))"
  using assms prepends_tlv_steps [of ss "tlvs_bytes tvs" t] by (simp add: prependsTlv_def)

lemma prepends_elements: "prependsTlv ss tvs \<Longrightarrow> tvs = tvs' \<Longrightarrow> prepends (runSteps ss) (tlvs_bytes tvs')"
  by (auto simp: prependsTlv_def intro: prepends_steps)

lemma tlvs_okI: "length (tlvs_bytes tvs) < 2 ^ 64 \<Longrightarrow> list_all (\<lambda>tv. fst tv \<noteq> 0) tvs \<Longrightarrow> tlvs_ok tvs"
proof -
  assume a: "length (tlvs_bytes tvs) < 2 ^ 64" "list_all (\<lambda>tv. fst tv \<noteq> 0) tvs"
  have "length (snd tv) \<le> length (tlvs_bytes tvs)" if "tv \<in> set tvs" for tv
    using that
  proof (induction tvs)
    case (Cons x tvs)
    then show ?case by (cases x) (auto simp: length_tlv_bytes)
  qed simp
  with a show ?thesis by (fastforce simp: tlvs_ok_def list_all_iff split_beta)
qed

section \<open>Integers in elements\<close>

lemma length_nni_less: "length (nni_bytes n) < 2 ^ 64"
  by (simp add: sizeOfNonNegativeInteger_def)

lemma sint_word_of_int64: "0 \<le> x \<Longrightarrow> x < 2 ^ 63 \<Longrightarrow> sint (word_of_int x :: 64 word) = x"
  by (simp add: signed_of_int signed_take_bit_int_eq_self)

lemma readNonNegativeIntegerAs_nni:
  "wf_block b \<Longrightarrow> value_bytes b = nni_bytes n \<Longrightarrow> n \<le> m \<Longrightarrow> readNonNegativeIntegerAs m b = Inr n"
  by (simp add: readNonNegativeIntegerAs_def readNonNegativeInteger_nni)

section \<open>Elements of a parsed block\<close>

definition element_ok :: "block \<Rightarrow> bool" where
  "element_ok x \<longleftrightarrow> wf_block x \<and> hasWire x \<and> shortest x \<and> m_elements x = []"

lemma element_okD: "element_ok x \<Longrightarrow> wf_block x" "element_ok x \<Longrightarrow> hasWire x" "element_ok x \<Longrightarrow> shortest x"
  "element_ok x \<Longrightarrow> m_elements x = []"
  by (simp_all add: element_ok_def)

lemma parseE_elements:
  assumes "wf_block b" "m_elements b = []" "value_bytes b = tlvs_bytes tvs" "tlvs_ok tvs"
  obtains b' where "parseE b = Inr b'" "map view (m_elements b') = tvs" "wf_block b'"
    "view b' = view b" "wire_bytes b' = wire_bytes b" "hasWire b' = hasWire b"
    "list_all element_ok (m_elements b')"
  using parseE_tlvs [OF assms] by (metis (no_types, lifting) element_ok_def list_all_iff)

lemma takeType_view:
  assumes "map view els = (case m of None \<Rightarrow> [] | Some v \<Rightarrow> [(t, v)]) @ rest" "t \<notin> fst ` set rest"
    and "list_all element_ok els"
  obtains x els' where "takeType t els = (x, els')" "map view els' = rest" "list_all element_ok els'"
    "rel_option (\<lambda>x v. view x = (t, v) \<and> element_ok x) x m"
proof (cases m)
  case None
  have "takeType t els = (None, els)"
  proof (cases els)
    case (Cons x xs)
    then have "view x \<in> set rest" using assms(1) None by auto
    then have "m_type x \<noteq> t" using assms(2) by (metis image_eqI view_simps(1))
    then show ?thesis by (simp add: Cons)
  qed simp
  then show ?thesis using that assms None by simp
next
  case (Some v)
  then obtain x xs where "els = x # xs" "view x = (t, v)" "map view xs = rest"
    using assms(1) by (cases els) auto
  then show ?thesis using that [of "Some x" xs] assms(3) Some by (auto simp: view_def)
qed

text \<open>Where the elements are: the bytes from the start of the value to the end of the \<open>k\<close>-th element.\<close>

lemma elements_at_end:
  "0 < k \<Longrightarrow> k \<le> length tvs \<Longrightarrow> m_end (elements_at buf b tvs ! (k - 1)) = b + length (tlvs_bytes (take k tvs))"
proof (induction tvs arbitrary: b k)
  case (Cons tv tvs)
  obtain j where k: "k = Suc j" using Cons.prems(1) by (cases k) auto
  show ?case
  proof (cases j)
    case 0
    then show ?thesis by (cases tv) (simp add: k Let_def Block_raw_def)
  next
    case (Suc i)
    then show ?thesis using Cons.IH [of j] Cons.prems by (cases tv) (simp add: k Let_def)
  qed
qed simp

lemma parseE_range:
  assumes "wf_block b" "m_elements b = []" "value_bytes b = tlvs_bytes tvs" "tlvs_ok tvs" "0 < k" "k \<le> length tvs"
    and "parseE b = Inr w"
  obtains buf where "m_buffer w = Some buf"
    "bslice (m_valueBegin w) (m_end (m_elements w ! (k - 1))) buf = tlvs_bytes (take k tvs)"
proof -
  have "tlvs_bytes tvs \<noteq> []" using assms(5,6) by (cases tvs) (auto simp: tlvs_bytes_def split_beta)
  then have vs: "value_size b \<noteq> 0" using assms(1,3) by (simp add: value_size_length)
  then obtain buf where buf: "m_buffer b = Some buf" by (auto simp: value_size_def hasValue_def split: if_splits)
  have bd: "m_valueBegin b \<le> m_valueEnd b" "m_valueEnd b \<le> length buf" using assms(1) buf by (cases b; auto)+
  have s: "bslice (m_valueBegin b) (m_valueEnd b) buf = tlvs_bytes (take k tvs) @ tlvs_bytes (drop k tvs)"
    using assms(3) buf by (simp add: value_bytes_def flip: tlvs_bytes_simps(3))
  then have "bslice (m_valueBegin b) (m_valueEnd b) buf = tlvs_bytes tvs"
    by (simp flip: tlvs_bytes_simps(3))
  from parse_loop_tlvs [OF this assms(4) bd, of "[]"]
  have w: "w = set_elements (elements_at buf (m_valueBegin b) tvs) b"
    using assms(2,7) vs buf by (simp add: parseE_def parse_def set_elements_def)
  show ?thesis
    using that [of buf] buf elements_at_end [OF assms(5,6)] bslice_prefix_len(3) [OF s bd]
    by (simp add: w set_elements_def)
qed

lemma blockFromValue_tlv:
  assumes "wf_block b" "value_bytes b = tlv_bytes t v" "t \<noteq> 0" "length v < 2 ^ 64"
  obtains b' where "blockFromValue b = Inr b'" "wf_block b'" "hasWire b'" "view b' = (t, v)" "shortest b'"
    "m_elements b' = []"
proof -
  obtain buf where buf: "m_buffer b = Some buf"
    using assms(2) by (cases "m_buffer b") (auto simp: value_bytes_def dest: sym)
  have bd: "m_valueBegin b \<le> m_valueEnd b" "m_valueEnd b \<le> length buf"
    using assms(1) buf by (cases b; auto)+
  have w: "bslice (m_valueBegin b) (m_valueEnd b) buf = tlv_bytes t v"
    using assms(2) buf by (simp add: value_bytes_def)
  have tlv: "is_tlv (bslice (m_valueBegin b) (m_valueEnd b) buf) t v"
    using w is_tlv_bytes [OF assms(3,4)] by simp
  have vs: "value_size b \<noteq> 0" using value_size_length [OF assms(1)] assms(2) by simp
  obtain b' where b': "Block_fromRange (Some buf) (m_valueBegin b) (m_valueEnd b) True = Inr b'"
    using Block_fromRange_tlv [OF tlv bd, of True] by simp
  note i = Block_fromRange_Inr [OF b' bd(1)]
  have "is_tlv (tlv_bytes t v) (m_type b') (value_bytes b')"
    using wf_wire_tlv [OF i(1,2)] i(3) w by simp
  then have v: "view b' = (t, v)"
    using is_tlv_fun [OF is_tlv_bytes [OF assms(3,4)]] by (simp add: view_def)
  have "shortest b'" using v i(3) w by (simp add: shortest_def view_def)
  with v vs b' i buf show ?thesis by (intro that [of b']) (simp_all add: blockFromValue_def)
qed

lemma blocks_eq_view:
  "map view xs = map view ys \<Longrightarrow> list_all wf_block xs \<Longrightarrow> list_all wf_block ys \<Longrightarrow> list_all2 block_eq xs ys"
proof (induction xs arbitrary: ys)
  case (Cons x xs)
  then show ?case by (cases ys) (auto simp: block_eq_iff view_def)
qed simp

section \<open>The codec contract\<close>

locale packet_codec =
  fixes enc :: "'a \<Rightarrow> enc_op"
    and outer :: uint32
    and tlvs :: "'a \<Rightarrow> (uint32 \<times> byte list) list"
    and ok :: "'a \<Rightarrow> bool"
    and decode :: "block \<Rightarrow> 'b result"
    and same :: "'a \<Rightarrow> 'b \<Rightarrow> bool"
  assumes outer_type: "outer \<noteq> 0"
    and enc_prepends: "ok x \<Longrightarrow> prepends (enc x) (tlv_bytes outer (tlvs_bytes (tlvs x)))"
    and enc_length: "ok x \<Longrightarrow> length (tlvs_bytes (tlvs x)) < 2 ^ 64"
    and decode_tlvs: "\<lbrakk>ok x; wf_block b; hasWire b; m_elements b = []; view b = (outer, tlvs_bytes (tlvs x))\<rbrakk>
      \<Longrightarrow> \<exists>y. decode b = Inr y \<and> same x y"

sublocale packet_codec \<subseteq> we: wire_encodable enc "\<lambda>x. tlv_bytes outer (tlvs_bytes (tlvs x))" ok
  by unfold_locales (rule enc_prepends)

context packet_codec
begin

lemma encode_block: "ok x \<Longrightarrow> makeBlock (enc x) = Inr (tlv_block outer (tlvs_bytes (tlvs x)))"
  by (intro makeBlock_tlv enc_prepends outer_type enc_length)

text \<open>Decoding what was encoded.\<close>

lemma round_trip: "ok x \<Longrightarrow> \<exists>b y. makeBlock (enc x) = Inr b \<and> decode b = Inr y \<and> same x y"
  using encode_block [of x] decode_tlvs [of x "tlv_block outer (tlvs_bytes (tlvs x))"]
    wf_tlv_block [OF outer_type enc_length] by auto

text \<open>The same from the bytes on the wire, followed by anything.\<close>

lemma round_trip_bytes:
  assumes "ok x"
  shows "\<exists>b y. Block_fromSpan (tlv_bytes outer (tlvs_bytes (tlvs x)) @ rest) = Inr b \<and> decode b = Inr y \<and> same x y"
proof -
  let ?v = "tlvs_bytes (tlvs x)" and ?w = "tlv_bytes outer (tlvs_bytes (tlvs x))"
  have "is_tlv ?w outer ?v" using assms outer_type enc_length by (intro is_tlv_bytes) auto
  then have b: "Block_fromSpan (?w @ rest) = Inr (tlv_block outer ?v)"
    by (simp add: Block_fromSpan_tlv tlv_block_def Let_def)
  then show ?thesis
    using assms decode_tlvs [of x "tlv_block outer ?v"] wf_tlv_block [OF outer_type enc_length] by auto
qed

end

end
