(* ===== verification/KeyLocator.thy ===== *)
theory KeyLocator
  imports PacketCodec
begin

text \<open>
  \<open>key-locator.cpp\<close>: the variant of nothing, a name, a key digest, or the type of an element that is not
  understood, with the cached wire; its wire coding and printing.
\<close>

section \<open>Model\<close>

datatype locator = Locator_none | Locator_Name name | Locator_KeyDigest block | Locator_other uint32

record keyLocator =
  kl_locator :: locator
  kl_wire :: block

definition KeyLocator_default :: keyLocator where
  "KeyLocator_default = \<lparr>kl_locator = Locator_none, kl_wire = Block_default\<rparr>"

definition KeyLocator_ofName :: "name \<Rightarrow> keyLocator" where
  "KeyLocator_ofName n = KeyLocator_default\<lparr>kl_locator := Locator_Name n\<rparr>"

definition KeyLocator_wireEncode_enc :: "keyLocator \<Rightarrow> enc_op" where
  "KeyLocator_wireEncode_enc kl = runSteps
     ((case kl_locator kl of
         Locator_none \<Rightarrow> []
       | Locator_Name n \<Rightarrow> [\<lambda>_. Name_wireEncode_enc n]
       | Locator_KeyDigest digest \<Rightarrow> [\<lambda>_. prependBlock digest]
       | Locator_other type \<Rightarrow>
           [\<lambda>_. throwEnc (KeyLocatorError (''Unsupported KeyLocator type '' @ to_string (unat type)))]) @
      [\<lambda>totalLength. prependVarNumber (word_of_nat totalLength),
       \<lambda>_. prependVarNumber (ucast tlv_KeyLocator)])"

definition KeyLocator_wireEncode :: "keyLocator \<Rightarrow> keyLocator result" where
  "KeyLocator_wireEncode kl =
     (if hasWire (kl_wire kl) then Inr kl
      else bindE (makeBlock (KeyLocator_wireEncode_enc kl)) (\<lambda>b. Inr (kl\<lparr>kl_wire := b\<rparr>)))"

definition KeyLocator_wireDecode :: "block \<Rightarrow> keyLocator result" where
  "KeyLocator_wireDecode wire =
     (if m_type wire \<noteq> tlv_KeyLocator
      then Inl (KeyLocatorError (expecting ''KeyLocator'' (m_type wire)))
      else bindE (parseE wire) (\<lambda>w.
        case m_elements w of
          [] \<Rightarrow> Inr \<lparr>kl_locator = Locator_none, kl_wire = w\<rparr>
        | element # _ \<Rightarrow>
            if m_type element = tlv_Name
            then bindE (Name_ofBlock element) (\<lambda>n. Inr \<lparr>kl_locator = Locator_Name n, kl_wire = w\<rparr>)
            else if m_type element = tlv_KeyDigest
            then Inr \<lparr>kl_locator = Locator_KeyDigest element, kl_wire = w\<rparr>
            else Inr \<lparr>kl_locator = Locator_other (m_type element), kl_wire = w\<rparr>))"

definition KeyLocator_getType :: "keyLocator \<Rightarrow> uint32" where
  "KeyLocator_getType kl =
     (case kl_locator kl of
        Locator_none \<Rightarrow> tlv_Invalid
      | Locator_Name _ \<Rightarrow> tlv_Name
      | Locator_KeyDigest _ \<Rightarrow> tlv_KeyDigest
      | Locator_other type \<Rightarrow> type)"

definition KeyLocator_clear :: "keyLocator \<Rightarrow> keyLocator" where
  "KeyLocator_clear kl = \<lparr>kl_locator = Locator_none, kl_wire = Block_reset (kl_wire kl)\<rparr>"

definition KeyLocator_getName :: "keyLocator \<Rightarrow> name result" where
  "KeyLocator_getName kl =
     (case kl_locator kl of
        Locator_Name n \<Rightarrow> Inr n
      | _ \<Rightarrow> Inl (KeyLocatorError ''KeyLocator does not contain a Name''))"

definition KeyLocator_setName :: "name \<Rightarrow> keyLocator \<Rightarrow> keyLocator" where
  "KeyLocator_setName n kl = \<lparr>kl_locator = Locator_Name n, kl_wire = Block_reset (kl_wire kl)\<rparr>"

definition KeyLocator_getKeyDigest :: "keyLocator \<Rightarrow> block result" where
  "KeyLocator_getKeyDigest kl =
     (case kl_locator kl of
        Locator_KeyDigest b \<Rightarrow> Inr b
      | _ \<Rightarrow> Inl (KeyLocatorError ''KeyLocator does not contain a KeyDigest''))"

definition KeyLocator_setKeyDigest :: "block \<Rightarrow> keyLocator \<Rightarrow> keyLocator result" where
  "KeyLocator_setKeyDigest keyDigest kl =
     (if m_type keyDigest \<noteq> tlv_KeyDigest
      then Inl (InvalidArgument (''Invalid KeyDigest block of type '' @ to_string (unat (m_type keyDigest))))
      else Inr \<lparr>kl_locator = Locator_KeyDigest keyDigest, kl_wire = Block_reset (kl_wire kl)\<rparr>)"

definition KeyLocator_setKeyDigest_buffer :: "buffer \<Rightarrow> keyLocator \<Rightarrow> keyLocator result" where
  "KeyLocator_setKeyDigest_buffer keyDigest kl =
     bindE (makeBinaryBlock tlv_KeyDigest keyDigest) (\<lambda>b.
       Inr \<lparr>kl_locator = Locator_KeyDigest b, kl_wire = Block_reset (kl_wire kl)\<rparr>)"

definition KeyLocator_eq :: "keyLocator \<Rightarrow> keyLocator \<Rightarrow> bool" where
  "KeyLocator_eq a b =
     (case (kl_locator a, kl_locator b) of
        (Locator_none, Locator_none) \<Rightarrow> True
      | (Locator_Name n, Locator_Name m) \<Rightarrow> Name_equals n m
      | (Locator_KeyDigest x, Locator_KeyDigest y) \<Rightarrow> block_eq x y
      | (Locator_other t, Locator_other u) \<Rightarrow> t = u
      | _ \<Rightarrow> False)"

definition MAX_KEY_DIGEST_OCTETS_TO_SHOW :: nat where
  "MAX_KEY_DIGEST_OCTETS_TO_SHOW = 5"

definition KeyLocator_print :: "string option \<Rightarrow> keyLocator \<Rightarrow> string result" where
  "KeyLocator_print env kl =
     (case kl_locator kl of
        Locator_none \<Rightarrow> Inr ''None''
      | Locator_Name n \<Rightarrow> bindE (Name_toUri env UriFormat_DEFAULT n) (\<lambda>s. Inr (''Name='' @ s))
      | Locator_KeyDigest digest \<Rightarrow>
          Inr (''KeyDigest='' @
            hexText True (take (min (value_size digest) MAX_KEY_DIGEST_OCTETS_TO_SHOW) (value_bytes digest)) @
            (if value_size digest > MAX_KEY_DIGEST_OCTETS_TO_SHOW then ''...'' else []))
      | Locator_other type \<Rightarrow> Inr (''Unknown('' @ to_string (unat type) @ '')''))"

section \<open>Wire coding\<close>

definition kl_tlvs :: "keyLocator \<Rightarrow> (uint32 \<times> byte list) list" where
  "kl_tlvs kl =
     (case kl_locator kl of
        Locator_Name n \<Rightarrow> [(tlv_Name, tlvs_bytes (name_view n))]
      | Locator_KeyDigest b \<Rightarrow> [(tlv_KeyDigest, value_bytes b)]
      | _ \<Rightarrow> [])"

definition kl_ok :: "keyLocator \<Rightarrow> bool" where
  "kl_ok kl \<longleftrightarrow>
     (case kl_locator kl of
        Locator_none \<Rightarrow> True
      | Locator_Name n \<Rightarrow> name_ok n
      | Locator_KeyDigest b \<Rightarrow> wf_block b \<and> shortest b \<and> m_type b = tlv_KeyDigest
      | Locator_other _ \<Rightarrow> False) \<and> length (tlvs_bytes (kl_tlvs kl)) < 2 ^ 64"

text \<open>The same variant with equal contents, whatever wires are cached.\<close>

definition same_keyLocator :: "keyLocator \<Rightarrow> keyLocator \<Rightarrow> bool" where
  "same_keyLocator a b \<longleftrightarrow> kl_ok a \<and>
     (case (kl_locator a, kl_locator b) of
        (Locator_none, Locator_none) \<Rightarrow> True
      | (Locator_Name n, Locator_Name m) \<Rightarrow> name_view m = name_view n \<and> wf_block (name_wire m)
      | (Locator_KeyDigest x, Locator_KeyDigest y) \<Rightarrow> view y = view x \<and> wf_block y
      | _ \<Rightarrow> False)"

lemma same_keyLocator_eq: "same_keyLocator a b \<Longrightarrow> KeyLocator_eq b a"
  using wf_elements
  by (auto simp: same_keyLocator_def KeyLocator_eq_def kl_ok_def Name_equals_view block_eq_iff view_def
      name_ok_def component_ok_def list_all_iff split: locator.splits)

lemma KeyLocator_wireEncode_prepends:
  assumes "kl_ok kl"
  shows "prepends (KeyLocator_wireEncode_enc kl) (tlv_bytes tlv_KeyLocator (tlvs_bytes (kl_tlvs kl)))"
proof -
  have "prependsTlv (case kl_locator kl of
         Locator_none \<Rightarrow> []
       | Locator_Name n \<Rightarrow> [\<lambda>_. Name_wireEncode_enc n]
       | Locator_KeyDigest digest \<Rightarrow> [\<lambda>_. prependBlock digest]
       | Locator_other type \<Rightarrow>
           [\<lambda>_. throwEnc (KeyLocatorError (''Unsupported KeyLocator type '' @ to_string (unat type)))]) (kl_tlvs kl)"
    using assms prepends_block_shortest
    by (auto simp: kl_ok_def kl_tlvs_def name_ok_def component_ok_def list_all_iff
        intro!: prepends_rules Name_wireEncode_prepends split: locator.splits)
       (metis prependsTlv_single)
  then show ?thesis unfolding KeyLocator_wireEncode_enc_def by (rule prepends_element) simp
qed

lemma KeyLocator_wireDecode_tlvs:
  assumes ok: "kl_ok kl" and b: "wf_block b" "m_elements b = []" "view b = (tlv_KeyLocator, tlvs_bytes (kl_tlvs kl))"
  shows "\<exists>y. KeyLocator_wireDecode b = Inr y \<and> same_keyLocator kl y"
proof -
  have "tlvs_ok (kl_tlvs kl)"
    using ok by (intro tlvs_okI) (auto simp: kl_ok_def kl_tlvs_def split: locator.splits)
  then obtain w where w: "parseE b = Inr w" "map view (m_elements w) = kl_tlvs kl" "list_all element_ok (m_elements w)"
    using parseE_elements [OF b(1,2)] b(3) by (metis view_simps(2) snd_conv)
  have t: "m_type b = tlv_KeyLocator" using b(3) by (metis view_simps(1) fst_conv)
  show ?thesis
  proof (cases "kl_locator kl")
    case Locator_none
    then show ?thesis using w t ok
      by (auto simp: KeyLocator_wireDecode_def kl_tlvs_def same_keyLocator_def)
  next
    case (Locator_Name n)
    then obtain x where x: "m_elements w = [x]" "view x = (tlv_Name, tlvs_bytes (name_view n))" "element_ok x"
      using w by (auto simp: kl_tlvs_def)
    have "tlvs_ok (name_view n)" using ok Locator_Name by (auto simp: kl_ok_def name_ok_tlvs)
    from Name_wireDecode_tlvs [OF element_okD(1,4) [OF x(3)] x(2) this]
    obtain m where "Name_ofBlock x = Inr m" "name_view m = name_view n" "wf_block (name_wire m)" by metis
    then show ?thesis using w t x Locator_Name ok
      by (auto simp: KeyLocator_wireDecode_def same_keyLocator_def view_def)
  next
    case (Locator_KeyDigest d)
    then obtain x where "m_elements w = [x]" "view x = view d" "m_type x = tlv_KeyDigest" "element_ok x"
      using w ok by (auto simp: kl_tlvs_def kl_ok_def view_def)
    then show ?thesis using w t Locator_KeyDigest ok
      by (auto simp: KeyLocator_wireDecode_def same_keyLocator_def element_ok_def)
  next
    case (Locator_other x4)
    then show ?thesis using ok by (simp add: kl_ok_def)
  qed
qed

interpretation kl: packet_codec KeyLocator_wireEncode_enc tlv_KeyLocator kl_tlvs kl_ok KeyLocator_wireDecode
  same_keyLocator
  by unfold_locales (simp_all add: KeyLocator_wireEncode_prepends KeyLocator_wireDecode_tlvs, simp add: kl_ok_def)

text \<open>
  A key locator that is empty, holds a valid name or a key digest is encoded, and decoding the
  bytes, whatever follows them, gives a key locator that \<open>operator==\<close> calls equal.  Encoding one of an
  unknown type is an error.
\<close>

theorem keyLocator_round_trip:
  "(kl_ok x \<longrightarrow> (\<exists>w b y. makeBlock (KeyLocator_wireEncode_enc x) = Inr w \<and>
     Block_fromSpan (wire_bytes w @ rest) = Inr b \<and> KeyLocator_wireDecode b = Inr y \<and> KeyLocator_eq y x)) \<and>
   (kl_locator x = Locator_other t \<longrightarrow> (\<exists>e. makeBlock (KeyLocator_wireEncode_enc x) = Inl (KeyLocatorError e)))"
proof -
  have "\<exists>e. makeBlock (KeyLocator_wireEncode_enc x) = Inl (KeyLocatorError e)" if "kl_locator x = Locator_other t"
    using that by (simp add: makeBlock_def twoPass_def estimate_def KeyLocator_wireEncode_enc_def runSteps_def throwEnc_def)
  then show ?thesis
    using kl.encode_block [of x] kl.round_trip_bytes [of x rest] same_keyLocator_eq by fastforce
qed

theorem keyLocator_round_trip_witness:
  "\<exists>w b y. makeBlock (KeyLocator_wireEncode_enc (KeyLocator_ofName (Name_append (tlv_block 8 [65]) Name_default))) = Inr w \<and>
     Block_fromSpan (wire_bytes w @ []) = Inr b \<and> KeyLocator_wireDecode b = Inr y \<and>
     KeyLocator_eq y (KeyLocator_ofName (Name_append (tlv_block 8 [65]) Name_default))"
proof -
  have "kl_ok (KeyLocator_ofName (Name_append (tlv_block 8 [65]) Name_default))" by code_simp
  then show ?thesis using keyLocator_round_trip by blast
qed

end
