(* ===== verification/ValidityPeriod.thy ===== *)
theory ValidityPeriod
  imports PacketCodec
begin

text \<open>
  \<open>security/validity-period.cpp\<close>.  Time points of \<open>time::system_clock\<close> are nanoseconds since the epoch, those of
  the class are whole seconds.  The ISO 8601 text of a time point comes from \<open>boost::posix_time\<close>: the two
  conversions are parameters, an exception \<open>std::bad_cast\<close> of the second being the error \<open>bad_cast\<close>.
\<close>

section \<open>Model\<close>

record validityPeriod =
  vp_notBefore :: int
  vp_notAfter :: int
  vp_wire :: block

abbreviation bad_cast :: error where "bad_cast \<equiv> LogicError ''std::bad_cast''"

definition ISO_DATETIME_SIZE :: nat where "ISO_DATETIME_SIZE = 15"
definition NOT_BEFORE_OFFSET :: nat where "NOT_BEFORE_OFFSET = 0"
definition NOT_AFTER_OFFSET :: nat where "NOT_AFTER_OFFSET = 1"

text \<open>\<open>time_point_cast\<close> to seconds rounds towards zero.\<close>

definition toSeconds :: "time_point \<Rightarrow> int" where
  "toSeconds t = (if t < 0 then - ((- t) div 1000000000) else t div 1000000000)"

definition fromSeconds :: "int \<Rightarrow> time_point" where
  "fromSeconds s = s * 1000000000"

definition ValidityPeriod_make :: "time_point \<Rightarrow> time_point \<Rightarrow> validityPeriod" where
  "ValidityPeriod_make notBefore notAfter =
     \<lparr>vp_notBefore = toSeconds (notBefore + 1000000000 - 1), vp_notAfter = toSeconds notAfter,
      vp_wire = Block_default\<rparr>"

definition ValidityPeriod_default :: validityPeriod where
  "ValidityPeriod_default = ValidityPeriod_make (0 + 1) 0"

definition ValidityPeriod_wireEncode_enc :: "(time_point \<Rightarrow> string) \<Rightarrow> validityPeriod \<Rightarrow> enc_op" where
  "ValidityPeriod_wireEncode_enc toIsoString vp = runSteps
     ([\<lambda>_. prependStringBlock tlv_NotAfter (toIsoString (fromSeconds (vp_notAfter vp)))] @
      [\<lambda>_. prependStringBlock tlv_NotBefore (toIsoString (fromSeconds (vp_notBefore vp)))] @
      [\<lambda>totalLength. prependVarNumber (word_of_nat totalLength),
       \<lambda>_. prependVarNumber (ucast tlv_ValidityPeriod)])"

definition ValidityPeriod_wireEncode :: "(time_point \<Rightarrow> string) \<Rightarrow> validityPeriod \<Rightarrow> validityPeriod result" where
  "ValidityPeriod_wireEncode toIsoString vp =
     (if hasWire (vp_wire vp) then Inr vp
      else bindE (makeBlock (ValidityPeriod_wireEncode_enc toIsoString vp)) (\<lambda>b.
             bindE (parseE b) (\<lambda>w. Inr (vp\<lparr>vp_wire := w\<rparr>))))"

definition ValidityPeriod_wireDecode :: "(string \<Rightarrow> time_point result) \<Rightarrow> block \<Rightarrow> validityPeriod result" where
  "ValidityPeriod_wireDecode fromIsoString wire =
     (if \<not> hasWire wire
      then Inl (ClassError ''ValidityPeriod'' ''The supplied block does not contain wire format'')
      else bindE (parseE wire) (\<lambda>w.
        if m_type w \<noteq> tlv_ValidityPeriod
        then Inl (ClassError ''ValidityPeriod'' (expecting ''ValidityPeriod'' (m_type w)))
        else if length (m_elements w) \<noteq> 2
        then Inl (ClassError ''ValidityPeriod'' ''ValidityPeriod does not have two sub-TLVs'')
        else
          let nb = m_elements w ! NOT_BEFORE_OFFSET; na = m_elements w ! NOT_AFTER_OFFSET in
          if m_type nb \<noteq> tlv_NotBefore \<or> value_size nb \<noteq> ISO_DATETIME_SIZE \<or>
             m_type na \<noteq> tlv_NotAfter \<or> value_size na \<noteq> ISO_DATETIME_SIZE
          then Inl (ClassError ''ValidityPeriod'' ''Invalid NotBefore or NotAfter field'')
          else
            case bindE (fromIsoString (readString nb)) (\<lambda>b. bindE (fromIsoString (readString na)) (\<lambda>a. Inr (b, a))) of
              Inl e \<Rightarrow>
                if e = bad_cast
                then Inl (ClassError ''ValidityPeriod'' ''Invalid date format in NOT-BEFORE or NOT-AFTER field'')
                else Inl e
            | Inr (b, a) \<Rightarrow>
                Inr \<lparr>vp_notBefore = toSeconds b, vp_notAfter = toSeconds a, vp_wire = w\<rparr>))"

definition ValidityPeriod_setPeriod :: "time_point \<Rightarrow> time_point \<Rightarrow> validityPeriod \<Rightarrow> validityPeriod" where
  "ValidityPeriod_setPeriod notBefore notAfter vp =
     \<lparr>vp_notBefore = toSeconds (notBefore + 1000000000 - 1), vp_notAfter = toSeconds notAfter,
      vp_wire = Block_reset (vp_wire vp)\<rparr>"

definition ValidityPeriod_getPeriod :: "validityPeriod \<Rightarrow> time_point \<times> time_point" where
  "ValidityPeriod_getPeriod vp = (fromSeconds (vp_notBefore vp), fromSeconds (vp_notAfter vp))"

definition ValidityPeriod_isValid :: "time_point \<Rightarrow> validityPeriod \<Rightarrow> bool" where
  "ValidityPeriod_isValid now vp \<longleftrightarrow> fromSeconds (vp_notBefore vp) \<le> now \<and> now \<le> fromSeconds (vp_notAfter vp)"

definition ValidityPeriod_eq :: "validityPeriod \<Rightarrow> validityPeriod \<Rightarrow> bool" where
  "ValidityPeriod_eq a b \<longleftrightarrow> \<not> (vp_notBefore a \<noteq> vp_notBefore b \<or> vp_notAfter a \<noteq> vp_notAfter b)"

definition ValidityPeriod_print :: "(time_point \<Rightarrow> string) \<Rightarrow> validityPeriod \<Rightarrow> string" where
  "ValidityPeriod_print toIsoString vp =
     ''('' @ toIsoString (fst (ValidityPeriod_getPeriod vp)) @
     '', '' @ toIsoString (snd (ValidityPeriod_getPeriod vp)) @ '')''"

section \<open>Wire coding\<close>

text \<open>What the class relies on: the text of the time point has 15 characters and is read back.\<close>

definition iso_text :: "(time_point \<Rightarrow> string) \<Rightarrow> (string \<Rightarrow> time_point result) \<Rightarrow> time_point \<Rightarrow> bool" where
  "iso_text toIsoString fromIsoString t \<longleftrightarrow>
     length (toIsoString t) = 15 \<and> fromIsoString (toIsoString t) = Inr t"

lemma toSeconds_fromSeconds [simp]: "toSeconds (fromSeconds s) = s"
proof -
  have "fromSeconds s < 0 \<longleftrightarrow> s < 0" by (simp add: fromSeconds_def)
  moreover have "- fromSeconds s = (- s) * 1000000000" by (simp add: fromSeconds_def)
  ultimately show ?thesis
    unfolding toSeconds_def by (simp only: nonzero_mult_div_cancel_right) (simp add: fromSeconds_def)
qed

definition vp_tlvs :: "(time_point \<Rightarrow> string) \<Rightarrow> validityPeriod \<Rightarrow> (uint32 \<times> byte list) list" where
  "vp_tlvs toIsoString vp =
     [(tlv_NotBefore, bytes_of (toIsoString (fromSeconds (vp_notBefore vp)))),
      (tlv_NotAfter, bytes_of (toIsoString (fromSeconds (vp_notAfter vp))))]"

lemma ValidityPeriod_wireEncode_prepends:
  "prepends (ValidityPeriod_wireEncode_enc toIsoString vp)
     (tlv_bytes tlv_ValidityPeriod (tlvs_bytes (vp_tlvs toIsoString vp)))"
  unfolding ValidityPeriod_wireEncode_enc_def append_assoc [symmetric]
  by (rule prepends_element, (rule prepends_rules)+) (simp add: vp_tlvs_def)

lemma ValidityPeriod_wireDecode_tlvs:
  assumes iso: "iso_text toIso fromIso (fromSeconds (vp_notBefore vp))" "iso_text toIso fromIso (fromSeconds (vp_notAfter vp))"
    and b: "wf_block b" "hasWire b" "m_elements b = []" "view b = (tlv_ValidityPeriod, tlvs_bytes (vp_tlvs toIso vp))"
  shows "\<exists>y. ValidityPeriod_wireDecode fromIso b = Inr y \<and> ValidityPeriod_eq vp y"
proof -
  have "tlvs_ok (vp_tlvs toIso vp)" using iso by (simp add: vp_tlvs_def iso_text_def bytes_of_def)
  then obtain w where w: "parseE b = Inr w" "map view (m_elements w) = vp_tlvs toIso vp" "view w = view b"
      "list_all element_ok (m_elements w)"
    using parseE_elements [OF b(1,3)] b(4) by (metis view_simps(2) snd_conv)
  then obtain x y where xy: "m_elements w = [x, y]" "element_ok x" "element_ok y"
    "view x = (tlv_NotBefore, bytes_of (toIso (fromSeconds (vp_notBefore vp))))"
    "view y = (tlv_NotAfter, bytes_of (toIso (fromSeconds (vp_notAfter vp))))"
    by (auto simp: vp_tlvs_def)
  have "value_size x = 15" "value_size y = 15"
    using xy iso by (simp_all add: value_size_length element_ok_def view_def iso_text_def bytes_of_def)
  then show ?thesis using b(2,4) w xy iso
    by (simp add: ValidityPeriod_wireDecode_def NOT_BEFORE_OFFSET_def NOT_AFTER_OFFSET_def ISO_DATETIME_SIZE_def
        readString_def view_def iso_text_def ValidityPeriod_eq_def Let_def)
qed

definition vp_ok :: "(time_point \<Rightarrow> string) \<Rightarrow> (string \<Rightarrow> time_point result) \<Rightarrow> validityPeriod \<Rightarrow> bool" where
  "vp_ok toIso fromIso vp \<longleftrightarrow> iso_text toIso fromIso (fromSeconds (vp_notBefore vp)) \<and>
     iso_text toIso fromIso (fromSeconds (vp_notAfter vp))"

interpretation vp: packet_codec "ValidityPeriod_wireEncode_enc toIso" tlv_ValidityPeriod "vp_tlvs toIso" "vp_ok toIso fromIso"
  "ValidityPeriod_wireDecode fromIso" ValidityPeriod_eq for toIso fromIso
proof (unfold_locales, goal_cases)
  case (2 x)
  then show ?case by (intro ValidityPeriod_wireEncode_prepends)
next
  case (3 x)
  then show ?case by (simp add: vp_ok_def iso_text_def vp_tlvs_def length_tlv_bytes bytes_of_def sizeOfVarNumber_def)
next
  case (4 x b)
  then show ?case unfolding vp_ok_def by (intro ValidityPeriod_wireDecode_tlvs) simp_all
qed simp

section \<open>Properties\<close>

lemma div_round_down: "0 < d \<Longrightarrow> x div d * d \<le> (x :: int)"
  using div_mult_mod_eq [of x d] pos_mod_sign [of d x] by linarith

lemma div_round_up: "0 < d \<Longrightarrow> x \<le> (x + (d - 1)) div d * (d :: int)"
  using div_mult_mod_eq [of "x + (d - 1)" d] pos_mod_bound [of d "x + (d - 1)"] by linarith

lemma le_div_round_down: "0 < d \<Longrightarrow> s * d \<le> x \<Longrightarrow> s \<le> x div (d :: int)"
  using zdiv_mono1 [of "s * d" x d] by simp

lemma div_round_up_le: "0 < d \<Longrightarrow> x \<le> s * d \<Longrightarrow> (x + (d - 1)) div d \<le> (s :: int)"
  using zdiv_mono1 [of "x + (d - 1)" "(d - 1) + s * d" d] by simp

text \<open>
  A validity period survives encoding and decoding, given that the ISO text of its two ends has 15
  characters and reads back as the same time.
\<close>

theorem validityPeriod_round_trip:
  assumes "iso_text toIso fromIso (fromSeconds (vp_notBefore vp))" "iso_text toIso fromIso (fromSeconds (vp_notAfter vp))"
  shows "\<exists>w b y. makeBlock (ValidityPeriod_wireEncode_enc toIso vp) = Inr w \<and>
    Block_fromSpan (wire_bytes w @ rest) = Inr b \<and> ValidityPeriod_wireDecode fromIso b = Inr y \<and> ValidityPeriod_eq vp y"
  using vp.encode_block [of toIso fromIso vp] vp.round_trip_bytes [of toIso fromIso vp rest] assms
  by (simp add: vp_ok_def)

theorem validityPeriod_round_trip_witness:
  "\<exists>w b y. makeBlock (ValidityPeriod_wireEncode_enc (\<lambda>t. if t = 0 then ''19700101T000000'' else ''19700101T000001'')
      (ValidityPeriod_make 0 1000000000)) = Inr w \<and>
    Block_fromSpan (wire_bytes w @ []) = Inr b \<and>
    ValidityPeriod_wireDecode (\<lambda>s. Inr (if s = ''19700101T000000'' then 0 else 1000000000)) b = Inr y \<and>
    ValidityPeriod_eq (ValidityPeriod_make 0 1000000000) y"
  by (rule validityPeriod_round_trip) (simp_all add: iso_text_def ValidityPeriod_make_def toSeconds_def fromSeconds_def)

text \<open>
  Rounding to whole seconds never extends a period after the epoch: if \<open>isValid(now)\<close> holds for the
  period set from \<open>notBefore\<close> and \<open>notAfter\<close>, then \<open>now\<close> lies between them; conversely every whole second
  between them is valid.  The default period is valid at no time.
\<close>

theorem validityPeriod_rounding:
  assumes "0 \<le> notBefore" "0 \<le> notAfter"
  shows "(ValidityPeriod_isValid now (ValidityPeriod_setPeriod notBefore notAfter vp) \<longrightarrow>
      notBefore \<le> now \<and> now \<le> notAfter) \<and>
    (notBefore \<le> fromSeconds s \<and> fromSeconds s \<le> notAfter \<longrightarrow>
      ValidityPeriod_isValid (fromSeconds s) (ValidityPeriod_setPeriod notBefore notAfter vp)) \<and>
    \<not> ValidityPeriod_isValid now ValidityPeriod_default"
proof -
  let ?d = "1000000000 :: int"
  have up: "notBefore \<le> (notBefore + (?d - 1)) div ?d * ?d" by (rule div_round_up) simp
  have down: "notAfter div ?d * ?d \<le> notAfter" by (rule div_round_down) simp
  have nb: "(notBefore + (?d - 1)) div ?d \<le> s" if "notBefore \<le> s * ?d"
    using that by (intro div_round_up_le) simp
  have na: "s \<le> notAfter div ?d" if "s * ?d \<le> notAfter" using that by (intro le_div_round_down) simp
  show ?thesis using assms up down nb na
    by (auto simp: ValidityPeriod_isValid_def ValidityPeriod_setPeriod_def toSeconds_def fromSeconds_def
        ValidityPeriod_default_def ValidityPeriod_make_def)
qed

theorem validityPeriod_rounding_witness:
  "ValidityPeriod_isValid 2000000000 (ValidityPeriod_setPeriod 1500000000 2500000000 ValidityPeriod_default)"
  using validityPeriod_rounding [of 1500000000 2500000000 0 ValidityPeriod_default 2] by (simp add: fromSeconds_def)

end
