(* ===== verification/SignatureInfo.thy ===== *)
theory SignatureInfo
  imports KeyLocator ValidityPeriod
begin

text \<open>
  \<open>signature-info.cpp\<close>: signature type, key locator and the other elements of \<open>SignatureInfo\<close> and
  \<open>InterestSignatureInfo\<close>, with the cached wire.  The ISO text of a validity period is a parameter, as in
  \<open>ValidityPeriod\<close>.
\<close>

section \<open>Model\<close>

datatype signatureInfo_Type = SignatureInfo_Data | SignatureInfo_Interest

primrec sigInfo_tlv :: "signatureInfo_Type \<Rightarrow> uint32" where
  "sigInfo_tlv SignatureInfo_Data = tlv_SignatureInfo"
| "sigInfo_tlv SignatureInfo_Interest = tlv_InterestSignatureInfo"

record signatureInfo =
  si_type :: int
  si_keyLocator :: "keyLocator option"
  si_otherTlvs :: "block list"
  si_wire :: block

definition SignatureInfo_default :: signatureInfo where
  "SignatureInfo_default = \<lparr>si_type = -1, si_keyLocator = None, si_otherTlvs = [], si_wire = Block_default\<rparr>"

definition SignatureInfo_make :: "uint16 \<Rightarrow> keyLocator option \<Rightarrow> signatureInfo" where
  "SignatureInfo_make type keyLocator =
     SignatureInfo_default\<lparr>si_type := int (unat type), si_keyLocator := keyLocator\<rparr>"

definition SignatureInfo_wireEncode_enc :: "signatureInfo_Type \<Rightarrow> signatureInfo \<Rightarrow> enc_op" where
  "SignatureInfo_wireEncode_enc type si =
     (if si_type si = -1 then throwEnc (SignatureInfoError ''Cannot encode invalid SignatureInfo'')
      else runSteps
        (map (\<lambda>b _. prependBlock b) (rev (si_otherTlvs si)) @
         (case si_keyLocator si of None \<Rightarrow> [] | Some kl \<Rightarrow> [\<lambda>_. KeyLocator_wireEncode_enc kl]) @
         [\<lambda>_. prependNonNegativeIntegerBlock tlv_SignatureType (word_of_int (si_type si))] @
         [\<lambda>totalLength. prependVarNumber (word_of_nat totalLength),
          \<lambda>_. prependVarNumber (ucast (sigInfo_tlv type))]))"

definition SignatureInfo_wireEncode :: "signatureInfo_Type \<Rightarrow> signatureInfo \<Rightarrow> signatureInfo result" where
  "SignatureInfo_wireEncode type si =
     (if hasWire (si_wire si) then Inr si
      else bindE (makeBlock (SignatureInfo_wireEncode_enc type si)) (\<lambda>b. Inr (si\<lparr>si_wire := b\<rparr>)))"

fun SignatureInfo_decode_loop :: "block list \<Rightarrow> nat \<Rightarrow> signatureInfo \<Rightarrow> signatureInfo result" where
  "SignatureInfo_decode_loop [] lastCriticalElement si = Inr si"
| "SignatureInfo_decode_loop (element # rest) lastCriticalElement si =
     (let store = si\<lparr>si_otherTlvs := si_otherTlvs si @ [element]\<rparr> in
      if m_type element = tlv_SignatureType then
        if lastCriticalElement > 0
        then Inl (SignatureInfoError ''SignatureType element is repeated or out-of-order'')
        else bindE (readNonNegativeIntegerAs 0xFFFF element) (\<lambda>n.
               SignatureInfo_decode_loop rest 1 (si\<lparr>si_type := int (unat n)\<rparr>))
      else if m_type element = tlv_KeyLocator then
        if lastCriticalElement > 1
        then Inl (SignatureInfoError ''KeyLocator element is repeated or out-of-order'')
        else bindE (KeyLocator_wireDecode element) (\<lambda>kl.
               SignatureInfo_decode_loop rest 2 (si\<lparr>si_keyLocator := Some kl\<rparr>))
      else if m_type element = tlv_SignatureNonce then
        if value_size element < 1
        then Inl (SignatureInfoError ''SignatureNonce element cannot be empty'')
        else SignatureInfo_decode_loop rest lastCriticalElement store
      else if m_type element = tlv_ValidityPeriod then
        SignatureInfo_decode_loop rest lastCriticalElement store
      else if isCriticalType (m_type element)
      then Inl (SignatureInfoError
             (''Unrecognized element of critical type '' @ to_string (unat (m_type element))))
      else SignatureInfo_decode_loop rest lastCriticalElement store)"

definition SignatureInfo_wireDecode :: "signatureInfo_Type \<Rightarrow> block \<Rightarrow> signatureInfo result" where
  "SignatureInfo_wireDecode type wire =
     bindE (parseE wire) (\<lambda>w.
       if m_type w \<noteq> sigInfo_tlv type
       then Inl (SignatureInfoError (expecting ''SignatureInfo'' (m_type w)))
       else bindE (SignatureInfo_decode_loop (m_elements w) 0
                \<lparr>si_type = -1, si_keyLocator = None, si_otherTlvs = [], si_wire = w\<rparr>) (\<lambda>si.
              if si_type si = -1
              then Inl (SignatureInfoError ''Missing SignatureType in SignatureInfo'')
              else Inr si))"

definition SignatureInfo_setSignatureType :: "uint16 \<Rightarrow> signatureInfo \<Rightarrow> signatureInfo" where
  "SignatureInfo_setSignatureType type si =
     (if int (unat type) \<noteq> si_type si
      then si\<lparr>si_type := int (unat type), si_wire := Block_default\<rparr> else si)"

definition SignatureInfo_getKeyLocator :: "signatureInfo \<Rightarrow> keyLocator result" where
  "SignatureInfo_getKeyLocator si =
     (case si_keyLocator si of
        None \<Rightarrow> Inl (SignatureInfoError ''KeyLocator does not exist in SignatureInfo'')
      | Some kl \<Rightarrow> Inr kl)"

text \<open>\<open>operator==\<close> of \<open>optional\<close>.\<close>

fun option_eq :: "('a \<Rightarrow> 'b \<Rightarrow> bool) \<Rightarrow> 'a option \<Rightarrow> 'b option \<Rightarrow> bool" where
  "option_eq eq None None = True"
| "option_eq eq (Some x) (Some y) = eq x y"
| "option_eq eq _ _ = False"

definition SignatureInfo_setKeyLocator :: "keyLocator option \<Rightarrow> signatureInfo \<Rightarrow> signatureInfo" where
  "SignatureInfo_setKeyLocator keyLocator si =
     (if \<not> option_eq KeyLocator_eq keyLocator (si_keyLocator si)
      then si\<lparr>si_keyLocator := keyLocator, si_wire := Block_default\<rparr> else si)"

definition SignatureInfo_findOtherTlv :: "uint32 \<Rightarrow> signatureInfo \<Rightarrow> block option" where
  "SignatureInfo_findOtherTlv type si = find (\<lambda>b. m_type b = type) (si_otherTlvs si)"

fun replace_first :: "('a \<Rightarrow> bool) \<Rightarrow> 'a \<Rightarrow> 'a list \<Rightarrow> 'a list" where
  "replace_first P y [] = []"
| "replace_first P y (x # xs) = (if P x then y # xs else x # replace_first P y xs)"

definition SignatureInfo_addCustomTlv :: "block \<Rightarrow> signatureInfo \<Rightarrow> signatureInfo" where
  "SignatureInfo_addCustomTlv b si =
     (case SignatureInfo_findOtherTlv (m_type b) si of
        None \<Rightarrow> si\<lparr>si_otherTlvs := si_otherTlvs si @ [b], si_wire := Block_default\<rparr>
      | Some existing \<Rightarrow>
          if \<not> block_eq existing b
          then si\<lparr>si_otherTlvs := replace_first (\<lambda>x. m_type x = m_type b) b (si_otherTlvs si),
                  si_wire := Block_default\<rparr>
          else si)"

definition SignatureInfo_removeCustomTlv :: "uint32 \<Rightarrow> signatureInfo \<Rightarrow> signatureInfo" where
  "SignatureInfo_removeCustomTlv type si =
     (if list_ex (\<lambda>b. m_type b = type) (si_otherTlvs si)
      then si\<lparr>si_otherTlvs := filter (\<lambda>b. m_type b \<noteq> type) (si_otherTlvs si), si_wire := Block_default\<rparr>
      else si)"

definition SignatureInfo_getCustomTlv :: "uint32 \<Rightarrow> signatureInfo \<Rightarrow> block option" where
  "SignatureInfo_getCustomTlv type si = SignatureInfo_findOtherTlv type si"

definition SignatureInfo_getValidityPeriod ::
    "(string \<Rightarrow> time_point result) \<Rightarrow> signatureInfo \<Rightarrow> validityPeriod result" where
  "SignatureInfo_getValidityPeriod fromIsoString si =
     (case SignatureInfo_findOtherTlv tlv_ValidityPeriod si of
        None \<Rightarrow> Inl (SignatureInfoError ''ValidityPeriod does not exist in SignatureInfo'')
      | Some b \<Rightarrow> ValidityPeriod_wireDecode fromIsoString b)"

definition SignatureInfo_setValidityPeriod ::
    "(time_point \<Rightarrow> string) \<Rightarrow> validityPeriod option \<Rightarrow> signatureInfo \<Rightarrow> signatureInfo result" where
  "SignatureInfo_setValidityPeriod toIsoString validityPeriod si =
     (case validityPeriod of
        None \<Rightarrow> Inr (SignatureInfo_removeCustomTlv tlv_ValidityPeriod si)
      | Some vp \<Rightarrow> bindE (ValidityPeriod_wireEncode toIsoString vp) (\<lambda>vp'.
          Inr (SignatureInfo_addCustomTlv (vp_wire vp') si)))"

definition SignatureInfo_getNonce :: "signatureInfo \<Rightarrow> byte list option" where
  "SignatureInfo_getNonce si = map_option value_bytes (SignatureInfo_findOtherTlv tlv_SignatureNonce si)"

definition SignatureInfo_setNonce :: "byte list option \<Rightarrow> signatureInfo \<Rightarrow> signatureInfo result" where
  "SignatureInfo_setNonce nonce si =
     (case nonce of
        None \<Rightarrow> Inr (SignatureInfo_removeCustomTlv tlv_SignatureNonce si)
      | Some n \<Rightarrow> bindE (makeBinaryBlock tlv_SignatureNonce n) (\<lambda>b. Inr (SignatureInfo_addCustomTlv b si)))"

text \<open>The millisecond count is an \<open>int64_t\<close>.\<close>

definition fromUnixTimestamp :: "int \<Rightarrow> time_point" where
  "fromUnixTimestamp ms = ms * 1000000"

definition SignatureInfo_getTime :: "signatureInfo \<Rightarrow> time_point option result" where
  "SignatureInfo_getTime si =
     (case SignatureInfo_findOtherTlv tlv_SignatureTime si of
        None \<Rightarrow> Inr None
      | Some b \<Rightarrow> bindE (readNonNegativeInteger_block b) (\<lambda>n. Inr (Some (fromUnixTimestamp (sint n)))))"

definition SignatureInfo_setTime :: "time_point option \<Rightarrow> signatureInfo \<Rightarrow> signatureInfo result" where
  "SignatureInfo_setTime time si =
     (case time of
        None \<Rightarrow> Inr (SignatureInfo_removeCustomTlv tlv_SignatureTime si)
      | Some t \<Rightarrow> bindE (makeNonNegativeIntegerBlock tlv_SignatureTime (word_of_int (toUnixTimestamp t))) (\<lambda>b.
          Inr (SignatureInfo_addCustomTlv b si)))"

definition SignatureInfo_getSeqNum :: "signatureInfo \<Rightarrow> uint64 option result" where
  "SignatureInfo_getSeqNum si =
     (case SignatureInfo_findOtherTlv tlv_SignatureSeqNum si of
        None \<Rightarrow> Inr None
      | Some b \<Rightarrow> bindE (readNonNegativeInteger_block b) (\<lambda>n. Inr (Some n)))"

definition SignatureInfo_setSeqNum :: "uint64 option \<Rightarrow> signatureInfo \<Rightarrow> signatureInfo result" where
  "SignatureInfo_setSeqNum seqNum si =
     (case seqNum of
        None \<Rightarrow> Inr (SignatureInfo_removeCustomTlv tlv_SignatureSeqNum si)
      | Some n \<Rightarrow> bindE (makeNonNegativeIntegerBlock tlv_SignatureSeqNum n) (\<lambda>b.
          Inr (SignatureInfo_addCustomTlv b si)))"

definition SignatureInfo_eq :: "signatureInfo \<Rightarrow> signatureInfo \<Rightarrow> bool" where
  "SignatureInfo_eq lhs rhs \<longleftrightarrow>
     si_type lhs = si_type rhs \<and> option_eq KeyLocator_eq (si_keyLocator lhs) (si_keyLocator rhs) \<and>
     list_all2 block_eq (si_otherTlvs lhs) (si_otherTlvs rhs)"

text \<open>
  In \<open>operator<<\<close> each recognised element is printed through its getter, which finds the first one; the
  \<open>optional\<close> it dereferences is never empty there.
\<close>

fun SignatureInfo_print_tlvs ::
    "(time_point \<Rightarrow> string) \<Rightarrow> (string \<Rightarrow> time_point result) \<Rightarrow> signatureInfo \<Rightarrow> block list \<Rightarrow> string result" where
  "SignatureInfo_print_tlvs toIso fromIso si [] = Inr []"
| "SignatureInfo_print_tlvs toIso fromIso si (b # bs) =
     bindE
       (if m_type b = tlv_SignatureNonce
        then Inr (''Nonce='' @ hexText False (case SignatureInfo_getNonce si of Some n \<Rightarrow> n | None \<Rightarrow> []) @ '' '')
        else if m_type b = tlv_SignatureTime
        then bindE (SignatureInfo_getTime si) (\<lambda>t.
               let ms = toUnixTimestamp (case t of Some x \<Rightarrow> x | None \<Rightarrow> 0) in
               Inr (''Time='' @ (if ms < 0 then ''-'' else []) @ to_string (nat \<bar>ms\<bar>) @ '' ''))
        else if m_type b = tlv_SignatureSeqNum
        then bindE (SignatureInfo_getSeqNum si) (\<lambda>n.
               Inr (''SeqNum='' @ to_string (unat (case n of Some x \<Rightarrow> x | None \<Rightarrow> 0)) @ '' ''))
        else if m_type b = tlv_ValidityPeriod
        then bindE (SignatureInfo_getValidityPeriod fromIso si) (\<lambda>vp.
               Inr (''ValidityPeriod='' @ ValidityPeriod_print toIso vp @ '' ''))
        else Inr (to_string (unat (m_type b)) @ '' ''))
       (\<lambda>s. bindE (SignatureInfo_print_tlvs toIso fromIso si bs) (\<lambda>rest. Inr (s @ rest)))"

definition SignatureInfo_print ::
    "(time_point \<Rightarrow> string) \<Rightarrow> (string \<Rightarrow> time_point result) \<Rightarrow> string option \<Rightarrow> signatureInfo \<Rightarrow> string result" where
  "SignatureInfo_print toIso fromIso env si =
     (if si_type si = -1 then Inr ''Invalid SignatureInfo''
      else
        bindE (case si_keyLocator si of
                 None \<Rightarrow> Inr []
               | Some kl \<Rightarrow> bindE (KeyLocator_print env kl) (\<lambda>s. Inr ('' '' @ s))) (\<lambda>kl.
        bindE (if si_otherTlvs si = [] then Inr []
               else bindE (SignatureInfo_print_tlvs toIso fromIso si (si_otherTlvs si)) (\<lambda>s.
                 Inr ('' { '' @ s @ ''}''))) (\<lambda>others.
        Inr (print_SignatureTypeValue (word_of_int (si_type si)) @ kl @ others))))"

section \<open>Custom elements\<close>

lemma find_append: "find P (xs @ ys) = (case find P xs of None \<Rightarrow> find P ys | Some x \<Rightarrow> Some x)"
  by (induction xs) auto

lemma find_replace_first_same: "list_ex P xs \<Longrightarrow> P y \<Longrightarrow> find P (replace_first P y xs) = Some y"
  by (induction xs) auto

lemma find_replace_first_other:
  "(\<And>x. P x \<Longrightarrow> \<not> Q x) \<Longrightarrow> \<not> Q y \<Longrightarrow> find Q (replace_first P y xs) = find Q xs"
  by (induction xs) auto

lemma addCustomTlv_find:
  assumes "list_all wf_block (si_otherTlvs si)" "wf_block b"
  shows "map_option view (SignatureInfo_findOtherTlv t (SignatureInfo_addCustomTlv b si)) =
    (if t = m_type b then Some (view b) else map_option view (SignatureInfo_findOtherTlv t si))"
proof (cases "SignatureInfo_findOtherTlv (m_type b) si")
  case None
  then show ?thesis
    by (auto simp: SignatureInfo_addCustomTlv_def SignatureInfo_findOtherTlv_def find_append split: option.splits)
next
  case (Some x)
  then have x: "x \<in> set (si_otherTlvs si)" "m_type x = m_type b"
    by (auto simp: SignatureInfo_findOtherTlv_def find_Some_iff)
  then have ex: "list_ex (\<lambda>x. m_type x = m_type b) (si_otherTlvs si)" by (auto simp: list_ex_iff)
  show ?thesis
  proof (cases "block_eq x b")
    case True
    then have "view x = view b" using assms x by (auto simp: block_eq_iff view_def list_all_iff)
    then show ?thesis using Some True by (auto simp: SignatureInfo_addCustomTlv_def)
  next
    case False
    then show ?thesis using Some ex
      by (auto simp: SignatureInfo_addCustomTlv_def SignatureInfo_findOtherTlv_def find_replace_first_same
          find_replace_first_other)
  qed
qed

lemma addCustomTlv_wf:
  "list_all wf_block (si_otherTlvs si) \<Longrightarrow> wf_block b \<Longrightarrow> list_all wf_block (si_otherTlvs (SignatureInfo_addCustomTlv b si))"
proof -
  have "list_all wf_block xs \<Longrightarrow> wf_block b \<Longrightarrow> list_all wf_block (replace_first P b xs)" for P xs
    by (induction xs) auto
  then show "list_all wf_block (si_otherTlvs si) \<Longrightarrow> wf_block b \<Longrightarrow> ?thesis"
    by (auto simp: SignatureInfo_addCustomTlv_def split: option.split)
qed

lemma find_other_wf:
  "list_all wf_block (si_otherTlvs si) \<Longrightarrow> SignatureInfo_findOtherTlv t si = Some b \<Longrightarrow> wf_block b"
  by (auto simp: SignatureInfo_findOtherTlv_def find_Some_iff list_all_iff)

section \<open>Wire coding\<close>

definition si_tlvs :: "signatureInfo \<Rightarrow> (uint32 \<times> byte list) list" where
  "si_tlvs si =
     (tlv_SignatureType, nni_bytes (word_of_int (si_type si))) #
     (case si_keyLocator si of None \<Rightarrow> [] | Some kl \<Rightarrow> [(tlv_KeyLocator, tlvs_bytes (kl_tlvs kl))]) @
     map view (si_otherTlvs si)"

text \<open>An element \<open>wireDecode\<close> keeps among the other elements.\<close>

definition si_other_ok :: "uint32 \<times> byte list \<Rightarrow> bool" where
  "si_other_ok tv \<longleftrightarrow> fst tv \<noteq> 0 \<and> fst tv \<noteq> tlv_SignatureType \<and> fst tv \<noteq> tlv_KeyLocator \<and>
     (if fst tv = tlv_SignatureNonce then snd tv \<noteq> []
      else fst tv = tlv_ValidityPeriod \<or> \<not> isCriticalType (fst tv))"

definition si_ok :: "signatureInfo \<Rightarrow> bool" where
  "si_ok si \<longleftrightarrow> 0 \<le> si_type si \<and> si_type si < 2 ^ 16 \<and>
     (case si_keyLocator si of None \<Rightarrow> True | Some kl \<Rightarrow> kl_ok kl) \<and>
     list_all (\<lambda>b. wf_block b \<and> shortest b \<and> si_other_ok (view b)) (si_otherTlvs si) \<and>
     length (tlvs_bytes (si_tlvs si)) < 2 ^ 64"

definition same_signatureInfo :: "signatureInfo \<Rightarrow> signatureInfo \<Rightarrow> bool" where
  "same_signatureInfo a b \<longleftrightarrow> si_ok a \<and> si_type b = si_type a \<and>
     rel_option same_keyLocator (si_keyLocator a) (si_keyLocator b) \<and>
     map view (si_otherTlvs b) = map view (si_otherTlvs a) \<and> list_all wf_block (si_otherTlvs b)"

lemma same_signatureInfo_eq: "same_signatureInfo a b \<Longrightarrow> SignatureInfo_eq b a"
proof -
  assume s: "same_signatureInfo a b"
  then have "list_all2 block_eq (si_otherTlvs b) (si_otherTlvs a)"
    by (intro blocks_eq_view) (auto simp: same_signatureInfo_def si_ok_def list_all_iff)
  moreover have "option_eq KeyLocator_eq (si_keyLocator b) (si_keyLocator a)"
    using s by (cases "si_keyLocator a"; cases "si_keyLocator b") (auto simp: same_signatureInfo_def same_keyLocator_eq)
  ultimately show ?thesis using s by (simp add: SignatureInfo_eq_def same_signatureInfo_def)
qed

lemma SignatureInfo_wireEncode_prepends:
  assumes "si_ok si"
  shows "prepends (SignatureInfo_wireEncode_enc type si) (tlv_bytes (sigInfo_tlv type) (tlvs_bytes (si_tlvs si)))"
proof -
  have "si_type si \<noteq> -1" using assms by (simp add: si_ok_def)
  then show ?thesis
    unfolding SignatureInfo_wireEncode_enc_def append_assoc [symmetric] if_False
    by (simp only: if_False) (rule prepends_element, (rule prepends_rules kl.enc_prepends |
      (use assms in \<open>auto simp: si_ok_def si_tlvs_def list_all_iff view_def\<close>; fail)[1])+)
qed

lemma si_decode_others:
  "list_all (\<lambda>x. element_ok x \<and> si_other_ok (view x)) els \<Longrightarrow>
     SignatureInfo_decode_loop els k si = Inr (si\<lparr>si_otherTlvs := si_otherTlvs si @ els\<rparr>)"
proof (induction els arbitrary: si)
  case (Cons x els)
  have "value_size x = length (value_bytes x)" using Cons.prems by (simp add: value_size_length element_ok_def)
  with Cons show ?case by (auto simp: Let_def si_other_ok_def split: if_splits)
qed simp

lemma SignatureInfo_wireDecode_tlvs:
  assumes ok: "si_ok si"
    and b: "wf_block b" "m_elements b = []" "view b = (sigInfo_tlv type, tlvs_bytes (si_tlvs si))"
  shows "\<exists>y. SignatureInfo_wireDecode type b = Inr y \<and> same_signatureInfo si y"
proof -
  have "tlvs_ok (si_tlvs si)"
    using ok by (intro tlvs_okI) (auto simp: si_ok_def si_tlvs_def si_other_ok_def list_all_iff split: option.splits)
  then obtain w where w: "parseE b = Inr w" "map view (m_elements w) = si_tlvs si" "view w = view b"
      "list_all element_ok (m_elements w)"
    using parseE_elements [OF b(1,2)] b(3) by (metis view_simps(2) snd_conv)
  let ?si0 = "\<lparr>si_type = -1, si_keyLocator = None, si_otherTlvs = [], si_wire = w\<rparr>"
  let ?n = "word_of_int (si_type si) :: uint64"
  obtain x els where x: "m_elements w = x # els" "view x = (tlv_SignatureType, nni_bytes ?n)" "element_ok x"
      "map view els = (case si_keyLocator si of None \<Rightarrow> [] | Some kl \<Rightarrow> [(tlv_KeyLocator, tlvs_bytes (kl_tlvs kl))]) @
         map view (si_otherTlvs si)" "list_all element_ok els"
    using w(2,4) by (cases "m_elements w") (auto simp: si_tlvs_def)
  have n: "uint ?n = si_type si" using ok by (simp add: si_ok_def uint_word_of_int)
  then have un: "int (unat ?n) = si_type si" by simp
  have "?n \<le> 0xFFFF" using ok n by (simp add: word_le_def si_ok_def)
  then have rd: "readNonNegativeIntegerAs 0xFFFF x = Inr ?n"
    using x(2,3) by (intro readNonNegativeIntegerAs_nni) (simp_all add: element_ok_def view_def)
  have oth: "list_all (\<lambda>x. element_ok x \<and> si_other_ok (view x)) es" if "map view es = map view (si_otherTlvs si)"
    "list_all element_ok es" for es
  proof -
    have "view e \<in> view ` set (si_otherTlvs si)" if "e \<in> set es" for e
      using that \<open>map view es = map view (si_otherTlvs si)\<close> by (metis image_eqI image_set)
    then show ?thesis using that(2) ok by (fastforce simp: si_ok_def list_all_iff)
  qed
  have loop: "\<exists>kl es. SignatureInfo_decode_loop els 1 (?si0\<lparr>si_type := si_type si\<rparr>) =
      Inr (?si0\<lparr>si_type := si_type si, si_keyLocator := kl, si_otherTlvs := es\<rparr>) \<and>
      rel_option same_keyLocator (si_keyLocator si) kl \<and> map view es = map view (si_otherTlvs si) \<and> list_all element_ok es"
  proof (cases "si_keyLocator si")
    case None
    then show ?thesis using x(4,5) si_decode_others [OF oth, of els 1] by fastforce
  next
    case (Some k)
    then obtain y es where y: "els = y # es" "view y = (tlv_KeyLocator, tlvs_bytes (kl_tlvs k))" "element_ok y"
      "map view es = map view (si_otherTlvs si)" "list_all element_ok es" using x(4,5) by auto
    have "kl_ok k" using ok Some by (simp add: si_ok_def)
    then obtain k' where "KeyLocator_wireDecode y = Inr k'" "same_keyLocator k k'"
      using kl.decode_tlvs [of k y] y(2,3) by (auto simp: element_ok_def)
    then show ?thesis using y Some si_decode_others [OF oth [OF y(4,5)], of 2] by (force simp: view_def)
  qed
  then obtain kl es where l: "SignatureInfo_decode_loop els 1 (?si0\<lparr>si_type := si_type si\<rparr>) =
      Inr (?si0\<lparr>si_type := si_type si, si_keyLocator := kl, si_otherTlvs := es\<rparr>)"
      "rel_option same_keyLocator (si_keyLocator si) kl" "map view es = map view (si_otherTlvs si)" "list_all element_ok es"
    by blast
  have "m_type w = sigInfo_tlv type" using w(3) b(3) by (metis view_simps(1) fst_conv)
  moreover have "SignatureInfo_decode_loop (m_elements w) 0 ?si0 =
      Inr (?si0\<lparr>si_type := si_type si, si_keyLocator := kl, si_otherTlvs := es\<rparr>)"
    using x(1,2) rd un l(1) by (simp add: view_def Let_def)
  ultimately show ?thesis using w(1) l(2-4) ok
    by (auto simp: SignatureInfo_wireDecode_def same_signatureInfo_def list_all_iff element_ok_def si_ok_def)
qed

interpretation si: packet_codec "SignatureInfo_wireEncode_enc type" "sigInfo_tlv type" si_tlvs si_ok
  "SignatureInfo_wireDecode type" same_signatureInfo for type
proof (unfold_locales, goal_cases)
  case 1
  then show ?case by (cases type) simp_all
next
  case (2 x)
  then show ?case by (rule SignatureInfo_wireEncode_prepends)
next
  case (3 x)
  then show ?case by (simp add: si_ok_def)
next
  case (4 x b)
  then show ?case by (intro SignatureInfo_wireDecode_tlvs)
qed

section \<open>Properties\<close>

text \<open>
  C28: A signature info with a signature type, an encodable key locator and elements that decoding
  keeps is encoded under either outer type, and decoding the bytes under the same outer type gives
  one that \<open>operator==\<close> calls equal.
\<close>

theorem signatureInfo_round_trip:
  assumes "si_ok x"
  shows "\<exists>w b y. makeBlock (SignatureInfo_wireEncode_enc type x) = Inr w \<and> Block_fromSpan (wire_bytes w @ rest) = Inr b \<and>
    SignatureInfo_wireDecode type b = Inr y \<and> SignatureInfo_eq y x"
  using si.encode_block [OF assms, of type] si.round_trip_bytes [OF assms, of type rest] same_signatureInfo_eq by auto

theorem signatureInfo_round_trip_witness:
  "\<exists>w b y. makeBlock (SignatureInfo_wireEncode_enc SignatureInfo_Interest
      (SignatureInfo_addCustomTlv (tlv_block 38 [1, 2]) (SignatureInfo_make 3 (Some (KeyLocator_ofName Name_default))))) = Inr w \<and>
    Block_fromSpan (wire_bytes w @ []) = Inr b \<and> SignatureInfo_wireDecode SignatureInfo_Interest b = Inr y \<and>
    SignatureInfo_eq y (SignatureInfo_addCustomTlv (tlv_block 38 [1, 2]) (SignatureInfo_make 3 (Some (KeyLocator_ofName Name_default))))"
  by (rule signatureInfo_round_trip) code_simp

text \<open>
  C29: The fields of a signature info are independent: setting the sequence number and then a non-empty
  nonce, both are read back and the signing time is unchanged; the cached wire survives only if
  neither changed.
\<close>

theorem signatureInfo_fields:
  assumes "list_all wf_block (si_otherTlvs si)" "length nonce < 2 ^ 64"
  shows "\<exists>s1 s2. SignatureInfo_setSeqNum (Some n) si = Inr s1 \<and> SignatureInfo_setNonce (Some nonce) s1 = Inr s2 \<and>
    SignatureInfo_getSeqNum s2 = Inr (Some n) \<and> SignatureInfo_getNonce s2 = Some nonce \<and>
    SignatureInfo_getTime s2 = SignatureInfo_getTime si \<and>
    (hasWire (si_wire s2) \<longrightarrow> SignatureInfo_getSeqNum si = Inr (Some n) \<and> SignatureInfo_getNonce si = Some nonce)"
proof -
  let ?b1 = "tlv_block tlv_SignatureSeqNum (nni_bytes n)" and ?b2 = "tlv_block tlv_SignatureNonce nonce"
  let ?s1 = "SignatureInfo_addCustomTlv ?b1 si" let ?s2 = "SignatureInfo_addCustomTlv ?b2 ?s1"
  have m1: "makeNonNegativeIntegerBlock tlv_SignatureSeqNum n = Inr ?b1"
    unfolding makeNonNegativeIntegerBlock_def by (intro makeBlock_tlv prepends_nniBlock length_nni_less) simp
  have m2: "makeBinaryBlock tlv_SignatureNonce nonce = Inr ?b2"
    unfolding makeBinaryBlock_def using assms(2) by (intro makeBlock_tlv prepends_binaryBlock) simp_all
  have w: "wf_block ?b1" "wf_block ?b2" using assms(2) length_nni_less by (simp_all add: wf_tlv_block)
  have w1: "list_all wf_block (si_otherTlvs ?s1)" by (rule addCustomTlv_wf [OF assms(1) w(1)])
  have w2: "list_all wf_block (si_otherTlvs ?s2)" by (rule addCustomTlv_wf [OF w1 w(2)])
  note f1 = addCustomTlv_find [OF assms(1) w(1)] and f2 = addCustomTlv_find [OF w1 w(2)]
  have "map_option view (SignatureInfo_findOtherTlv tlv_SignatureSeqNum ?s2) = Some (tlv_SignatureSeqNum, nni_bytes n)"
    "map_option view (SignatureInfo_findOtherTlv tlv_SignatureNonce ?s2) = Some (tlv_SignatureNonce, nonce)"
    "map_option view (SignatureInfo_findOtherTlv tlv_SignatureTime ?s2) =
       map_option view (SignatureInfo_findOtherTlv tlv_SignatureTime si)"
    by (simp_all add: f1 f2)
  note f = this
  have seq: "SignatureInfo_getSeqNum ?s2 = Inr (Some n)" and non: "SignatureInfo_getNonce ?s2 = Some nonce"
    using f(1,2) find_other_wf [OF w2]
    by (auto simp: SignatureInfo_getSeqNum_def SignatureInfo_getNonce_def view_def
        readNonNegativeInteger_nni split: option.splits)
  have tim: "SignatureInfo_getTime ?s2 = SignatureInfo_getTime si"
    using f(3) find_other_wf [OF w2] find_other_wf [OF assms(1)]
    by (auto simp: SignatureInfo_getTime_def view_def readNonNegativeInteger_view split: option.splits)
  have keep: "hasWire (si_wire (SignatureInfo_addCustomTlv b s)) \<Longrightarrow> SignatureInfo_addCustomTlv b s = s" for b s
    by (auto simp: SignatureInfo_addCustomTlv_def hasWire_def Block_default_def split: option.splits if_splits)
  have "hasWire (si_wire ?s2) \<longrightarrow>
      SignatureInfo_getSeqNum si = Inr (Some n) \<and> SignatureInfo_getNonce si = Some nonce"
    using keep [of ?b2 ?s1] keep [of ?b1 si] seq non by auto
  then show ?thesis
    using m1 m2 seq non tim
    by (simp add: SignatureInfo_setSeqNum_def SignatureInfo_setNonce_def)
qed

theorem signatureInfo_fields_witness:
  "\<exists>s1 s2. SignatureInfo_setSeqNum (Some 7) SignatureInfo_default = Inr s1 \<and> SignatureInfo_setNonce (Some [1, 2]) s1 = Inr s2 \<and>
    SignatureInfo_getSeqNum s2 = Inr (Some 7) \<and> SignatureInfo_getNonce s2 = Some [1, 2]"
  using signatureInfo_fields [of SignatureInfo_default "[1, 2]" 7] by (auto simp: SignatureInfo_default_def)

text \<open>
  C38: The cache of \<open>wireEncode(type)\<close> ignores the requested outer type: an info encoded for a Data packet
  and then asked for its Interest form returns the Data form.
\<close>

theorem signatureInfo_cached_type:
  "\<exists>si si'. SignatureInfo_wireEncode SignatureInfo_Data si = Inr si' \<and>
     SignatureInfo_wireEncode SignatureInfo_Interest si' = Inr si' \<and>
     m_type (si_wire si') = tlv_SignatureInfo \<and> m_type (si_wire si') \<noteq> sigInfo_tlv SignatureInfo_Interest"
proof -
  let ?si = "SignatureInfo_make 3 None"
  have "si_ok ?si" by code_simp
  then have "makeBlock (SignatureInfo_wireEncode_enc SignatureInfo_Data ?si) =
      Inr (tlv_block tlv_SignatureInfo (tlvs_bytes (si_tlvs ?si)))"
    using si.encode_block [of ?si SignatureInfo_Data] by simp
  then have "SignatureInfo_wireEncode SignatureInfo_Data ?si =
      Inr (?si\<lparr>si_wire := tlv_block tlv_SignatureInfo (tlvs_bytes (si_tlvs ?si))\<rparr>)"
    by (simp add: SignatureInfo_wireEncode_def SignatureInfo_make_def SignatureInfo_default_def
        hasWire_def Block_default_def)
  then show ?thesis by (intro exI conjI) (assumption, simp_all add: SignatureInfo_wireEncode_def)
qed

end
