(* ===== verification/MetaInfo.thy ===== *)
theory MetaInfo
  imports PacketCodec
begin

text \<open>
  \<open>MetaInfo\<close> (\<open>meta-info.cpp\<close>).  Durations are \<open>int64_t\<close> counts of milliseconds, kept as \<open>int\<close>.
  \<open>wireDecode\<close> works on an existing object and does not clear all of it; what is left in the object
  when it throws is not modelled.
\<close>

section \<open>State\<close>

abbreviation ContentType_Blob :: uint32 where "ContentType_Blob \<equiv> 0"

abbreviation DEFAULT_FRESHNESS_PERIOD :: int where "DEFAULT_FRESHNESS_PERIOD \<equiv> 0"

record metaInfo =
  mi_type :: uint32
  mi_freshnessPeriod :: int
  mi_finalBlockId :: "block option"
  mi_appMetaInfo :: "block list"
  mi_wire :: block

definition MetaInfo_default :: metaInfo where
  "MetaInfo_default =
     \<lparr>mi_type = ContentType_Blob, mi_freshnessPeriod = DEFAULT_FRESHNESS_PERIOD,
      mi_finalBlockId = None, mi_appMetaInfo = [], mi_wire = Block_default\<rparr>"

definition MetaInfo_setType :: "uint32 \<Rightarrow> metaInfo \<Rightarrow> metaInfo" where
  "MetaInfo_setType type mi = mi\<lparr>mi_wire := Block_default, mi_type := type\<rparr>"

definition MetaInfo_setFreshnessPeriod :: "int \<Rightarrow> metaInfo \<Rightarrow> metaInfo result" where
  "MetaInfo_setFreshnessPeriod freshnessPeriod mi =
     (if freshnessPeriod < 0 then Inl (InvalidArgument ''FreshnessPeriod must be >= 0'')
      else Inr (mi\<lparr>mi_wire := Block_default, mi_freshnessPeriod := freshnessPeriod\<rparr>))"

definition MetaInfo_setFinalBlock :: "block option \<Rightarrow> metaInfo \<Rightarrow> metaInfo" where
  "MetaInfo_setFinalBlock finalBlockId mi =
     mi\<lparr>mi_wire := Block_default, mi_finalBlockId := finalBlockId\<rparr>"

definition MetaInfo_setAppMetaInfo :: "block list \<Rightarrow> metaInfo \<Rightarrow> metaInfo result" where
  "MetaInfo_setAppMetaInfo info mi =
     (if list_ex (\<lambda>b. m_type b < 128 \<or> m_type b > 252) info
      then Inl (MetaInfoError ''AppMetaInfo block has type outside the application range [128, 252]'')
      else Inr (mi\<lparr>mi_wire := Block_default, mi_appMetaInfo := info\<rparr>))"

definition MetaInfo_addAppMetaInfo :: "block \<Rightarrow> metaInfo \<Rightarrow> metaInfo result" where
  "MetaInfo_addAppMetaInfo b mi =
     (if \<not> (128 \<le> m_type b \<and> m_type b \<le> 252)
      then Inl (MetaInfoError ''AppMetaInfo block has type outside the application range [128, 252]'')
      else Inr (mi\<lparr>mi_wire := Block_default, mi_appMetaInfo := mi_appMetaInfo mi @ [b]\<rparr>))"

fun remove_first :: "('a \<Rightarrow> bool) \<Rightarrow> 'a list \<Rightarrow> bool \<times> 'a list" where
  "remove_first P [] = (False, [])"
| "remove_first P (x # xs) =
     (if P x then (True, xs) else case remove_first P xs of (f, ys) \<Rightarrow> (f, x # ys))"

definition MetaInfo_removeAppMetaInfo :: "uint32 \<Rightarrow> metaInfo \<Rightarrow> bool \<times> metaInfo" where
  "MetaInfo_removeAppMetaInfo tlvType mi =
     (case remove_first (\<lambda>b. m_type b = tlvType) (mi_appMetaInfo mi) of (found, rest) \<Rightarrow>
        if found then (True, mi\<lparr>mi_wire := Block_default, mi_appMetaInfo := rest\<rparr>) else (False, mi))"

definition MetaInfo_findAppMetaInfo :: "uint32 \<Rightarrow> metaInfo \<Rightarrow> block option" where
  "MetaInfo_findAppMetaInfo tlvType mi = find (\<lambda>b. m_type b = tlvType) (mi_appMetaInfo mi)"

section \<open>Wire format\<close>

definition MetaInfo_wireEncode_enc :: "metaInfo \<Rightarrow> enc_op" where
  "MetaInfo_wireEncode_enc mi = runSteps
     (map (\<lambda>b _. prependBlock b) (rev (mi_appMetaInfo mi)) @
      (case mi_finalBlockId mi of
         None \<Rightarrow> []
       | Some c \<Rightarrow> [\<lambda>_. prependNestedBlock Component_wireEncode_enc tlv_FinalBlockId c]) @
      (if mi_freshnessPeriod mi \<noteq> DEFAULT_FRESHNESS_PERIOD
       then [\<lambda>_. prependNonNegativeIntegerBlock tlv_FreshnessPeriod (word_of_int (mi_freshnessPeriod mi))]
       else []) @
      (if mi_type mi \<noteq> ContentType_Blob
       then [\<lambda>_. prependNonNegativeIntegerBlock tlv_ContentType (ucast (mi_type mi))]
       else []) @
      [\<lambda>totalLength. prependVarNumber (word_of_nat totalLength),
       \<lambda>_. prependVarNumber (ucast tlv_MetaInfo)])"

definition MetaInfo_wireEncode :: "metaInfo \<Rightarrow> metaInfo result" where
  "MetaInfo_wireEncode mi =
     (if hasWire (mi_wire mi) then Inr mi
      else bindE (makeBlock (MetaInfo_wireEncode_enc mi)) (\<lambda>b. Inr (mi\<lparr>mi_wire := b\<rparr>)))"

definition MetaInfo_wireDecode :: "block \<Rightarrow> metaInfo \<Rightarrow> metaInfo result" where
  "MetaInfo_wireDecode wire mi =
     bindE (parseE wire) (\<lambda>w.
       let (ct, els1) = takeType tlv_ContentType (m_elements w) in
       bindE (case ct of None \<Rightarrow> Inr ContentType_Blob
              | Some b \<Rightarrow> bindE (readNonNegativeIntegerAs 0xFFFFFFFF b) (\<lambda>n. Inr (ucast n))) (\<lambda>type.
       let (fp, els2) = takeType tlv_FreshnessPeriod els1 in
       bindE (case fp of None \<Rightarrow> Inr DEFAULT_FRESHNESS_PERIOD
              | Some b \<Rightarrow> bindE (readNonNegativeInteger_block b) (\<lambda>n. Inr (sint n))) (\<lambda>freshness.
       let (fb, els3) = takeType tlv_FinalBlockId els2 in
       bindE (case fb of None \<Rightarrow> Inr None
              | Some b \<Rightarrow> bindE (blockFromValue b) (\<lambda>v. bindE (Component_ofBlock v) (\<lambda>c. Inr (Some c)))) (\<lambda>final.
       Inr (mi\<lparr>mi_wire := w, mi_type := type, mi_freshnessPeriod := freshness, mi_finalBlockId := final,
               mi_appMetaInfo := mi_appMetaInfo mi @ els3\<rparr>)))))"

definition MetaInfo_ofBlock :: "block \<Rightarrow> metaInfo result" where
  "MetaInfo_ofBlock b = MetaInfo_wireDecode b MetaInfo_default"

text \<open>\<open>showMilliseconds\<close> is the text Boost.Chrono prints for a duration.\<close>

definition MetaInfo_print :: "(int \<Rightarrow> string) \<Rightarrow> string option \<Rightarrow> metaInfo \<Rightarrow> string result" where
  "MetaInfo_print showMilliseconds env mi =
     bindE (case mi_finalBlockId mi of
              None \<Rightarrow> Inr []
            | Some c \<Rightarrow> bindE (Component_toUri env UriFormat_DEFAULT c) (\<lambda>s. Inr ('', FinalBlockId: '' @ s)))
       (\<lambda>final. Inr (''ContentType: '' @ to_string (unat (mi_type mi)) @
          (if mi_freshnessPeriod mi > 0
           then '', FreshnessPeriod: '' @ showMilliseconds (mi_freshnessPeriod mi) else []) @
          final @
          concat (map (\<lambda>b. '', AppMetaInfoTlvType: '' @ to_string (unat (m_type b))) (mi_appMetaInfo mi))))"

section \<open>What is encoded\<close>

definition mi_tlvs :: "metaInfo \<Rightarrow> (uint32 \<times> byte list) list" where
  "mi_tlvs mi =
     (if mi_type mi \<noteq> 0 then [(tlv_ContentType, nni_bytes (ucast (mi_type mi)))] else []) @
     (if mi_freshnessPeriod mi \<noteq> 0
      then [(tlv_FreshnessPeriod, nni_bytes (word_of_int (mi_freshnessPeriod mi)))] else []) @
     (case mi_finalBlockId mi of
        None \<Rightarrow> [] | Some c \<Rightarrow> [(tlv_FinalBlockId, tlv_bytes (m_type c) (value_bytes c))]) @
     map view (mi_appMetaInfo mi)"

definition mi_ok :: "metaInfo \<Rightarrow> bool" where
  "mi_ok mi \<longleftrightarrow>
     0 \<le> mi_freshnessPeriod mi \<and> mi_freshnessPeriod mi < 2 ^ 63 \<and>
     (case mi_finalBlockId mi of None \<Rightarrow> True | Some c \<Rightarrow> component_ok c) \<and>
     list_all (\<lambda>b. wf_block b \<and> shortest b \<and> 128 \<le> m_type b \<and> m_type b \<le> 252) (mi_appMetaInfo mi) \<and>
     length (tlvs_bytes (mi_tlvs mi)) < 2 ^ 64"

lemma MetaInfo_wireEncode_prepends:
  assumes "mi_ok mi"
  shows "prepends (MetaInfo_wireEncode_enc mi) (tlv_bytes tlv_MetaInfo (tlvs_bytes (mi_tlvs mi)))"
  unfolding MetaInfo_wireEncode_enc_def append_assoc [symmetric]
  by (rule prepends_element, (rule prepends_rules comp.nested_prepends |
      (use assms in \<open>auto simp: mi_ok_def mi_tlvs_def component_ok_def list_all_iff view_def\<close>; fail)[1])+)

section \<open>Decoding what was encoded\<close>

definition same_metaInfo :: "metaInfo \<Rightarrow> metaInfo \<Rightarrow> bool" where
  "same_metaInfo a b \<longleftrightarrow> mi_type b = mi_type a \<and> mi_freshnessPeriod b = mi_freshnessPeriod a \<and>
     map_option view (mi_finalBlockId b) = map_option view (mi_finalBlockId a) \<and>
     map view (mi_appMetaInfo b) = map view (mi_appMetaInfo a)"

lemma mi_tlvs_ok: "mi_ok mi \<Longrightarrow> tlvs_ok (mi_tlvs mi)"
  by (rule tlvs_okI) (auto simp: mi_tlvs_def mi_ok_def view_def list_all_iff split: if_splits option.splits)

lemma app_types: "mi_ok mi \<Longrightarrow> t < 128 \<Longrightarrow> t \<notin> fst ` set (map view (mi_appMetaInfo mi))"
  by (auto simp: mi_ok_def list_all_iff view_def)

lemma finalBlock_decode:
  assumes "rel_option (\<lambda>x v. view x = (t, v) \<and> element_ok x) x
      (map_option (\<lambda>c. tlv_bytes (m_type c) (value_bytes c)) final)"
    and "case final of None \<Rightarrow> True | Some c \<Rightarrow> component_ok c"
  shows "\<exists>fin. (case x of None \<Rightarrow> Inr None
    | Some b \<Rightarrow> bindE (blockFromValue b) (\<lambda>v. bindE (Component_ofBlock v) (\<lambda>c. Inr (Some c)))) = Inr fin \<and>
    map_option view fin = map_option view final"
proof (cases final)
  case (Some c)
  then have c: "wf_block c" "valid_tv (view c)" "length (value_bytes c) < 2 ^ 31"
    using assms(2) component_ok_view [of c] by auto
  have t: "m_type c \<noteq> 0" using c(2) by (auto simp: valid_tv_def)
  obtain y where y: "x = Some y" "value_bytes y = tlv_bytes (m_type c) (value_bytes c)" "element_ok y"
    using assms(1) Some by (auto simp: option_rel_Some2 view_def)
  obtain b' where b': "blockFromValue y = Inr b'" "wf_block b'" "view b' = (m_type c, value_bytes c)"
    using blockFromValue_tlv [OF element_okD(1) [OF y(3)] y(2) t] c(3) by auto
  have "Component_ofBlock b' = Inr b'" using b' c(2) by (intro Component_ofBlock_valid) (simp_all add: view_def)
  then show ?thesis using y b' Some by (simp add: view_def)
qed (use assms in simp)

lemma MetaInfo_wireDecode_tlvs:
  assumes ok: "mi_ok mi" and b: "wf_block b" "m_elements b = []" "view b = (tlv_MetaInfo, tlvs_bytes (mi_tlvs mi))"
    and "mi_appMetaInfo mi0 = []"
  shows "\<exists>mi'. MetaInfo_wireDecode b mi0 = Inr mi' \<and> same_metaInfo mi mi'"
proof -
  let ?ct = "if mi_type mi \<noteq> 0 then Some (nni_bytes (ucast (mi_type mi))) else None"
  let ?fp = "if mi_freshnessPeriod mi \<noteq> 0 then Some (nni_bytes (word_of_int (mi_freshnessPeriod mi))) else None"
  let ?fb = "map_option (\<lambda>c. tlv_bytes (m_type c) (value_bytes c)) (mi_finalBlockId mi)"
  let ?opt = "\<lambda>t m. case m of None \<Rightarrow> [] | Some v \<Rightarrow> [(t, v)]"
  let ?app = "map view (mi_appMetaInfo mi)"
  have tl: "mi_tlvs mi = ?opt tlv_ContentType ?ct @ ?opt tlv_FreshnessPeriod ?fp @ ?opt tlv_FinalBlockId ?fb @ ?app"
    by (simp add: mi_tlvs_def split: option.split)
  have "value_bytes b = tlvs_bytes (mi_tlvs mi)" using b(3) by (simp add: view_def)
  then obtain w where w: "parseE b = Inr w" "map view (m_elements w) = mi_tlvs mi" "list_all element_ok (m_elements w)"
    using parseE_elements [OF b(1,2) _ mi_tlvs_ok [OF ok]] by metis
  note app = app_types [OF ok]
  obtain x1 e1 where x1: "takeType tlv_ContentType (m_elements w) = (x1, e1)"
      "map view e1 = ?opt tlv_FreshnessPeriod ?fp @ ?opt tlv_FinalBlockId ?fb @ ?app" "list_all element_ok e1"
      "rel_option (\<lambda>x v. view x = (tlv_ContentType, v) \<and> element_ok x) x1 ?ct"
    using w tl app by (elim takeType_view [rotated -1]) (auto split: option.splits)
  obtain x2 e2 where x2: "takeType tlv_FreshnessPeriod e1 = (x2, e2)"
      "map view e2 = ?opt tlv_FinalBlockId ?fb @ ?app" "list_all element_ok e2"
      "rel_option (\<lambda>x v. view x = (tlv_FreshnessPeriod, v) \<and> element_ok x) x2 ?fp"
    using x1 app by (elim takeType_view [rotated -1]) (auto split: option.splits)
  obtain x3 e3 where x3: "takeType tlv_FinalBlockId e2 = (x3, e3)"
      "map view e3 = ?app" "list_all element_ok e3"
      "rel_option (\<lambda>x v. view x = (tlv_FinalBlockId, v) \<and> element_ok x) x3 ?fb"
    using x2 app by (elim takeType_view [rotated -1]) (auto split: option.splits)
  have d1: "(case x1 of None \<Rightarrow> Inr 0
      | Some b \<Rightarrow> bindE (readNonNegativeIntegerAs 0xFFFFFFFF b) (\<lambda>n. Inr (ucast n))) = Inr (mi_type mi)"
    using x1(4) ucast_uint32_le [of "mi_type mi"] ucast_uint32_back [of "mi_type mi"]
    by (cases x1) (auto simp: option_rel_Some1 readNonNegativeIntegerAs_nni [where n = "ucast (mi_type mi)"]
        element_ok_def view_def split: if_splits)
  have d2: "(case x2 of None \<Rightarrow> Inr 0
      | Some b \<Rightarrow> bindE (readNonNegativeInteger_block b) (\<lambda>n. Inr (sint n))) = Inr (mi_freshnessPeriod mi)"
    using x2(4) ok sint_word_of_int64 [of "mi_freshnessPeriod mi"]
    by (cases x2) (auto simp: option_rel_Some1 element_ok_def
        readNonNegativeInteger_nni [where n = "word_of_int (mi_freshnessPeriod mi)"] view_def mi_ok_def split: if_splits)
  obtain fin where d3: "(case x3 of None \<Rightarrow> Inr None
      | Some b \<Rightarrow> bindE (blockFromValue b) (\<lambda>v. bindE (Component_ofBlock v) (\<lambda>c. Inr (Some c)))) = Inr fin"
      "map_option view fin = map_option view (mi_finalBlockId mi)"
    using finalBlock_decode [OF x3(4)] ok by (auto simp: mi_ok_def)
  show ?thesis
    using w(1) x1(1) x2(1) x3(1,2) d1 d2 d3 assms(5)
    by (simp add: MetaInfo_wireDecode_def same_metaInfo_def)
qed

interpretation mi: packet_codec MetaInfo_wireEncode_enc tlv_MetaInfo mi_tlvs mi_ok MetaInfo_ofBlock
  same_metaInfo
proof (unfold_locales, goal_cases)
  case (2 x)
  then show ?case by (rule MetaInfo_wireEncode_prepends)
next
  case (4 x b)
  then show ?case
    unfolding MetaInfo_ofBlock_def by (intro MetaInfo_wireDecode_tlvs) (simp_all add: MetaInfo_default_def)
qed (simp_all add: mi_ok_def)

text \<open>
  A \<open>MetaInfo\<close> that the setters can produce is encoded to a block, and decoding the bytes of that
  block, whatever follows them, gives back its content type, freshness period, final block and
  application blocks.
\<close>

theorem metaInfo_round_trip:
  assumes "mi_ok x"
  shows "\<exists>w b y. makeBlock (MetaInfo_wireEncode_enc x) = Inr w \<and> Block_fromSpan (wire_bytes w @ rest) = Inr b \<and>
    MetaInfo_ofBlock b = Inr y \<and> same_metaInfo x y"
  using mi.encode_block [OF assms] mi.round_trip_bytes [OF assms, of rest] by simp

theorem metaInfo_round_trip_witness:
  "\<exists>w b y. makeBlock (MetaInfo_wireEncode_enc (MetaInfo_default\<lparr>mi_type := 2, mi_freshnessPeriod := 10000,
      mi_finalBlockId := Some (tlv_block 8 [65]), mi_appMetaInfo := [tlv_block 200 [1]]\<rparr>)) = Inr w \<and>
    Block_fromSpan (wire_bytes w @ []) = Inr b \<and> MetaInfo_ofBlock b = Inr y \<and>
    same_metaInfo (MetaInfo_default\<lparr>mi_type := 2, mi_freshnessPeriod := 10000,
      mi_finalBlockId := Some (tlv_block 8 [65]), mi_appMetaInfo := [tlv_block 200 [1]]\<rparr>) y"
  by (rule metaInfo_round_trip) code_simp

end
