(* ===== verification/Data.thy ===== *)
theory Data
  imports SignatureInfo MetaInfo
begin

text \<open>
  \<open>data.cpp\<close>: the Data packet, its fields, the cached wire and the cached full name; encoding with and
  without the signature, decoding, the signed range and the full name.  The SHA-256 function, which
  the code takes from OpenSSL, is a parameter.
\<close>

section \<open>Model\<close>

record data =
  d_name :: name
  d_metaInfo :: metaInfo
  d_content :: block
  d_signatureInfo :: signatureInfo
  d_signatureValue :: block
  d_wire :: block
  d_fullName :: name

definition Data_make :: "name \<Rightarrow> data" where
  "Data_make n =
     \<lparr>d_name = n, d_metaInfo = MetaInfo_default, d_content = Block_default,
      d_signatureInfo = SignatureInfo_default, d_signatureValue = Block_default,
      d_wire = Block_default, d_fullName = Name_default\<rparr>"

definition Data_hasContent :: "data \<Rightarrow> bool" where
  "Data_hasContent d \<longleftrightarrow> isValid (d_content d)"

definition Data_wireEncode_enc :: "bool \<Rightarrow> data \<Rightarrow> enc_op" where
  "Data_wireEncode_enc wantUnsignedPortionOnly d = runSteps
     ((if \<not> wantUnsignedPortionOnly then
         (if si_type (d_signatureInfo d) = -1
          then [\<lambda>_. throwEnc (DataError ''Requested wire format, but Data has not been signed'')]
          else [\<lambda>_. prependBlock (d_signatureValue d)])
       else []) @
      [\<lambda>_. SignatureInfo_wireEncode_enc SignatureInfo_Data (d_signatureInfo d)] @
      (if Data_hasContent d then [\<lambda>_. prependBlock (d_content d)] else []) @
      [\<lambda>_. MetaInfo_wireEncode_enc (d_metaInfo d)] @
      [\<lambda>_. Name_wireEncode_enc (d_name d)] @
      (if \<not> wantUnsignedPortionOnly
       then [\<lambda>totalLength. prependVarNumber (word_of_nat totalLength),
             \<lambda>_. prependVarNumber (ucast tlv_Data)]
       else []))"

fun Data_decode_loop :: "block list \<Rightarrow> nat \<Rightarrow> data \<Rightarrow> data result" where
  "Data_decode_loop [] lastElement d = Inr d"
| "Data_decode_loop (element # rest) lastElement d =
     (if m_type element = tlv_MetaInfo then
        if lastElement \<ge> 2 then Inl (DataError ''MetaInfo element is out of order'')
        else bindE (MetaInfo_wireDecode element (d_metaInfo d)) (\<lambda>mi.
               Data_decode_loop rest 2 (d\<lparr>d_metaInfo := mi\<rparr>))
      else if m_type element = tlv_Content then
        if lastElement \<ge> 3 then Inl (DataError ''Content element is out of order'')
        else Data_decode_loop rest 3 (d\<lparr>d_content := element\<rparr>)
      else if m_type element = tlv_SignatureInfo then
        if lastElement \<ge> 4 then Inl (DataError ''SignatureInfo element is out of order'')
        else bindE (SignatureInfo_wireDecode SignatureInfo_Data element) (\<lambda>si.
               Data_decode_loop rest 4 (d\<lparr>d_signatureInfo := si\<rparr>))
      else if m_type element = tlv_SignatureValue then
        if lastElement \<ge> 5 then Inl (DataError ''SignatureValue element is out of order'')
        else Data_decode_loop rest 5 (d\<lparr>d_signatureValue := element\<rparr>)
      else if isCriticalType (m_type element)
      then Inl (DataError (''Unrecognized element of critical type '' @ to_string (unat (m_type element))))
      else Data_decode_loop rest lastElement d)"

definition Data_wireDecode :: "block \<Rightarrow> data result" where
  "Data_wireDecode wire =
     (if m_type wire \<noteq> tlv_Data then Inl (DataError (expecting ''Data'' (m_type wire)))
      else bindE (parseE wire) (\<lambda>w.
        case m_elements w of
          [] \<Rightarrow> Inl (DataError ''Name element is missing or out of order'')
        | element # rest \<Rightarrow>
            if m_type element \<noteq> tlv_Name then Inl (DataError ''Name element is missing or out of order'')
            else bindE (Name_wireDecode element) (\<lambda>n.
              bindE (Data_decode_loop rest 1
                \<lparr>d_name = n, d_metaInfo = MetaInfo_default, d_content = Block_default,
                 d_signatureInfo = SignatureInfo_default, d_signatureValue = Block_default,
                 d_wire = w, d_fullName = Name_default\<rparr>) (\<lambda>d.
              if si_type (d_signatureInfo d) = -1 then Inl (DataError ''SignatureInfo element is missing'')
              else if \<not> isValid (d_signatureValue d) then Inl (DataError ''SignatureValue element is missing'')
              else Inr d))))"

text \<open>\<open>wireEncode(encoder, signature)\<close> completes the encoding of the unsigned portion.\<close>

definition Data_wireEncode_signature :: "encoder \<Rightarrow> byte list \<Rightarrow> data result" where
  "Data_wireEncode_signature e0 signature =
     (let totalLength = Encoder_size e0;
          (l1, e1) = Encoder_appendVarNumber (ucast tlv_SignatureValue) e0;
          (l2, e2) = Encoder_appendVarNumber (word_of_nat (length signature)) e1;
          (l3, e3) = Encoder_appendBytes signature e2;
          e4 = snd (Encoder_prependVarNumber (word_of_nat (totalLength + l1 + l2 + l3)) e3);
          e5 = snd (Encoder_prependVarNumber (ucast tlv_Data) e4)
      in bindE (Block_fromEncoder e5) Data_wireDecode)"

definition Data_wireEncode :: "data \<Rightarrow> data result" where
  "Data_wireEncode d =
     (if hasWire (d_wire d) then Inr d
      else bindE (makeBlock (Data_wireEncode_enc False d)) Data_wireDecode)"

definition Data_getFullName :: "(byte list \<Rightarrow> byte list) \<Rightarrow> data \<Rightarrow> (name \<times> data) result" where
  "Data_getFullName sha256 d =
     (if Name_empty (d_fullName d) then
        if \<not> hasWire (d_wire d)
        then Inl (DataError ''Cannot compute full name because Data has no wire encoding (not signed)'')
        else bindE (appendImplicitSha256Digest_buffer (sha256 (wire_bytes (d_wire d))) (d_name d)) (\<lambda>n.
               Inr (n, d\<lparr>d_fullName := n\<rparr>))
      else Inr (d_fullName d, d))"

definition Data_resetWire :: "data \<Rightarrow> data" where
  "Data_resetWire d = d\<lparr>d_wire := Block_reset (d_wire d), d_fullName := Name_clear (d_fullName d)\<rparr>"

definition Data_setName :: "name \<Rightarrow> data \<Rightarrow> data" where
  "Data_setName n d = (if \<not> Name_equals n (d_name d) then Data_resetWire (d\<lparr>d_name := n\<rparr>) else d)"

definition Data_setMetaInfo :: "metaInfo \<Rightarrow> data \<Rightarrow> data" where
  "Data_setMetaInfo metaInfo d = Data_resetWire (d\<lparr>d_metaInfo := metaInfo\<rparr>)"

definition Data_setContent_block :: "block \<Rightarrow> data \<Rightarrow> data result" where
  "Data_setContent_block b d =
     (if \<not> isValid b then Inl (InvalidArgument ''Content block must be valid'')
      else bindE (if m_type b = tlv_Content then Inr b else Block_ofBlock tlv_Content b) (\<lambda>c.
             Inr (Data_resetWire (d\<lparr>d_content := Block_encode c\<rparr>))))"

definition Data_setContent :: "byte list \<Rightarrow> data \<Rightarrow> data result" where
  "Data_setContent val d =
     bindE (makeBinaryBlock tlv_Content val) (\<lambda>c. Inr (Data_resetWire (d\<lparr>d_content := c\<rparr>)))"

text \<open>A null pointer is None.\<close>

definition Data_setContent_ptr :: "byte list option \<Rightarrow> nat \<Rightarrow> data \<Rightarrow> data result" where
  "Data_setContent_ptr val len d =
     (case val of
        None \<Rightarrow> if len \<noteq> 0 then Inl (InvalidArgument ''Content buffer cannot be nullptr'') else Data_setContent [] d
      | Some v \<Rightarrow> Data_setContent (take len v) d)"

definition Data_setContent_buffer :: "buffer option \<Rightarrow> data \<Rightarrow> data result" where
  "Data_setContent_buffer val d =
     (case val of
        None \<Rightarrow> Inl (InvalidArgument ''Content buffer cannot be nullptr'')
      | Some v \<Rightarrow> Inr (Data_resetWire (d\<lparr>d_content := Block_ofValue tlv_Content v\<rparr>)))"

definition Data_unsetContent :: "data \<Rightarrow> data" where
  "Data_unsetContent d = Data_resetWire (d\<lparr>d_content := Block_default\<rparr>)"

definition Data_setSignatureInfo :: "signatureInfo \<Rightarrow> data \<Rightarrow> data" where
  "Data_setSignatureInfo info d = Data_resetWire (d\<lparr>d_signatureInfo := info\<rparr>)"

definition Data_setSignatureValue :: "buffer option \<Rightarrow> data \<Rightarrow> data result" where
  "Data_setSignatureValue val d =
     (case val of
        None \<Rightarrow> Inl (InvalidArgument ''SignatureValue buffer cannot be nullptr'')
      | Some v \<Rightarrow> Inr (Data_resetWire (d\<lparr>d_signatureValue := Block_ofValue tlv_SignatureValue v\<rparr>)))"

text \<open>
  The range from the start of the value to the end of the element before SignatureValue, both iterators
  into the buffer of the wire.
\<close>

definition Data_extractSignedRanges :: "data \<Rightarrow> (byte list list \<times> data) result" where
  "Data_extractSignedRanges d0 =
     bindE (Data_wireEncode d0) (\<lambda>d.
       let w = d_wire d;
           lastSigned = m_elements w ! (Block_find tlv_SignatureValue w - 1)
       in case m_buffer w of
            None \<Rightarrow> Inl NullBuffer
          | Some buf \<Rightarrow> Inr ([bslice (m_valueBegin w) (m_end lastSigned) buf], d))"

definition Data_setContentType :: "uint32 \<Rightarrow> data \<Rightarrow> data" where
  "Data_setContentType type d =
     (if type \<noteq> mi_type (d_metaInfo d)
      then Data_resetWire (d\<lparr>d_metaInfo := MetaInfo_setType type (d_metaInfo d)\<rparr>) else d)"

definition Data_setFreshnessPeriod :: "int \<Rightarrow> data \<Rightarrow> data result" where
  "Data_setFreshnessPeriod freshnessPeriod d =
     (if freshnessPeriod \<noteq> mi_freshnessPeriod (d_metaInfo d)
      then bindE (MetaInfo_setFreshnessPeriod freshnessPeriod (d_metaInfo d)) (\<lambda>mi.
             Inr (Data_resetWire (d\<lparr>d_metaInfo := mi\<rparr>)))
      else Inr d)"

definition Data_setFinalBlock :: "block option \<Rightarrow> data \<Rightarrow> data" where
  "Data_setFinalBlock finalBlockId d =
     (if \<not> option_eq Component_equals finalBlockId (mi_finalBlockId (d_metaInfo d))
      then Data_resetWire (d\<lparr>d_metaInfo := MetaInfo_setFinalBlock finalBlockId (d_metaInfo d)\<rparr>) else d)"

definition Data_eq :: "data \<Rightarrow> data \<Rightarrow> bool result" where
  "Data_eq lhs rhs =
     (if \<not> Name_equals (d_name lhs) (d_name rhs) then Inr False
      else bindE (MetaInfo_wireEncode (d_metaInfo lhs)) (\<lambda>a. bindE (MetaInfo_wireEncode (d_metaInfo rhs)) (\<lambda>b.
        Inr (block_eq (mi_wire a) (mi_wire b) \<and> block_eq (d_content lhs) (d_content rhs) \<and>
          SignatureInfo_eq (d_signatureInfo lhs) (d_signatureInfo rhs) \<and>
          block_eq (d_signatureValue lhs) (d_signatureValue rhs)))))"

definition Data_print :: "(int \<Rightarrow> string) \<Rightarrow> string option \<Rightarrow> data \<Rightarrow> string result" where
  "Data_print showMilliseconds env d =
     bindE (Name_toUri env UriFormat_DEFAULT (d_name d)) (\<lambda>n.
     bindE (MetaInfo_print showMilliseconds env (d_metaInfo d)) (\<lambda>mi.
       Inr (''Name: '' @ n @ [CHR 0x0A] @ ''MetaInfo: ['' @ mi @ '']'' @ [CHR 0x0A] @
         (if Data_hasContent d
          then ''Content: ['' @ to_string (value_size (d_content d)) @ '' bytes]'' @ [CHR 0x0A] else []) @
         ''Signature: [type: '' @ print_SignatureTypeValue (word_of_int (si_type (d_signatureInfo d))) @
         '', length: '' @ to_string (value_size (d_signatureValue d)) @ '']'' @ [CHR 0x0A])))"

section \<open>Wire coding\<close>

definition d_unsigned_tlvs :: "data \<Rightarrow> (uint32 \<times> byte list) list" where
  "d_unsigned_tlvs d =
     [(tlv_Name, tlvs_bytes (name_view (d_name d))), (tlv_MetaInfo, tlvs_bytes (mi_tlvs (d_metaInfo d)))] @
     (if Data_hasContent d then [(tlv_Content, value_bytes (d_content d))] else []) @
     [(tlv_SignatureInfo, tlvs_bytes (si_tlvs (d_signatureInfo d)))]"

definition d_tlvs :: "data \<Rightarrow> (uint32 \<times> byte list) list" where
  "d_tlvs d = d_unsigned_tlvs d @ [(tlv_SignatureValue, value_bytes (d_signatureValue d))]"

definition d_unsigned_ok :: "data \<Rightarrow> bool" where
  "d_unsigned_ok d \<longleftrightarrow> name_ok (d_name d) \<and> mi_ok (d_metaInfo d) \<and> si_ok (d_signatureInfo d) \<and>
     (Data_hasContent d \<longrightarrow> wf_block (d_content d) \<and> shortest (d_content d) \<and> m_type (d_content d) = tlv_Content)"

definition d_ok :: "data \<Rightarrow> bool" where
  "d_ok d \<longleftrightarrow> d_unsigned_ok d \<and> wf_block (d_signatureValue d) \<and> shortest (d_signatureValue d) \<and>
     m_type (d_signatureValue d) = tlv_SignatureValue \<and> length (tlvs_bytes (d_tlvs d)) < 2 ^ 64"

text \<open>The same fields, apart from the signature value.\<close>

definition same_unsigned :: "data \<Rightarrow> data \<Rightarrow> bool" where
  "same_unsigned a b \<longleftrightarrow> name_view (d_name b) = name_view (d_name a) \<and> same_metaInfo (d_metaInfo a) (d_metaInfo b) \<and>
     (if Data_hasContent a then view (d_content b) = view (d_content a) else \<not> Data_hasContent b) \<and>
     same_signatureInfo (d_signatureInfo a) (d_signatureInfo b)"

definition same_data :: "data \<Rightarrow> data \<Rightarrow> bool" where
  "same_data a b \<longleftrightarrow> same_unsigned a b \<and> view (d_signatureValue b) = view (d_signatureValue a)"

lemma name_ok_components: "name_ok n \<Longrightarrow> list_all wf_block (components n)"
  by (auto simp: name_ok_def component_ok_def list_all_iff)

lemma Data_unsigned_prepends:
  assumes "d_unsigned_ok d"
  shows "prepends (Data_wireEncode_enc True d) (tlvs_bytes (d_unsigned_tlvs d))"
  unfolding Data_wireEncode_enc_def append_assoc [symmetric]
  by (simp only: not_True_eq_False if_False if_True append_Nil append_Nil2)
    (rule prepends_elements, (rule prepends_rules Name_wireEncode_prepends mi.enc_prepends
        si.enc_prepends [of _ SignatureInfo_Data, unfolded sigInfo_tlv.simps] |
      (use assms in \<open>auto simp: d_unsigned_ok_def d_unsigned_tlvs_def name_ok_components\<close>; fail)[1])+)

lemma Data_prepends:
  assumes "d_ok d"
  shows "prepends (Data_wireEncode_enc False d) (tlv_bytes tlv_Data (tlvs_bytes (d_tlvs d)))"
proof -
  have "si_type (d_signatureInfo d) \<noteq> -1" using assms by (simp add: d_ok_def d_unsigned_ok_def si_ok_def)
  then show ?thesis
    unfolding Data_wireEncode_enc_def append_assoc [symmetric]
    by (simp only: not_False_eq_True if_False if_True append_Nil append_Nil2)
      (rule prepends_element, (rule prepends_rules Name_wireEncode_prepends mi.enc_prepends
          si.enc_prepends [of _ SignatureInfo_Data, unfolded sigInfo_tlv.simps] |
        (use assms in \<open>auto simp: d_ok_def d_unsigned_ok_def d_unsigned_tlvs_def d_tlvs_def name_ok_components\<close>; fail)[1])+)
qed

text \<open>
  Decoding the elements: the unsigned fields are read back whatever the last element is, and the last
  element becomes the signature value.
\<close>

lemma d_tlvs_ok:
  assumes "d_unsigned_ok d" "length (tlvs_bytes (d_unsigned_tlvs d @ [(tlv_SignatureValue, sig)])) < 2 ^ 64"
  shows "tlvs_ok (d_unsigned_tlvs d @ [(tlv_SignatureValue, sig)])"
  using assms(2) by (rule tlvs_okI) (simp add: d_unsigned_tlvs_def)

lemma Data_decode_elements:
  assumes ok: "d_unsigned_ok d"
    and els: "map view els = tl (d_unsigned_tlvs d) @ [(tlv_SignatureValue, sig)]" "list_all element_ok els"
    and d0: "d_metaInfo d0 = MetaInfo_default" "\<not> Data_hasContent d0"
  shows "\<exists>d'. Data_decode_loop els 1 d0 = Inr d' \<and> d_name d' = d_name d0 \<and> d_wire d' = d_wire d0 \<and>
    same_metaInfo (d_metaInfo d) (d_metaInfo d') \<and>
    (if Data_hasContent d then view (d_content d') = view (d_content d) else \<not> Data_hasContent d') \<and>
    same_signatureInfo (d_signatureInfo d) (d_signatureInfo d') \<and> view (d_signatureValue d') = (tlv_SignatureValue, sig)"
proof -
  obtain x1 els1 where x1: "els = x1 # els1" "view x1 = (tlv_MetaInfo, tlvs_bytes (mi_tlvs (d_metaInfo d)))"
    "element_ok x1" "list_all element_ok els1"
    "map view els1 = (if Data_hasContent d then [(tlv_Content, value_bytes (d_content d))] else []) @
      [(tlv_SignatureInfo, tlvs_bytes (si_tlvs (d_signatureInfo d))), (tlv_SignatureValue, sig)]"
    using els by (cases els) (auto simp: d_unsigned_tlvs_def)
  obtain mi where mi: "MetaInfo_wireDecode x1 MetaInfo_default = Inr mi" "same_metaInfo (d_metaInfo d) mi"
    using mi.decode_tlvs [of "d_metaInfo d" x1] x1(2,3) ok by (auto simp: element_ok_def d_unsigned_ok_def MetaInfo_ofBlock_def)
  let ?d1 = "d0\<lparr>d_metaInfo := mi\<rparr>"
  have l1: "Data_decode_loop els 1 d0 = Data_decode_loop els1 2 ?d1"
    using x1(1,2) mi(1) d0(1) by (simp add: view_def)
  obtain d2 k els2 where d2: "Data_decode_loop els1 2 ?d1 = Data_decode_loop els2 k d2" "k < 4"
    "map view els2 = [(tlv_SignatureInfo, tlvs_bytes (si_tlvs (d_signatureInfo d))), (tlv_SignatureValue, sig)]"
    "list_all element_ok els2" "d_name d2 = d_name d0" "d_wire d2 = d_wire d0" "d_metaInfo d2 = mi"
    "if Data_hasContent d then view (d_content d2) = view (d_content d) else \<not> Data_hasContent d2"
  proof (cases "Data_hasContent d")
    case True
    then obtain x2 els2 where x2: "els1 = x2 # els2" "view x2 = (tlv_Content, value_bytes (d_content d))" "list_all element_ok els2"
      "map view els2 = [(tlv_SignatureInfo, tlvs_bytes (si_tlvs (d_signatureInfo d))), (tlv_SignatureValue, sig)]"
      using x1(4,5) by (cases els1) auto
    have "view x2 = view (d_content d)" using x2(2) ok True by (simp add: d_unsigned_ok_def view_def)
    then show ?thesis using x2 True by (intro that [of els2 3 "?d1\<lparr>d_content := x2\<rparr>"]) (simp_all add: view_def)
  next
    case False
    then show ?thesis using x1(4,5) d0(2)
      by (intro that [of els1 2 ?d1]) (simp_all add: Data_hasContent_def)
  qed
  obtain x3 x4 where x34: "els2 = [x3, x4]" "view x3 = (tlv_SignatureInfo, tlvs_bytes (si_tlvs (d_signatureInfo d)))"
    "view x4 = (tlv_SignatureValue, sig)" "element_ok x3" using d2(3,4) by auto
  obtain si where si: "SignatureInfo_wireDecode SignatureInfo_Data x3 = Inr si" "same_signatureInfo (d_signatureInfo d) si"
    using si.decode_tlvs [of "d_signatureInfo d" x3 SignatureInfo_Data] x34(2,4) ok by (auto simp: element_ok_def d_unsigned_ok_def)
  have "Data_decode_loop els2 k d2 = Inr (d2\<lparr>d_signatureInfo := si, d_signatureValue := x4\<rparr>)"
    using x34 si(1) d2(2) by (simp add: view_def)
  with l1 d2 mi(2) si(2) x34(3) show ?thesis by (auto simp: Data_hasContent_def)
qed

lemma Data_wireDecode_tlvs:
  assumes ok: "d_unsigned_ok d" and len: "length (tlvs_bytes (d_unsigned_tlvs d @ [(tlv_SignatureValue, sig)])) < 2 ^ 64"
    and b: "wf_block b" "hasWire b" "m_elements b = []"
      "view b = (tlv_Data, tlvs_bytes (d_unsigned_tlvs d @ [(tlv_SignatureValue, sig)]))"
  obtains d' w where "parseE b = Inr w" "Data_wireDecode b = Inr d'" "same_unsigned d d'" "d_wire d' = w"
    "view (d_signatureValue d') = (tlv_SignatureValue, sig)"
    "map view (m_elements w) = d_unsigned_tlvs d @ [(tlv_SignatureValue, sig)]"
proof -
  let ?tvs = "d_unsigned_tlvs d @ [(tlv_SignatureValue, sig)]"
  have vb: "value_bytes b = tlvs_bytes ?tvs" and ty: "m_type b = tlv_Data" using b(4) by (simp_all add: view_def)
  obtain w where w: "parseE b = Inr w" "map view (m_elements w) = ?tvs" "list_all element_ok (m_elements w)"
    using parseE_elements [OF b(1,3) vb d_tlvs_ok [OF ok len]] by metis
  obtain x els where x: "m_elements w = x # els" "view x = (tlv_Name, tlvs_bytes (name_view (d_name d)))" "element_ok x"
    "map view els = tl (d_unsigned_tlvs d) @ [(tlv_SignatureValue, sig)]" "list_all element_ok els"
    using w(2,3) by (cases "m_elements w") (auto simp: d_unsigned_tlvs_def)
  have "tlvs_ok (name_view (d_name d))" using ok by (simp add: d_unsigned_ok_def name_ok_tlvs)
  from Name_wireDecode_tlvs [OF element_okD(1,4) [OF x(3)] x(2) this]
  obtain n where n: "Name_wireDecode x = Inr n" "name_view n = name_view (d_name d)" by metis
  let ?d0 = "\<lparr>d_name = n, d_metaInfo = MetaInfo_default, d_content = Block_default,
     d_signatureInfo = SignatureInfo_default, d_signatureValue = Block_default, d_wire = w, d_fullName = Name_default\<rparr>"
  obtain d' where d': "Data_decode_loop els 1 ?d0 = Inr d'" "d_name d' = n" "d_wire d' = w"
    "same_metaInfo (d_metaInfo d) (d_metaInfo d')"
    "if Data_hasContent d then view (d_content d') = view (d_content d) else \<not> Data_hasContent d'"
    "same_signatureInfo (d_signatureInfo d) (d_signatureInfo d')" "view (d_signatureValue d') = (tlv_SignatureValue, sig)"
    using Data_decode_elements [OF ok x(4,5), of ?d0] by (auto simp: Data_hasContent_def isValid_def Block_default_def)
  have "si_type (d_signatureInfo d') \<noteq> -1" using d'(6) ok
    by (simp add: same_signatureInfo_def d_unsigned_ok_def si_ok_def)
  moreover have "isValid (d_signatureValue d')" using d'(7) by (simp add: isValid_def view_def)
  ultimately have "Data_wireDecode b = Inr d'"
    using ty w(1) x(1,2) n(1) d'(1) by (simp add: Data_wireDecode_def view_def)
  then show ?thesis using that w(1,2) d' n(2) by (simp add: same_unsigned_def)
qed

interpretation dat: packet_codec "Data_wireEncode_enc False" tlv_Data d_tlvs d_ok Data_wireDecode same_data
proof (unfold_locales, goal_cases)
  case (2 x)
  then show ?case by (rule Data_prepends)
next
  case (4 x b)
  then have "view (d_signatureValue x) = (tlv_SignatureValue, value_bytes (d_signatureValue x))"
    by (simp add: d_ok_def view_def)
  with 4 show ?case
    by (elim Data_wireDecode_tlvs [of x "value_bytes (d_signatureValue x)" b, rotated 2])
      (auto simp: d_ok_def d_tlvs_def same_data_def)
qed (simp_all add: d_ok_def)


section \<open>Signing\<close>

lemma Block_find_unsigned:
  assumes "map view (m_elements w) = d_unsigned_tlvs d @ [(tlv_SignatureValue, sig)]"
  shows "Block_find tlv_SignatureValue w = length (d_unsigned_tlvs d)"
proof -
  have "map m_type (m_elements w) = map fst (d_unsigned_tlvs d @ [(tlv_SignatureValue, sig)])"
    using arg_cong [OF assms, of "map fst"] by (simp add: comp_def)
  moreover have "length (takeWhile (\<lambda>s. m_type s \<noteq> t) els) = length (takeWhile (\<lambda>x. x \<noteq> t) (map m_type els))" for t els
    by (induction els) auto
  ultimately show ?thesis by (simp add: Block_find_def d_unsigned_tlvs_def)
qed

lemma signed_range:
  assumes ok: "d_unsigned_ok d" and len: "length (tlvs_bytes (d_unsigned_tlvs d @ [(tlv_SignatureValue, sig)])) < 2 ^ 64"
    and b: "wf_block b" "hasWire b" "m_elements b = []"
      "view b = (tlv_Data, tlvs_bytes (d_unsigned_tlvs d @ [(tlv_SignatureValue, sig)]))"
    and d': "Data_wireDecode b = Inr d'"
  shows "Data_extractSignedRanges d' = Inr ([tlvs_bytes (d_unsigned_tlvs d)], d')"
proof -
  let ?tvs = "d_unsigned_tlvs d @ [(tlv_SignatureValue, sig)]"
  obtain d1 w where w: "parseE b = Inr w" "Data_wireDecode b = Inr d1" "d_wire d1 = w" "map view (m_elements w) = ?tvs"
    by (rule Data_wireDecode_tlvs [OF ok len b])
  have vb: "value_bytes b = tlvs_bytes ?tvs" using b(4) by (simp add: view_def)
  obtain buf where buf: "m_buffer w = Some buf"
    "bslice (m_valueBegin w) (m_end (m_elements w ! (length (d_unsigned_tlvs d) - 1))) buf =
       tlvs_bytes (take (length (d_unsigned_tlvs d)) ?tvs)"
    by (rule parseE_range [OF b(1,3) vb d_tlvs_ok [OF ok len] _ _ w(1), of "length (d_unsigned_tlvs d)"])
      (simp_all add: d_unsigned_tlvs_def)
  have "hasWire w" using parse_same [of b None w] w(1) b(2) by (auto simp: parseE_def split: prod.splits option.splits)
  then show ?thesis using w d' buf Block_find_unsigned [OF w(4)]
    by (simp add: Data_extractSignedRanges_def Data_wireEncode_def Let_def)
qed

lemma appended_lengths:
  "fst (Encoder_appendVarNumber n e) = sizeOfVarNumber n"
  "enc_inv e \<Longrightarrow> fst (Encoder_appendBytes bs e) = length bs"
proof -
  show "fst (Encoder_appendVarNumber n e) = sizeOfVarNumber n"
    by (simp add: Encoder_appendVarNumber_def sizeOfVarNumber_def)
  show "enc_inv e \<Longrightarrow> fst (Encoder_appendBytes bs e) = length bs"
    using appendRange_spec(1) [of e bs] by (cases "Encoder_appendRange bs e") (simp add: Encoder_appendBytes_def)
qed

lemma signature_appended:
  assumes "enc_inv e" "contents e = u" "length (u @ tlv_bytes tlv_SignatureValue sig) < 2 ^ 64"
  obtains b where "Data_wireEncode_signature e sig = Data_wireDecode b" "wf_block b" "hasWire b" "m_elements b = []"
    "view b = (tlv_Data, u @ tlv_bytes tlv_SignatureValue sig)"
proof -
  obtain l1 e1 where e1: "Encoder_appendVarNumber (ucast tlv_SignatureValue) e = (l1, e1)" by fastforce
  obtain l2 e2 where e2: "Encoder_appendVarNumber (word_of_nat (length sig)) e1 = (l2, e2)" by fastforce
  obtain l3 e3 where e3: "Encoder_appendBytes sig e2 = (l3, e3)" by fastforce
  have i1: "enc_inv e1" "contents e1 = u @ varNumber_bytes (ucast tlv_SignatureValue)"
    using Encoder_appendVarNumber_spec [OF assms(1), of "ucast tlv_SignatureValue"] e1 assms(2) by simp_all
  have i2: "enc_inv e2" "contents e2 = contents e1 @ varNumber_bytes (word_of_nat (length sig))"
    using Encoder_appendVarNumber_spec [OF i1(1), of "word_of_nat (length sig)"] e2 by simp_all
  have i3: "enc_inv e3" "contents e3 = u @ tlv_bytes tlv_SignatureValue sig"
    using Encoder_appendBytes_spec [OF i2(1), of sig] e3 i1 i2 by (simp_all add: tlv_bytes_def)
  let ?v = "u @ tlv_bytes tlv_SignatureValue sig"
  have n: "Encoder_size e + l1 + l2 + l3 = length ?v"
    using length_contents [OF assms(1)] appended_lengths(1) [of "ucast tlv_SignatureValue" e] e1
      appended_lengths(1) [of "word_of_nat (length sig)" e1] e2 appended_lengths(2) [OF i2(1), of sig] e3 assms(2)
    by (simp add: length_tlv_bytes)
  let ?e5 = "snd (Encoder_prependVarNumber (ucast tlv_Data) (snd (Encoder_prependVarNumber (word_of_nat (length ?v)) e3)))"
  have "enc_inv ?e5" "contents ?e5 = tlv_bytes tlv_Data ?v"
    using i3 by (simp_all add: Encoder_prependVarNumber_spec tlv_bytes_def)
  moreover have "length ?v < 2 ^ 64" by (rule assms(3))
  ultimately obtain b where b: "Block_fromEncoder ?e5 = Inr b" "wf_block b" "hasWire b" "view b = (tlv_Data, ?v)"
    using Block_fromEncoder_tlv [of ?e5 tlv_Data ?v] by auto
  moreover have "m_elements b = []"
    using b(1) \<open>enc_inv ?e5\<close> Block_fromRange_Inr(5) by (simp add: Block_fromEncoder_def enc_inv_def)
  moreover have "Data_wireEncode_signature e sig = Data_wireDecode b"
    by (simp only: Data_wireEncode_signature_def Let_def e1 e2 e3 prod.case n b(1) bindE_Inr)
  ultimately show ?thesis using that by blast
qed

section \<open>Properties\<close>

text \<open>
  C26: A signed Data packet survives encoding and decoding: name, meta information, content, signature
  information and signature value of what is decoded are those of what was encoded.
\<close>

theorem data_round_trip:
  assumes "d_ok x"
  shows "\<exists>w b y. makeBlock (Data_wireEncode_enc False x) = Inr w \<and> Block_fromSpan (wire_bytes w @ rest) = Inr b \<and>
    Data_wireDecode b = Inr y \<and> same_data x y"
  using dat.encode_block [OF assms] dat.round_trip_bytes [OF assms, of rest] by auto

theorem data_round_trip_witness:
  "\<exists>w b y. makeBlock (Data_wireEncode_enc False (Data_make (Name_append (tlv_block 8 [65]) Name_default)
      \<lparr>d_content := Block_ofValue 21 [1, 2], d_signatureInfo := SignatureInfo_make 3 None,
       d_signatureValue := Block_ofValue 23 [9]\<rparr>)) = Inr w \<and>
    Block_fromSpan (wire_bytes w @ []) = Inr b \<and> Data_wireDecode b = Inr y \<and>
    same_data (Data_make (Name_append (tlv_block 8 [65]) Name_default)
      \<lparr>d_content := Block_ofValue 21 [1, 2], d_signatureInfo := SignatureInfo_make 3 None,
       d_signatureValue := Block_ofValue 23 [9]\<rparr>) y"
  by (rule data_round_trip) code_simp

text \<open>
  C9: Signing in two steps is sound.  \<open>wireEncode(encoder, true)\<close> leaves the unsigned portion in the
  encoder; \<open>wireEncode(encoder, signature)\<close> on top of it gives a packet with the same fields and that
  signature, and what \<open>extractSignedRanges\<close> returns for it is byte for byte what was in the encoder when the
  signature was computed.
\<close>

theorem data_sign_verify:
  assumes "d_unsigned_ok d" "length (tlvs_bytes (d_unsigned_tlvs d) @ tlv_bytes tlv_SignatureValue sig) < 2 ^ 64"
  shows "\<exists>len e d'. Data_wireEncode_enc True d (EncoderImpl (mk_Encoder n r)) = Inr (len, EncoderImpl e) \<and>
    Data_wireEncode_signature e sig = Inr d' \<and> same_unsigned d d' \<and>
    view (d_signatureValue d') = (tlv_SignatureValue, sig) \<and>
    Data_extractSignedRanges d' = Inr ([contents e], d')"
proof -
  obtain e where e: "Data_wireEncode_enc True d (EncoderImpl (mk_Encoder n r)) =
      Inr (length (tlvs_bytes (d_unsigned_tlvs d)), EncoderImpl e)" "enc_inv e" "contents e = tlvs_bytes (d_unsigned_tlvs d)"
    using prepends_encoder [OF Data_unsigned_prepends [OF assms(1)] mk_Encoder_inv [of n r]] by auto
  obtain b where b: "Data_wireEncode_signature e sig = Data_wireDecode b" "wf_block b" "hasWire b" "m_elements b = []"
    "view b = (tlv_Data, tlvs_bytes (d_unsigned_tlvs d) @ tlv_bytes tlv_SignatureValue sig)"
    by (rule signature_appended [OF e(2,3) assms(2)])
  have len: "length (tlvs_bytes (d_unsigned_tlvs d @ [(tlv_SignatureValue, sig)])) < 2 ^ 64"
    and v: "view b = (tlv_Data, tlvs_bytes (d_unsigned_tlvs d @ [(tlv_SignatureValue, sig)]))"
    using assms(2) b(5) by simp_all
  obtain d' w where d': "Data_wireDecode b = Inr d'" "same_unsigned d d'"
    "view (d_signatureValue d') = (tlv_SignatureValue, sig)"
    by (rule Data_wireDecode_tlvs [OF assms(1) len b(2-4) v])
  show ?thesis
    using e(1,3) b(1) d' signed_range [OF assms(1) len b(2-4) v d'(1)] by auto
qed

theorem data_sign_verify_witness:
  "\<exists>len e d'. Data_wireEncode_enc True (Data_make (Name_append (tlv_block 8 [65]) Name_default)
      \<lparr>d_signatureInfo := SignatureInfo_make 3 None\<rparr>) (EncoderImpl (mk_Encoder 8800 100)) = Inr (len, EncoderImpl e) \<and>
    Data_wireEncode_signature e [1, 2, 3] = Inr d' \<and>
    same_unsigned (Data_make (Name_append (tlv_block 8 [65]) Name_default) \<lparr>d_signatureInfo := SignatureInfo_make 3 None\<rparr>) d' \<and>
    view (d_signatureValue d') = (tlv_SignatureValue, [1, 2, 3]) \<and>
    Data_extractSignedRanges d' = Inr ([contents e], d')"
  by (rule data_sign_verify; code_simp)

section \<open>The cached full name\<close>

text \<open>The calls that change a Data object, with the SHA-256 function as a parameter.\<close>

inductive data_reachable :: "(byte list \<Rightarrow> byte list) \<Rightarrow> data \<Rightarrow> bool" for sha256 where
  "data_reachable sha256 (Data_make n)"
| "Data_wireDecode b = Inr d \<Longrightarrow> data_reachable sha256 d"
| "data_reachable sha256 d \<Longrightarrow> Data_wireEncode d = Inr d' \<Longrightarrow> data_reachable sha256 d'"
| "data_reachable sha256 d \<Longrightarrow> Data_wireEncode_signature e sig = Inr d' \<Longrightarrow> data_reachable sha256 d'"
| "data_reachable sha256 d \<Longrightarrow> Data_getFullName sha256 d = Inr (n, d') \<Longrightarrow> data_reachable sha256 d'"
| "data_reachable sha256 d \<Longrightarrow> Data_extractSignedRanges d = Inr (r, d') \<Longrightarrow> data_reachable sha256 d'"
| "data_reachable sha256 d \<Longrightarrow> data_reachable sha256 (Data_setName n d)"
| "data_reachable sha256 d \<Longrightarrow> data_reachable sha256 (Data_setMetaInfo mi d)"
| "data_reachable sha256 d \<Longrightarrow> Data_setContent_block b d = Inr d' \<Longrightarrow> data_reachable sha256 d'"
| "data_reachable sha256 d \<Longrightarrow> Data_setContent v d = Inr d' \<Longrightarrow> data_reachable sha256 d'"
| "data_reachable sha256 d \<Longrightarrow> Data_setContent_ptr p len d = Inr d' \<Longrightarrow> data_reachable sha256 d'"
| "data_reachable sha256 d \<Longrightarrow> Data_setContent_buffer p d = Inr d' \<Longrightarrow> data_reachable sha256 d'"
| "data_reachable sha256 d \<Longrightarrow> data_reachable sha256 (Data_unsetContent d)"
| "data_reachable sha256 d \<Longrightarrow> data_reachable sha256 (Data_setSignatureInfo si d)"
| "data_reachable sha256 d \<Longrightarrow> Data_setSignatureValue p d = Inr d' \<Longrightarrow> data_reachable sha256 d'"
| "data_reachable sha256 d \<Longrightarrow> data_reachable sha256 (Data_setContentType t d)"
| "data_reachable sha256 d \<Longrightarrow> Data_setFreshnessPeriod f d = Inr d' \<Longrightarrow> data_reachable sha256 d'"
| "data_reachable sha256 d \<Longrightarrow> data_reachable sha256 (Data_setFinalBlock c d)"

definition fullName_fresh :: "(byte list \<Rightarrow> byte list) \<Rightarrow> data \<Rightarrow> bool" where
  "fullName_fresh sha256 d \<longleftrightarrow> Name_empty (d_fullName d) \<or>
     (hasWire (d_wire d) \<and>
      appendImplicitSha256Digest_buffer (sha256 (wire_bytes (d_wire d))) (d_name d) = Inr (d_fullName d))"

lemma fresh_reset: "fullName_fresh sha256 (Data_resetWire d)"
  by (simp add: fullName_fresh_def Data_resetWire_def Name_empty_def Name_clear_def Block_ofType_def)

lemma decode_loop_fullName: "Data_decode_loop els k d = Inr d' \<Longrightarrow> d_fullName d' = d_fullName d"
  by (induction els k d rule: Data_decode_loop.induct) (auto simp: bindE_eq_Inr split: if_splits)

lemma fresh_decode:
  assumes "Data_wireDecode b = Inr d"
  shows "fullName_fresh sha256 d"
proof -
  obtain w where w: "parseE b = Inr w" using assms by (auto simp: Data_wireDecode_def bindE_eq_Inr split: if_splits)
  then have "d_fullName d = Name_default"
    using assms by (cases "m_elements w")
      (auto simp: Data_wireDecode_def bindE_eq_Inr dest!: decode_loop_fullName split: if_splits)
  then show ?thesis by (simp add: fullName_fresh_def Name_empty_def Name_default_def Block_ofType_def)
qed

lemma fresh_wireEncode: "fullName_fresh sha256 d \<Longrightarrow> Data_wireEncode d = Inr d' \<Longrightarrow> fullName_fresh sha256 d'"
  by (auto simp: Data_wireEncode_def bindE_eq_Inr fresh_decode split: if_splits)

lemma data_reachable_fresh: "data_reachable sha256 d \<Longrightarrow> fullName_fresh sha256 d"
proof (induction rule: data_reachable.induct)
  case (1 n)
  then show ?case by (simp add: fullName_fresh_def Data_make_def Name_empty_def Name_default_def Block_ofType_def)
next
  case (4 d e sig d')
  then show ?case
    by (auto simp: Data_wireEncode_signature_def Let_def bindE_eq_Inr fresh_decode split: prod.splits)
next
  case (5 d n d')
  then show ?case by (auto simp: Data_getFullName_def fullName_fresh_def bindE_eq_Inr split: if_splits)
next
  case (6 d r d')
  then show ?case
    by (auto simp: Data_extractSignedRanges_def bindE_eq_Inr Let_def split: option.splits intro: fresh_wireEncode)
qed (auto simp: fresh_decode fresh_wireEncode fresh_reset Data_setName_def Data_setMetaInfo_def Data_setContent_block_def
    Data_setContent_def Data_setContent_ptr_def Data_setContent_buffer_def Data_unsetContent_def
    Data_setSignatureInfo_def Data_setSignatureValue_def Data_setContentType_def Data_setFreshnessPeriod_def
    Data_setFinalBlock_def bindE_eq_Inr split: if_splits option.splits)

text \<open>On a fresh object with a wire, the full name is the name and the digest of the wire.\<close>

definition digest_component :: "(byte list \<Rightarrow> byte list) \<Rightarrow> data \<Rightarrow> block" where
  "digest_component sha256 d = Block_ofValue tlv_ImplicitSha256DigestComponent (sha256 (wire_bytes (d_wire d)))"

lemma appendImplicitSha256Digest_32:
  assumes "length h = 32"
  shows "appendImplicitSha256Digest_buffer h n = Inr (Name_append (Block_ofValue tlv_ImplicitSha256DigestComponent h) n)"
proof -
  have "Component_ofBlock (Block_ofValue tlv_ImplicitSha256DigestComponent h) = Inr (Block_ofValue tlv_ImplicitSha256DigestComponent h)"
    using assms Component_ofBuffer_valid [of tlv_ImplicitSha256DigestComponent h]
    by (simp add: Component_ofBuffer_def Component_ofBlock_def valid_tv_def)
  then show ?thesis
    by (simp add: appendImplicitSha256Digest_buffer_def Name_appendE_def fromImplicitSha256Digest_buffer_def getComponentType1_def)
qed

lemma fullName_value:
  assumes "fullName_fresh sha256 d" "\<And>x. length (sha256 x) = 32" "hasWire (d_wire d)"
  obtains d' where "Data_getFullName sha256 d = Inr (Name_append (digest_component sha256 d) (d_name d), d')"
    "d_metaInfo d' = d_metaInfo d" "d_wire d' = d_wire d"
proof -
  note app = appendImplicitSha256Digest_32 [OF assms(2), of "wire_bytes (d_wire d)" "d_name d"]
  have "d_fullName d = Name_append (digest_component sha256 d) (d_name d)" if "\<not> Name_empty (d_fullName d)"
    using assms(1) that app by (simp add: fullName_fresh_def digest_component_def)
  then show ?thesis
    using that [of d] that [of "d\<lparr>d_fullName := Name_append (digest_component sha256 d) (d_name d)\<rparr>"] assms(3) app
    by (cases "Name_empty (d_fullName d)") (simp_all add: Data_getFullName_def digest_component_def)
qed

text \<open>
  C27: The full name is never stale: on a Data object reached by any sequence of calls, \<open>getFullName\<close>
  returns the current name followed by the digest of the current wire, whether it is computed or
  taken from the cache, and it returns one exactly when the object has a wire.
\<close>

theorem data_fullName_current:
  assumes "data_reachable sha256 d" "\<And>x. length (sha256 x) = 32"
  shows "case Data_getFullName sha256 d of
      Inl e \<Rightarrow> \<not> hasWire (d_wire d)
    | Inr (n, d') \<Rightarrow> hasWire (d_wire d) \<and>
        name_view n = name_view (d_name d) @ [(tlv_ImplicitSha256DigestComponent, sha256 (wire_bytes (d_wire d)))]"
proof (cases "hasWire (d_wire d)")
  case True
  from fullName_value [OF data_reachable_fresh [OF assms(1)] assms(2) True]
  obtain d' where "Data_getFullName sha256 d = Inr (Name_append (digest_component sha256 d) (d_name d), d')" by auto
  with True show ?thesis by (simp add: digest_component_def)
next
  case False
  then show ?thesis using data_reachable_fresh [OF assms(1)] by (simp add: Data_getFullName_def fullName_fresh_def)
qed

theorem data_fullName_current_witness:
  "case Data_getFullName (\<lambda>_. replicate 32 0) (projr (Data_wireDecode (tlv_block 6 [7, 0, 22, 3, 27, 1, 0, 23, 0]))) of
      Inl e \<Rightarrow> False
    | Inr (n, d') \<Rightarrow> name_view n = [(tlv_ImplicitSha256DigestComponent, replicate 32 0)]"
proof -
  let ?d = "projr (Data_wireDecode (tlv_block 6 [7, 0, 22, 3, 27, 1, 0, 23, 0]))"
  have d: "Data_wireDecode (tlv_block 6 [7, 0, 22, 3, 27, 1, 0, 23, 0]) = Inr ?d" "hasWire (d_wire ?d)" "name_view (d_name ?d) = []"
    by code_simp+
  show ?thesis
    using data_fullName_current [OF data_reachable.intros(2) [OF d(1)], of "\<lambda>_. replicate 32 0"] d(2,3)
    by (auto split: sum.splits)
qed

end
