(* ===== verification/Interest.thy ===== *)
theory Interest
  imports Data "HOL-Library.Stream"
begin

text \<open>
  \<open>interest.cpp\<close>: the Interest packet, its parameters and their digest in the name, matching, signing and
  wire coding.  SHA-256 is a parameter.  So are the random words behind nonces, the process-wide settings
  \<open>s_defaultCanBePrefix\<close> (None is indeterminate) and \<open>s_autoCheckParametersDigest\<close>.  A failing
  \<open>BOOST_ASSERT\<close> is a \<open>LogicError\<close>.  The host is little-endian.
\<close>

section \<open>State\<close>

definition DEFAULT_INTEREST_LIFETIME :: int where
  "DEFAULT_INTEREST_LIFETIME = 4000"

text \<open>A nonce is an array of four bytes.\<close>

type_synonym nonce = "byte list"

definition Nonce_ofWord :: "uint32 \<Rightarrow> nonce" where
  "Nonce_ofWord n = be_bytes 4 (unat n)"

record interest =
  i_name :: name
  i_forwardingHint :: "name list"
  i_nonce :: "nonce option"
  i_interestLifetime :: int
  i_hopLimit :: "byte option"
  i_canBePrefix :: bool
  i_mustBeFresh :: bool
  i_parameters :: "block list"
  i_wire :: block

definition Interest_hasApplicationParameters :: "interest \<Rightarrow> bool" where
  "Interest_hasApplicationParameters i \<longleftrightarrow> i_parameters i \<noteq> []"

definition Interest_resetWire :: "interest \<Rightarrow> interest" where
  "Interest_resetWire i = i\<lparr>i_wire := Block_reset (i_wire i)\<rparr>"

section \<open>The digest of the parameters\<close>

text \<open>The loop of \<open>findParametersDigestComponent\<close> from index \<open>i\<close>.\<close>

fun findDigest_loop :: "block list \<Rightarrow> int \<Rightarrow> int \<Rightarrow> int" where
  "findDigest_loop [] i pos = pos"
| "findDigest_loop (c # cs) i pos =
     (if isParametersSha256Digest c then
        if pos \<noteq> -1 then -2 else findDigest_loop cs (i + 1) i
      else findDigest_loop cs (i + 1) pos)"

definition findParametersDigestComponent :: "name \<Rightarrow> int" where
  "findParametersDigestComponent n = findDigest_loop (components n) 0 (-1)"

definition findFirstParameter :: "uint32 \<Rightarrow> interest \<Rightarrow> nat" where
  "findFirstParameter type i = length (takeWhile (\<lambda>b. m_type b \<noteq> type) (i_parameters i))"

text \<open>The bytes that \<open>computeParametersDigest\<close> writes into the digest filter.\<close>

fun parameters_wire :: "block list \<Rightarrow> byte list result" where
  "parameters_wire [] = Inr []"
| "parameters_wire (b # bs) =
     bindE (wire_span b) (\<lambda>w. bindE (parameters_wire bs) (\<lambda>ws. Inr (w @ ws)))"

definition computeParametersDigest :: "(byte list \<Rightarrow> byte list) \<Rightarrow> interest \<Rightarrow> buffer result" where
  "computeParametersDigest sha256 i = bindE (parameters_wire (i_parameters i)) (\<lambda>ws. Inr (sha256 ws))"

definition Interest_isParametersDigestValid :: "(byte list \<Rightarrow> byte list) \<Rightarrow> interest \<Rightarrow> bool result" where
  "Interest_isParametersDigestValid sha256 i =
     (let digestIndex = findParametersDigestComponent (i_name i) in
      if digestIndex = -1 then Inr (\<not> Interest_hasApplicationParameters i)
      else if digestIndex < 0 then Inl (LogicError ''digestIndex >= 0'')
      else if \<not> Interest_hasApplicationParameters i then Inr False
      else bindE (Name_get digestIndex (i_name i)) (\<lambda>digestComponent.
           bindE (computeParametersDigest sha256 i) (\<lambda>digest.
             Inr (value_bytes digestComponent = digest))))"

definition addOrReplaceParametersDigestComponent ::
    "(byte list \<Rightarrow> byte list) \<Rightarrow> interest \<Rightarrow> interest result" where
  "addOrReplaceParametersDigestComponent sha256 i =
     (if \<not> Interest_hasApplicationParameters i then Inl (LogicError ''hasApplicationParameters()'')
      else
        let digestIndex = findParametersDigestComponent (i_name i) in
        bindE (computeParametersDigest sha256 i) (\<lambda>digest.
        bindE (fromParametersSha256Digest_buffer digest) (\<lambda>digestComponent.
          if digestIndex = -1 then Inr (i\<lparr>i_name := Name_append digestComponent (i_name i)\<rparr>)
          else if digestIndex < 0 then Inl (LogicError ''digestIndex >= 0'')
          else bindE (Name_set digestIndex digestComponent (i_name i)) (\<lambda>n. Inr (i\<lparr>i_name := n\<rparr>)))))"

section \<open>Fields\<close>

definition Interest_setName :: "(byte list \<Rightarrow> byte list) \<Rightarrow> name \<Rightarrow> interest \<Rightarrow> interest result" where
  "Interest_setName sha256 n i =
     (if findParametersDigestComponent n = -2
      then Inl (InvalidArgument ''Name cannot have more than one ParametersSha256DigestComponent'')
      else if \<not> Name_equals n (i_name i) then
        let i1 = i\<lparr>i_name := n\<rparr> in
        bindE (if Interest_hasApplicationParameters i1
               then addOrReplaceParametersDigestComponent sha256 i1 else Inr i1) (\<lambda>i2.
          Inr (Interest_resetWire i2))
      else Inr i)"

definition Interest_setCanBePrefix :: "bool \<Rightarrow> interest \<Rightarrow> interest" where
  "Interest_setCanBePrefix c i = Interest_resetWire (i\<lparr>i_canBePrefix := c\<rparr>)"

definition Interest_setMustBeFresh :: "bool \<Rightarrow> interest \<Rightarrow> interest" where
  "Interest_setMustBeFresh m i = Interest_resetWire (i\<lparr>i_mustBeFresh := m\<rparr>)"

definition Interest_setForwardingHint :: "name list \<Rightarrow> interest \<Rightarrow> interest" where
  "Interest_setForwardingHint v i = Interest_resetWire (i\<lparr>i_forwardingHint := v\<rparr>)"

text \<open>\<open>generateNonce\<close> copies the random word \<open>r\<close> as it lies in memory.\<close>

definition generateNonce :: "uint32 \<Rightarrow> nonce" where
  "generateNonce r = rev (be_bytes 4 (unat r))"

definition Interest_getNonce :: "uint32 \<Rightarrow> interest \<Rightarrow> nonce \<times> interest" where
  "Interest_getNonce r i =
     (case i_nonce i of
        None \<Rightarrow> (generateNonce r, Interest_resetWire (i\<lparr>i_nonce := Some (generateNonce r)\<rparr>))
      | Some n \<Rightarrow> (n, i))"

definition Interest_setNonce :: "nonce option \<Rightarrow> interest \<Rightarrow> interest" where
  "Interest_setNonce nonce i =
     (if nonce \<noteq> i_nonce i then Interest_resetWire (i\<lparr>i_nonce := nonce\<rparr>) else i)"

text \<open>The loop of \<open>refreshNonce\<close> on the random words to come; it may run forever.\<close>

partial_function (option) refreshNonce_loop ::
    "nonce \<Rightarrow> nonce \<Rightarrow> uint32 stream \<Rightarrow> (nonce \<times> uint32 stream) option" where
  "refreshNonce_loop oldNonce nonce rs =
     (if nonce = oldNonce then refreshNonce_loop oldNonce (generateNonce (shd rs)) (stl rs)
      else Some (nonce, rs))"

definition Interest_refreshNonce :: "uint32 stream \<Rightarrow> interest \<Rightarrow> (interest \<times> uint32 stream) option" where
  "Interest_refreshNonce rs i =
     (case i_nonce i of
        None \<Rightarrow> Some (i, rs)
      | Some oldNonce \<Rightarrow> map_option (\<lambda>(n, rs'). (Interest_resetWire (i\<lparr>i_nonce := Some n\<rparr>), rs'))
          (refreshNonce_loop oldNonce oldNonce rs))"

definition Interest_setInterestLifetime :: "int \<Rightarrow> interest \<Rightarrow> interest result" where
  "Interest_setInterestLifetime lifetime i =
     (if lifetime < 0 then Inl (InvalidArgument ''InterestLifetime must be >= 0'')
      else if lifetime \<noteq> i_interestLifetime i
      then Inr (Interest_resetWire (i\<lparr>i_interestLifetime := lifetime\<rparr>)) else Inr i)"

definition Interest_setHopLimit :: "byte option \<Rightarrow> interest \<Rightarrow> interest" where
  "Interest_setHopLimit hopLimit i =
     (if hopLimit \<noteq> i_hopLimit i then Interest_resetWire (i\<lparr>i_hopLimit := hopLimit\<rparr>) else i)"

section \<open>Parameters\<close>

definition setApplicationParametersInternal :: "block \<Rightarrow> interest \<Rightarrow> interest result" where
  "setApplicationParametersInternal parameters i =
     (let p = Block_encode parameters in
      case i_parameters i of
        [] \<Rightarrow> Inr (i\<lparr>i_parameters := [p]\<rparr>)
      | q # rest \<Rightarrow>
          if m_type q \<noteq> tlv_ApplicationParameters
          then Inl (LogicError ''m_parameters[0].type() == tlv::ApplicationParameters'')
          else Inr (i\<lparr>i_parameters := p # rest\<rparr>))"

text \<open>The common end of the functions that change the parameters.\<close>

definition Interest_updateDigest :: "(byte list \<Rightarrow> byte list) \<Rightarrow> interest \<Rightarrow> interest result" where
  "Interest_updateDigest sha256 i =
     bindE (addOrReplaceParametersDigestComponent sha256 i) (\<lambda>i'. Inr (Interest_resetWire i'))"

definition Interest_setApplicationParameters_block ::
    "(byte list \<Rightarrow> byte list) \<Rightarrow> block \<Rightarrow> interest \<Rightarrow> interest result" where
  "Interest_setApplicationParameters_block sha256 parameters i =
     (if \<not> isValid parameters then Inl (InvalidArgument ''ApplicationParameters block must be valid'')
      else
        bindE (if m_type parameters = tlv_ApplicationParameters then Inr parameters
               else Block_ofBlock tlv_ApplicationParameters parameters) (\<lambda>p.
        bindE (setApplicationParametersInternal p i) (Interest_updateDigest sha256)))"

definition Interest_setApplicationParameters ::
    "(byte list \<Rightarrow> byte list) \<Rightarrow> byte list \<Rightarrow> interest \<Rightarrow> interest result" where
  "Interest_setApplicationParameters sha256 val i =
     bindE (makeBinaryBlock tlv_ApplicationParameters val) (\<lambda>p.
     bindE (setApplicationParametersInternal p i) (Interest_updateDigest sha256))"

text \<open>A null pointer is None.\<close>

definition Interest_setApplicationParameters_ptr ::
    "(byte list \<Rightarrow> byte list) \<Rightarrow> byte list option \<Rightarrow> nat \<Rightarrow> interest \<Rightarrow> interest result" where
  "Interest_setApplicationParameters_ptr sha256 val len i =
     (case val of
        None \<Rightarrow>
          if len \<noteq> 0 then Inl (InvalidArgument ''ApplicationParameters buffer cannot be nullptr'')
          else Interest_setApplicationParameters sha256 [] i
      | Some v \<Rightarrow> Interest_setApplicationParameters sha256 (take len v) i)"

definition Interest_setApplicationParameters_buffer ::
    "(byte list \<Rightarrow> byte list) \<Rightarrow> buffer option \<Rightarrow> interest \<Rightarrow> interest result" where
  "Interest_setApplicationParameters_buffer sha256 val i =
     (case val of
        None \<Rightarrow> Inl (InvalidArgument ''ApplicationParameters buffer cannot be nullptr'')
      | Some v \<Rightarrow> bindE (setApplicationParametersInternal (Block_ofValue tlv_ApplicationParameters v) i)
          (Interest_updateDigest sha256))"

definition Interest_unsetApplicationParameters :: "interest \<Rightarrow> interest result" where
  "Interest_unsetApplicationParameters i =
     (let i1 = i\<lparr>i_parameters := []\<rparr>;
          digestIndex = findParametersDigestComponent (i_name i1)
      in if digestIndex \<ge> 0
         then bindE (Name_erase digestIndex (i_name i1)) (\<lambda>n. Inr (Interest_resetWire (i1\<lparr>i_name := n\<rparr>)))
         else Inr (Interest_resetWire i1))"

section \<open>Signature\<close>

definition Interest_getSignatureInfo :: "interest \<Rightarrow> signatureInfo option result" where
  "Interest_getSignatureInfo i =
     (let k = findFirstParameter tlv_InterestSignatureInfo i in
      if k \<noteq> length (i_parameters i)
      then bindE (SignatureInfo_wireDecode SignatureInfo_Interest (i_parameters i ! k)) (\<lambda>si. Inr (Some si))
      else Inr None)"

definition Interest_getSignatureValue :: "interest \<Rightarrow> block" where
  "Interest_getSignatureValue i =
     (let k = findFirstParameter tlv_InterestSignatureValue i in
      if k \<noteq> length (i_parameters i) then i_parameters i ! k else Block_default)"

text \<open>
  \<open>isSigned\<close> is declared \<open>noexcept\<close>: an exception that leaves it, an \<open>Inl\<close> here, ends the program.
\<close>

definition Interest_isSigned :: "interest \<Rightarrow> bool result" where
  "Interest_isSigned i =
     (if \<not> length (i_parameters i) \<ge> 3 then Inr False
      else bindE (Interest_getSignatureInfo i) (\<lambda>info.
        if info = None then Inr False
        else if \<not> isValid (Interest_getSignatureValue i) then Inr False
        else if Name_empty (i_name i) then Inr False
        else bindE (Name_get (-1) (i_name i)) (\<lambda>c.
               Inr (m_type c = tlv_ParametersSha256DigestComponent))))"

definition insert_at :: "nat \<Rightarrow> 'a \<Rightarrow> 'a list \<Rightarrow> 'a list" where
  "insert_at k x xs = take k xs @ x # drop k xs"

definition Interest_setSignatureInfo ::
    "(byte list \<Rightarrow> byte list) \<Rightarrow> signatureInfo \<Rightarrow> interest \<Rightarrow> interest result" where
  "Interest_setSignatureInfo sha256 info i0 =
     bindE (if i_parameters i0 = []
            then bindE (makeEmptyBlock tlv_ApplicationParameters) (\<lambda>b. Inr (i0\<lparr>i_parameters := [b]\<rparr>))
            else Inr i0) (\<lambda>i.
       let infoIt = findFirstParameter tlv_InterestSignatureInfo i in
       bindE (SignatureInfo_wireEncode SignatureInfo_Interest info) (\<lambda>info'.
         let encodedInfo = si_wire info' in
         if infoIt \<noteq> length (i_parameters i) then
           if block_eq (i_parameters i ! infoIt) encodedInfo then Inr i
           else Interest_updateDigest sha256 (i\<lparr>i_parameters := (i_parameters i)[infoIt := encodedInfo]\<rparr>)
         else
           let valueIt = findFirstParameter tlv_InterestSignatureValue i in
           Interest_updateDigest sha256 (i\<lparr>i_parameters := insert_at valueIt encodedInfo (i_parameters i)\<rparr>)))"

definition Interest_setSignatureValue ::
    "(byte list \<Rightarrow> byte list) \<Rightarrow> buffer option \<Rightarrow> interest \<Rightarrow> interest result" where
  "Interest_setSignatureValue sha256 val i =
     (case val of
        None \<Rightarrow> Inl (InvalidArgument ''InterestSignatureValue buffer cannot be nullptr'')
      | Some v \<Rightarrow>
          let infoIt = findFirstParameter tlv_InterestSignatureInfo i in
          if infoIt = length (i_parameters i)
          then Inl (InterestError ''InterestSignatureInfo must be present to set InterestSignatureValue'')
          else
            let valueIt = findFirstParameter tlv_InterestSignatureValue i;
                valueBlock = Block_ofValue tlv_InterestSignatureValue v
            in if valueIt \<noteq> length (i_parameters i) then
                 if block_eq (i_parameters i ! valueIt) valueBlock then Inr i
                 else Interest_updateDigest sha256
                   (i\<lparr>i_parameters := (i_parameters i)[valueIt := Block_encode valueBlock]\<rparr>)
               else Interest_updateDigest sha256
                 (i\<lparr>i_parameters := insert_at (Suc infoIt) (Block_encode valueBlock) (i_parameters i)\<rparr>))"

section \<open>Wire coding\<close>

text \<open>
  The template \<open>wireEncode(encoder)\<close>.  If the nonce is unset, the first call draws the random word
  \<open>r\<close> and stores it (\<open>Interest_getNonce\<close>), so both passes use the same nonce.
\<close>

definition Interest_wireEncode_enc :: "uint32 \<Rightarrow> interest \<Rightarrow> enc_op" where
  "Interest_wireEncode_enc r i =
     (let digestIndex = findParametersDigestComponent (i_name i) in
      if digestIndex = -2 then throwEnc (LogicError ''digestIndex != -2'')
      else if digestIndex = -1 \<and> Interest_hasApplicationParameters i
      then throwEnc (InterestError ''Interest with parameters must have a ParametersSha256DigestComponent'')
      else if digestIndex \<noteq> -1 \<and> \<not> Interest_hasApplicationParameters i
      then throwEnc (InterestError ''Interest without parameters must not have a ParametersSha256DigestComponent'')
      else runSteps
        (map (\<lambda>b _. prependBlock b) (rev (i_parameters i)) @
         (case i_hopLimit i of None \<Rightarrow> [] | Some h \<Rightarrow> [\<lambda>_. prependBinaryBlock tlv_HopLimit [h]]) @
         (if i_interestLifetime i \<noteq> DEFAULT_INTEREST_LIFETIME
          then [\<lambda>_. prependNonNegativeIntegerBlock tlv_InterestLifetime (word_of_int (i_interestLifetime i))]
          else []) @
         [\<lambda>_. prependBinaryBlock tlv_Nonce (fst (Interest_getNonce r i))] @
         (if i_forwardingHint i \<noteq> []
          then [\<lambda>_. prependNestedBlocks Name_wireEncode_enc tlv_ForwardingHint (i_forwardingHint i)] else []) @
         (if i_mustBeFresh i then [\<lambda>_. prependEmptyBlock tlv_MustBeFresh] else []) @
         (if i_canBePrefix i then [\<lambda>_. prependEmptyBlock tlv_CanBePrefix] else []) @
         [\<lambda>_. Name_wireEncode_enc (i_name i)] @
         [\<lambda>totalLength. prependVarNumber (word_of_nat totalLength),
          \<lambda>_. prependVarNumber (ucast tlv_Interest)]))"

text \<open>
  Decoding a forwarding hint, in the current format and the previous one.  Every exception that the
  two \<open>try\<close> blocks can see is a \<open>tlv::Error\<close>.
\<close>

definition rethrow :: "'a result \<Rightarrow> error \<Rightarrow> 'a result" where
  "rethrow m e = (case m of Inl _ \<Rightarrow> Inl e | Inr x \<Rightarrow> Inr x)"

fun ForwardingHint_loop :: "block list \<Rightarrow> name list \<Rightarrow> name list result" where
  "ForwardingHint_loop [] hint = Inr hint"
| "ForwardingHint_loop (del # dels) hint =
     (if m_type del = tlv_Name then
        bindE (rethrow (Name_ofBlock del) (InterestError ''Invalid Name in ForwardingHint'')) (\<lambda>n.
          ForwardingHint_loop dels (hint @ [n]))
      else if m_type del = tlv_LinkDelegation then
        bindE (rethrow (bindE (parseE del) (\<lambda>d. bindE (Block_get tlv_Name d) Name_ofBlock))
                 (InterestError ''Invalid Name in ForwardingHint.Delegation'')) (\<lambda>n.
          ForwardingHint_loop dels (hint @ [n]))
      else if isCriticalType (m_type del)
      then Inl (InterestError (''Unexpected TLV-TYPE '' @ to_string (unat (m_type del)) @ '' while decoding ForwardingHint''))
      else ForwardingHint_loop dels hint)"

fun Interest_decode_loop :: "block list \<Rightarrow> nat \<Rightarrow> interest \<Rightarrow> interest result" where
  "Interest_decode_loop [] lastElement i = Inr i"
| "Interest_decode_loop (element # rest) lastElement i =
     (if m_type element = tlv_CanBePrefix then
        if lastElement \<ge> 2 then Inl (InterestError ''CanBePrefix element is out of order'')
        else if value_size element \<noteq> 0 then Inl (InterestError ''CanBePrefix element has non-zero TLV-LENGTH'')
        else Interest_decode_loop rest 2 (i\<lparr>i_canBePrefix := True\<rparr>)
      else if m_type element = tlv_MustBeFresh then
        if lastElement \<ge> 3 then Inl (InterestError ''MustBeFresh element is out of order'')
        else if value_size element \<noteq> 0 then Inl (InterestError ''MustBeFresh element has non-zero TLV-LENGTH'')
        else Interest_decode_loop rest 3 (i\<lparr>i_mustBeFresh := True\<rparr>)
      else if m_type element = tlv_ForwardingHint then
        if lastElement \<ge> 4 then Inl (InterestError ''ForwardingHint element is out of order'')
        else bindE (parseE element) (\<lambda>e. bindE (ForwardingHint_loop (m_elements e) (i_forwardingHint i)) (\<lambda>hint.
               Interest_decode_loop rest 4 (i\<lparr>i_forwardingHint := hint\<rparr>)))
      else if m_type element = tlv_Nonce then
        if lastElement \<ge> 5 then Inl (InterestError ''Nonce element is out of order'')
        else if value_size element \<noteq> 4 then Inl (InterestError ''Nonce element is malformed'')
        else Interest_decode_loop rest 5 (i\<lparr>i_nonce := Some (value_bytes element)\<rparr>)
      else if m_type element = tlv_InterestLifetime then
        if lastElement \<ge> 6 then Inl (InterestError ''InterestLifetime element is out of order'')
        else bindE (readNonNegativeInteger_block element) (\<lambda>n.
               Interest_decode_loop rest 6 (i\<lparr>i_interestLifetime := sint n\<rparr>))
      else if m_type element = tlv_HopLimit then
        if lastElement \<ge> 7 then Interest_decode_loop rest lastElement i
        else if value_size element \<noteq> 1 then Inl (InterestError ''HopLimit element is malformed'')
        else Interest_decode_loop rest 7 (i\<lparr>i_hopLimit := Some (hd (value_bytes element))\<rparr>)
      else if m_type element = tlv_ApplicationParameters then
        if lastElement \<ge> 8 then Interest_decode_loop rest lastElement i
        else if Interest_hasApplicationParameters i then Inl (LogicError ''!hasApplicationParameters()'')
        else Interest_decode_loop rest 8 (i\<lparr>i_parameters := i_parameters i @ [element]\<rparr>)
      else if isCriticalType (m_type element)
      then Inl (InterestError (''Unrecognized element of critical type '' @ to_string (unat (m_type element))))
      else if Interest_hasApplicationParameters i
      then Interest_decode_loop rest lastElement (i\<lparr>i_parameters := i_parameters i @ [element]\<rparr>)
      else Interest_decode_loop rest lastElement i)"

definition Interest_wireDecode :: "(byte list \<Rightarrow> byte list) \<Rightarrow> bool \<Rightarrow> block \<Rightarrow> interest result" where
  "Interest_wireDecode sha256 autoCheck wire =
     (if m_type wire \<noteq> tlv_Interest then Inl (InterestError (expecting ''Interest'' (m_type wire)))
      else bindE (parseE wire) (\<lambda>w.
        case m_elements w of
          [] \<Rightarrow> Inl (InterestError ''Name element is missing or out of order'')
        | element # rest \<Rightarrow>
            if m_type element \<noteq> tlv_Name then Inl (InterestError ''Name element is missing or out of order'')
            else bindE (Name_ofBlock element) (\<lambda>tempName.
              if Name_empty tempName then Inl (InterestError ''Name has zero name components'')
              else if findParametersDigestComponent tempName = -2
              then Inl (InterestError ''Name has more than one ParametersSha256DigestComponent'')
              else bindE (Interest_decode_loop rest 1
                \<lparr>i_name = tempName, i_forwardingHint = [], i_nonce = None,
                 i_interestLifetime = DEFAULT_INTEREST_LIFETIME, i_hopLimit = None, i_canBePrefix = False,
                 i_mustBeFresh = False, i_parameters = [], i_wire = w\<rparr>) (\<lambda>i.
              if autoCheck then
                bindE (Interest_isParametersDigestValid sha256 i) (\<lambda>valid.
                  if \<not> valid
                  then Inl (InterestError ''ParametersSha256DigestComponent does not match the SHA-256 of Interest parameters'')
                  else Inr i)
              else Inr i))))"

definition Interest_wireEncode :: "(byte list \<Rightarrow> byte list) \<Rightarrow> bool \<Rightarrow> uint32 \<Rightarrow> interest \<Rightarrow> interest result" where
  "Interest_wireEncode sha256 autoCheck r i =
     (if hasWire (i_wire i) then Inr i
      else bindE (makeBlock (Interest_wireEncode_enc r i)) (Interest_wireDecode sha256 autoCheck))"

text \<open>
  The constructor.  The lifetime is not initialised before \<open>setInterestLifetime\<close>; its result is
  the same whatever it was.
\<close>

definition Interest_make ::
    "(byte list \<Rightarrow> byte list) \<Rightarrow> bool option \<Rightarrow> name \<Rightarrow> int \<Rightarrow> interest result" where
  "Interest_make sha256 defaultCanBePrefix n lifetime =
     bindE (Interest_setName sha256 n
       \<lparr>i_name = Name_default, i_forwardingHint = [], i_nonce = None, i_interestLifetime = 0,
        i_hopLimit = None, i_canBePrefix = False, i_mustBeFresh = False, i_parameters = [],
        i_wire = Block_default\<rparr>) (\<lambda>i1.
     bindE (Interest_setInterestLifetime lifetime i1) (\<lambda>i2.
       Inr (case defaultCanBePrefix of None \<Rightarrow> i2 | Some c \<Rightarrow> Interest_setCanBePrefix c i2)))"

text \<open>
  The two signed ranges: the components before the last, and the parameters up to the signature
  value.  The range of the name runs between the wires of its first and last component.
\<close>

definition Interest_extractSignedRanges ::
    "(byte list \<Rightarrow> byte list) \<Rightarrow> bool \<Rightarrow> uint32 \<Rightarrow> interest \<Rightarrow> (byte list list \<times> interest) result" where
  "Interest_extractSignedRanges sha256 autoCheck r i0 =
     bindE (Interest_wireEncode sha256 autoCheck r i0) (\<lambda>i.
     if Name_empty (i_name i) then Inl (LogicError ''!m_name.empty()'')
     else
     bindE (Name_get (-1) (i_name i)) (\<lambda>lastComponent.
     if m_type lastComponent \<noteq> tlv_ParametersSha256DigestComponent
     then Inl (InterestError ''Interest Name must end with a ParametersSha256DigestComponent'')
     else
     bindE (Name_get 0 (i_name i)) (\<lambda>firstComponent.
     bindE (Block_wire firstComponent) (\<lambda>nameBegin.
     bindE (Block_wire lastComponent) (\<lambda>nameEnd.
     if findFirstParameter tlv_InterestSignatureInfo i = length (i_parameters i)
     then Inl (InterestError ''Interest missing InterestSignatureInfo'')
     else if \<not> (i_parameters i \<noteq> [] \<and> m_type (hd (i_parameters i)) = tlv_ApplicationParameters)
     then Inl (LogicError ''m_parameters.begin()->type() == tlv::ApplicationParameters'')
     else
       let lastSigned = i_parameters i ! (findFirstParameter tlv_InterestSignatureValue i - 1);
           front = hd (i_parameters i)
       in case (m_buffer firstComponent, m_buffer front) of
            (Some nameBuf, Some paramBuf) \<Rightarrow>
              Inr ([bslice nameBegin nameEnd nameBuf, bslice (m_begin front) (m_end lastSigned) paramBuf], i)
          | _ \<Rightarrow> Inl NullBuffer)))))"

section \<open>Matching and printing\<close>

definition Interest_matchesData ::
    "(byte list \<Rightarrow> byte list) \<Rightarrow> interest \<Rightarrow> data \<Rightarrow> (bool \<times> data) result" where
  "Interest_matchesData sha256 i d0 =
     (let interestNameLength = Name_size (i_name i);
          dataName = d_name d0;
          fullNameLength = Name_size dataName + 1
      in
        bindE
          (if interestNameLength = fullNameLength then
             bindE (Name_get (-1) (i_name i)) (\<lambda>c.
               if isImplicitSha256Digest c
               then bindE (Data_getFullName sha256 d0) (\<lambda>(fullName, d). Inr (Name_equals (i_name i) fullName, d))
               else Inr (False, d0))
           else if i_canBePrefix i then Inr (isPrefixOf (i_name i) dataName, d0)
           else Inr (Name_equals (i_name i) dataName, d0))
          (\<lambda>(nameMatches, d).
             if \<not> nameMatches then Inr (False, d)
             else if i_mustBeFresh i \<and> mi_freshnessPeriod (d_metaInfo d) \<le> 0 then Inr (False, d)
             else Inr (True, d)))"

definition Interest_matchesInterest :: "interest \<Rightarrow> interest \<Rightarrow> bool" where
  "Interest_matchesInterest i other \<longleftrightarrow>
     Name_equals (i_name i) (i_name other) \<and> i_canBePrefix i = i_canBePrefix other \<and>
     i_mustBeFresh i = i_mustBeFresh other"

text \<open>\<open>printOne\<close> writes \<open>?\<close> before the first and \<open>&\<close> before every other item.\<close>

fun printItems :: "char \<Rightarrow> string list \<Rightarrow> string" where
  "printItems delim [] = []"
| "printItems delim (s # ss) = [delim] @ s @ printItems CHR ''&'' ss"

definition Interest_print :: "string option \<Rightarrow> interest \<Rightarrow> string result" where
  "Interest_print env i =
     bindE (Name_toUri env UriFormat_DEFAULT (i_name i)) (\<lambda>n.
       Inr (n @ printItems CHR ''?''
         ((if i_canBePrefix i then [''CanBePrefix''] else []) @
          (if i_mustBeFresh i then [''MustBeFresh''] else []) @
          (case i_nonce i of None \<Rightarrow> [] | Some nonce \<Rightarrow> [''Nonce='' @ hexText False nonce]) @
          (if i_interestLifetime i \<noteq> DEFAULT_INTEREST_LIFETIME
           then [''Lifetime='' @ (if i_interestLifetime i < 0 then ''-'' else []) @
                 to_string (nat \<bar>i_interestLifetime i\<bar>)] else []) @
          (case i_hopLimit i of None \<Rightarrow> [] | Some h \<Rightarrow> [''HopLimit='' @ to_string (unat h)]))))"

end
