(* ===== verification/InMemoryStorage.thy ===== *)
theory InMemoryStorage
  imports Interest
begin

text \<open>
  The in-memory storage of Data packets (\<open>ims\<close>): a cache of entries in the order of their full names,
  a pool of empty entries, a capacity that grows and shrinks up to a limit, and four replacement
  policies.  Entries are objects that the cache, the pool and the index of the policy share; they
  are numbers here, and \<open>ims_entries\<close> is the heap.  The two kinds of \<open>boost\<close> index are lists: an ordered
  one in the order of its keys, a sequenced one in the order of insertion.
\<close>

section \<open>Entries\<close>

text \<open>\<open>m_markStaleEventId\<close> is the time at which the pending event expires.\<close>

record ims_entry =
  m_dataPacket :: "data option"
  m_isFresh :: bool
  m_markStaleEventId :: "int option"

definition InMemoryStorageEntry_make :: ims_entry where
  "InMemoryStorageEntry_make = \<lparr>m_dataPacket = None, m_isFresh = True, m_markStaleEventId = None\<rparr>"

definition Entry_release :: "ims_entry \<Rightarrow> ims_entry" where
  "Entry_release e = e\<lparr>m_dataPacket := None, m_markStaleEventId := None\<rparr>"

text \<open>
  The code keeps a pointer to the caller's packet (\<open>shared_from_this\<close>).  Here it is the value of the packet at
  insertion; a caller that changes the packet afterwards changes the storage behind its back, and is left out.
\<close>

definition Entry_setData :: "data \<Rightarrow> ims_entry \<Rightarrow> ims_entry" where
  "Entry_setData d e = e\<lparr>m_dataPacket := Some d, m_isFresh := True\<rparr>"

definition Entry_scheduleMarkStale :: "int \<Rightarrow> int \<Rightarrow> ims_entry \<Rightarrow> ims_entry" where
  "Entry_scheduleMarkStale now after e = e\<lparr>m_markStaleEventId := Some (now + after)\<rparr>"

text \<open>
  \<open>getData\<close> dereferences a pointer that is null only in the entries of the pool, and \<open>getFullName\<close>
  can only throw for a packet that was stored unsigned; neither happens in the cache.
\<close>

definition Entry_getData :: "ims_entry \<Rightarrow> data" where
  "Entry_getData e = (case m_dataPacket e of Some d \<Rightarrow> d | None \<Rightarrow> Data_make Name_default)"

definition Entry_getName :: "ims_entry \<Rightarrow> name" where
  "Entry_getName e = d_name (Entry_getData e)"

definition Entry_getFullName :: "(byte list \<Rightarrow> byte list) \<Rightarrow> ims_entry \<Rightarrow> name" where
  "Entry_getFullName sha256 e =
     (case Data_getFullName sha256 (Entry_getData e) of Inr (n, _) \<Rightarrow> n | Inl _ \<Rightarrow> Name_default)"

text \<open>The event: the scheduler runs it once its time has come.\<close>

definition Entry_runEvent :: "int \<Rightarrow> ims_entry \<Rightarrow> ims_entry" where
  "Entry_runEvent now e = (case m_markStaleEventId e of
     Some t \<Rightarrow> if t \<le> now then e\<lparr>m_isFresh := False, m_markStaleEventId := None\<rparr> else e
   | None \<Rightarrow> e)"

section \<open>State\<close>

text \<open>
  The index of the derived class: none for the persistent storage, the entries in order of arrival
  or of use, or the entries with their frequencies.
\<close>

datatype cleanup_index = NoIndex | ByArrival "nat list" | ByUsedTime "nat list" | ByFrequency "(nat \<times> uint64) list"

record ims =
  ims_entries :: "nat \<Rightarrow> ims_entry"
  ims_next :: nat
  m_cache :: "nat list"
  m_limit :: nat
  m_capacity :: nat
  m_nPackets :: nat
  m_freeEntries :: "nat list"
  m_scheduler :: bool
  m_cleanupIndex :: cleanup_index

definition m_initCapacity :: nat where
  "m_initCapacity = 16"

definition size_max :: nat where
  "size_max = 2 ^ 64 - 1"

definition getFullName :: "(byte list \<Rightarrow> byte list) \<Rightarrow> ims \<Rightarrow> nat \<Rightarrow> name" where
  "getFullName sha256 st p = Entry_getFullName sha256 (ims_entries st p)"

definition ims_isFull :: "ims \<Rightarrow> bool" where
  "ims_isFull st \<longleftrightarrow> m_nPackets st \<ge> m_capacity st"

definition push_entry :: "ims \<Rightarrow> ims" where
  "push_entry st = st\<lparr>ims_entries := (ims_entries st)(ims_next st := InMemoryStorageEntry_make),
     ims_next := Suc (ims_next st), m_freeEntries := ims_next st # m_freeEntries st\<rparr>"

fun pop_entries :: "nat \<Rightarrow> ims \<Rightarrow> ims result" where
  "pop_entries 0 st = Inr st"
| "pop_entries (Suc k) st = (case m_freeEntries st of
     [] \<Rightarrow> Inl (LogicError ''top() of an empty stack'')
   | _ # ps \<Rightarrow> pop_entries k (st\<lparr>m_freeEntries := ps\<rparr>))"

definition ims_make :: "cleanup_index \<Rightarrow> bool \<Rightarrow> nat \<Rightarrow> ims" where
  "ims_make index scheduler limit =
     (let capacity = (if limit \<noteq> size_max \<and> m_initCapacity > limit then limit else m_initCapacity) in
      (push_entry ^^ capacity)
        \<lparr>ims_entries = \<lambda>_. InMemoryStorageEntry_make, ims_next = 0, m_cache = [], m_limit = limit,
         m_capacity = capacity, m_nPackets = 0, m_freeEntries = [], m_scheduler = scheduler,
         m_cleanupIndex = index\<rparr>)"

definition InMemoryStorageFifo :: "bool \<Rightarrow> nat \<Rightarrow> ims" where
  "InMemoryStorageFifo = ims_make (ByArrival [])"

definition InMemoryStorageLru :: "bool \<Rightarrow> nat \<Rightarrow> ims" where
  "InMemoryStorageLru = ims_make (ByUsedTime [])"

definition InMemoryStorageLfu :: "bool \<Rightarrow> nat \<Rightarrow> ims" where
  "InMemoryStorageLfu = ims_make (ByFrequency [])"

definition InMemoryStoragePersistent :: "bool \<Rightarrow> ims" where
  "InMemoryStoragePersistent scheduler = ims_make NoIndex scheduler size_max"

section \<open>The ordered index\<close>

definition Name_less :: "name \<Rightarrow> name \<Rightarrow> bool" where
  "Name_less n m \<longleftrightarrow> (case Name_compare n m of Inr c \<Rightarrow> c < 0 | Inl _ \<Rightarrow> False)"

text \<open>An iterator is its distance from the beginning.\<close>

definition lower_bound :: "(byte list \<Rightarrow> byte list) \<Rightarrow> name \<Rightarrow> ims \<Rightarrow> nat" where
  "lower_bound sha256 n st = length (takeWhile (\<lambda>p. Name_less (getFullName sha256 st p) n) (m_cache st))"

definition cache_find :: "(byte list \<Rightarrow> byte list) \<Rightarrow> name \<Rightarrow> ims \<Rightarrow> nat option" where
  "cache_find sha256 n st =
     (let k = lower_bound sha256 n st in
      if k < length (m_cache st) \<and> \<not> Name_less n (getFullName sha256 st (m_cache st ! k))
      then Some (m_cache st ! k) else None)"

definition cache_insert :: "(byte list \<Rightarrow> byte list) \<Rightarrow> nat \<Rightarrow> ims \<Rightarrow> ims" where
  "cache_insert sha256 p st =
     (let n = getFullName sha256 st p in
      if cache_find sha256 n st \<noteq> None then st
      else st\<lparr>m_cache := insert_at (lower_bound sha256 n st) p (m_cache st)\<rparr>)"

section \<open>Erasing\<close>

definition freeEntry :: "nat \<Rightarrow> ims \<Rightarrow> ims" where
  "freeEntry p st = st\<lparr>ims_entries := (ims_entries st)(p := Entry_release (ims_entries st p)),
     m_freeEntries := p # m_freeEntries st, m_nPackets := m_nPackets st - 1,
     m_cache := remove1 p (m_cache st)\<rparr>"

definition eraseImpl :: "(byte list \<Rightarrow> byte list) \<Rightarrow> name \<Rightarrow> ims \<Rightarrow> ims" where
  "eraseImpl sha256 n st = (case cache_find sha256 n st of None \<Rightarrow> st | Some p \<Rightarrow> freeEntry p st)"

section \<open>Replacement policies\<close>

text \<open>A unique hashed index together with a sequence: a new element goes to the end.\<close>

definition sequence_insert :: "nat \<Rightarrow> nat list \<Rightarrow> nat list" where
  "sequence_insert p q = (if p \<in> set q then q else q @ [p])"

definition Fifo_afterInsert :: "nat \<Rightarrow> nat list \<Rightarrow> ims \<Rightarrow> ims result" where
  "Fifo_afterInsert p q st =
     (if length q \<le> m_nPackets st then Inr (st\<lparr>m_cleanupIndex := ByArrival (sequence_insert p q)\<rparr>)
      else Inl (LogicError ''m_cleanupIndex.size() <= size()''))"

definition Fifo_evictItem :: "(byte list \<Rightarrow> byte list) \<Rightarrow> nat list \<Rightarrow> ims \<Rightarrow> bool \<times> ims" where
  "Fifo_evictItem sha256 q st = (case q of
     p # ps \<Rightarrow> (True, (eraseImpl sha256 (getFullName sha256 st p) st)\<lparr>m_cleanupIndex := ByArrival ps\<rparr>)
   | [] \<Rightarrow> (False, st))"

definition Fifo_beforeErase :: "nat \<Rightarrow> nat list \<Rightarrow> ims \<Rightarrow> ims" where
  "Fifo_beforeErase p q st = st\<lparr>m_cleanupIndex := ByArrival (remove1 p q)\<rparr>"

definition Lru_afterInsert :: "nat \<Rightarrow> nat list \<Rightarrow> ims \<Rightarrow> ims result" where
  "Lru_afterInsert p q st =
     (if length q \<le> m_nPackets st then Inr (st\<lparr>m_cleanupIndex := ByUsedTime (sequence_insert p q)\<rparr>)
      else Inl (LogicError ''m_cleanupIndex.size() <= size()''))"

definition Lru_evictItem :: "(byte list \<Rightarrow> byte list) \<Rightarrow> nat list \<Rightarrow> ims \<Rightarrow> bool \<times> ims" where
  "Lru_evictItem sha256 q st = (case q of
     p # ps \<Rightarrow> (True, (eraseImpl sha256 (getFullName sha256 st p) st)\<lparr>m_cleanupIndex := ByUsedTime ps\<rparr>)
   | [] \<Rightarrow> (False, st))"

definition Lru_beforeErase :: "nat \<Rightarrow> nat list \<Rightarrow> ims \<Rightarrow> ims" where
  "Lru_beforeErase p q st = st\<lparr>m_cleanupIndex := ByUsedTime (remove1 p q)\<rparr>"

definition Lru_afterAccess :: "nat \<Rightarrow> nat list \<Rightarrow> ims \<Rightarrow> ims result" where
  "Lru_afterAccess p q st = Lru_afterInsert p (remove1 p q) (Lru_beforeErase p q st)"

text \<open>
  The index by frequency is ordered; the position among equal frequencies is not specified, so the
  first element is one of least frequency that \<open>tie\<close> chooses.
\<close>

definition byFrequency_begin :: "((nat \<times> uint64) list \<Rightarrow> nat) \<Rightarrow> (nat \<times> uint64) list \<Rightarrow> nat \<times> uint64" where
  "byFrequency_begin tie xs =
     (let least = filter (\<lambda>x. list_all (\<lambda>y. snd x \<le> snd y) xs) xs in least ! (tie xs mod length least))"

definition Lfu_afterInsert :: "nat \<Rightarrow> (nat \<times> uint64) list \<Rightarrow> ims \<Rightarrow> ims result" where
  "Lfu_afterInsert p xs st =
     (if length xs \<le> m_nPackets st
      then Inr (st\<lparr>m_cleanupIndex := ByFrequency (if p \<in> fst ` set xs then xs else xs @ [(p, 0)])\<rparr>)
      else Inl (LogicError ''m_cleanupIndex.size() <= size()''))"

definition Lfu_evictItem ::
    "(byte list \<Rightarrow> byte list) \<Rightarrow> ((nat \<times> uint64) list \<Rightarrow> nat) \<Rightarrow> (nat \<times> uint64) list \<Rightarrow> ims \<Rightarrow> bool \<times> ims" where
  "Lfu_evictItem sha256 tie xs st =
     (if xs \<noteq> [] then
        let it = byFrequency_begin tie xs in
        (True, (eraseImpl sha256 (getFullName sha256 st (fst it)) st)\<lparr>m_cleanupIndex := ByFrequency (remove1 it xs)\<rparr>)
      else (False, st))"

definition Lfu_beforeErase :: "nat \<Rightarrow> (nat \<times> uint64) list \<Rightarrow> ims \<Rightarrow> ims" where
  "Lfu_beforeErase p xs st = st\<lparr>m_cleanupIndex := ByFrequency (filter (\<lambda>x. fst x \<noteq> p) xs)\<rparr>"

definition incrementFrequency :: "nat \<times> uint64 \<Rightarrow> nat \<times> uint64" where
  "incrementFrequency x = (fst x, snd x + 1)"

definition Lfu_afterAccess :: "nat \<Rightarrow> (nat \<times> uint64) list \<Rightarrow> ims \<Rightarrow> ims result" where
  "Lfu_afterAccess p xs st =
     (if p \<in> fst ` set xs
      then Inr (st\<lparr>m_cleanupIndex := ByFrequency (map (\<lambda>x. if fst x = p then incrementFrequency x else x) xs)\<rparr>)
      else Inl (LogicError ''modify() of the end iterator''))"

text \<open>The virtual functions.\<close>

definition afterInsert :: "nat \<Rightarrow> ims \<Rightarrow> ims result" where
  "afterInsert p st = (case m_cleanupIndex st of
     NoIndex \<Rightarrow> Inr st
   | ByArrival q \<Rightarrow> Fifo_afterInsert p q st
   | ByUsedTime q \<Rightarrow> Lru_afterInsert p q st
   | ByFrequency xs \<Rightarrow> Lfu_afterInsert p xs st)"

definition beforeErase :: "nat \<Rightarrow> ims \<Rightarrow> ims" where
  "beforeErase p st = (case m_cleanupIndex st of
     NoIndex \<Rightarrow> st
   | ByArrival q \<Rightarrow> Fifo_beforeErase p q st
   | ByUsedTime q \<Rightarrow> Lru_beforeErase p q st
   | ByFrequency xs \<Rightarrow> Lfu_beforeErase p xs st)"

definition afterAccess :: "nat \<Rightarrow> ims \<Rightarrow> ims result" where
  "afterAccess p st = (case m_cleanupIndex st of
     NoIndex \<Rightarrow> Inr st
   | ByArrival q \<Rightarrow> Inr st
   | ByUsedTime q \<Rightarrow> Lru_afterAccess p q st
   | ByFrequency xs \<Rightarrow> Lfu_afterAccess p xs st)"

definition evictItem ::
    "(byte list \<Rightarrow> byte list) \<Rightarrow> ((nat \<times> uint64) list \<Rightarrow> nat) \<Rightarrow> ims \<Rightarrow> bool \<times> ims" where
  "evictItem sha256 tie st = (case m_cleanupIndex st of
     NoIndex \<Rightarrow> (False, st)
   | ByArrival q \<Rightarrow> Fifo_evictItem sha256 q st
   | ByUsedTime q \<Rightarrow> Lru_evictItem sha256 q st
   | ByFrequency xs \<Rightarrow> Lfu_evictItem sha256 tie xs st)"

section \<open>Capacity\<close>

definition index_size :: "cleanup_index \<Rightarrow> nat" where
  "index_size index = (case index of NoIndex \<Rightarrow> 0 | ByArrival q \<Rightarrow> length q | ByUsedTime q \<Rightarrow> length q
     | ByFrequency xs \<Rightarrow> length xs)"

lemma index_eraseImpl [simp]: "m_cleanupIndex (eraseImpl sha256 n st) = m_cleanupIndex st"
  by (simp add: eraseImpl_def freeEntry_def split: option.split)

lemma byFrequency_begin_least:
  assumes "xs \<noteq> []"
  shows "byFrequency_begin tie xs \<in> set xs \<and> (\<forall>y \<in> set xs. snd (byFrequency_begin tie xs) \<le> snd y)"
proof -
  let ?l = "filter (\<lambda>x. list_all (\<lambda>y. snd x \<le> snd y) xs) xs"
  obtain x where "x \<in> set xs" "\<forall>y \<in> set xs. snd x \<le> snd y"
    using assms ex_min_if_finite [of "snd ` set xs"]
    by (auto simp: not_less Ball_def)
  then have "?l \<noteq> []" by (auto simp: filter_empty_conv list_all_iff)
  then have "?l ! (tie xs mod length ?l) \<in> set ?l" by (intro nth_mem) simp
  then show ?thesis by (auto simp: byFrequency_begin_def Let_def list_all_iff)
qed

lemma evictItem_index: "fst (evictItem sha256 tie st) \<Longrightarrow> index_size (m_cleanupIndex (snd (evictItem sha256 tie st))) < index_size (m_cleanupIndex st)"
  using byFrequency_begin_least
  by (auto simp: evictItem_def Fifo_evictItem_def Lru_evictItem_def Lfu_evictItem_def Let_def index_size_def length_remove1
      split: cleanup_index.split list.split)

lemma evictItem_fails: "\<not> fst (evictItem sha256 tie st) \<Longrightarrow> snd (evictItem sha256 tie st) = st"
  by (auto simp: evictItem_def Fifo_evictItem_def Lru_evictItem_def Lfu_evictItem_def Let_def split: cleanup_index.split list.split)

function evict_loop ::
    "(byte list \<Rightarrow> byte list) \<Rightarrow> ((nat \<times> uint64) list \<Rightarrow> nat) \<Rightarrow> int \<Rightarrow> ims \<Rightarrow> ims result" where
  "evict_loop sha256 tie nAllowedFailures st =
     (if m_nPackets st > m_capacity st then
        if fst (evictItem sha256 tie st)
        then evict_loop sha256 tie nAllowedFailures (snd (evictItem sha256 tie st))
        else if nAllowedFailures - 1 < 0
        then Inl (RuntimeError ''Cannot reduce the capacity of the in-memory storage!'')
        else evict_loop sha256 tie (nAllowedFailures - 1) (snd (evictItem sha256 tie st))
      else Inr st)"
  by pat_completeness auto
termination
  by (relation "measure (\<lambda>(_, _, k, st). index_size (m_cleanupIndex st) + nat k)")
    (auto simp: evictItem_index evictItem_fails)

declare evict_loop.simps [simp del]

definition setCapacity ::
    "(byte list \<Rightarrow> byte list) \<Rightarrow> ((nat \<times> uint64) list \<Rightarrow> nat) \<Rightarrow> nat \<Rightarrow> ims \<Rightarrow> ims result" where
  "setCapacity sha256 tie capacity st =
     (let oldCapacity = m_capacity st;
          st1 = st\<lparr>m_capacity := max capacity m_initCapacity\<rparr>
      in
        bindE (if m_nPackets st1 > m_capacity st1
               then evict_loop sha256 tie (int (m_nPackets st1) - int (m_capacity st1)) st1 else Inr st1) (\<lambda>st2.
        bindE (if m_capacity st2 \<ge> oldCapacity
               then Inr ((push_entry ^^ (m_capacity st2 - oldCapacity)) st2)
               else pop_entries (oldCapacity - m_capacity st2) st2) (\<lambda>st3.
        if m_nPackets st3 + length (m_freeEntries st3) = m_capacity st3 then Inr st3
        else Inl (LogicError ''size() + m_freeEntries.size() == m_capacity''))))"

section \<open>Insertion\<close>

text \<open>
  \<open>now\<close> is the time of the call in nanoseconds, the window is in milliseconds.  The packet is stored
  with the full name that the first line has computed and cached in it.
\<close>

definition ims_insert ::
    "(byte list \<Rightarrow> byte list) \<Rightarrow> ((nat \<times> uint64) list \<Rightarrow> nat) \<Rightarrow> int \<Rightarrow> int \<Rightarrow> data \<Rightarrow> ims \<Rightarrow> ims result" where
  "ims_insert sha256 tie now mustBeFreshProcessingWindow data st =
     bindE (Data_getFullName sha256 data) (\<lambda>(fullName, data').
       if cache_find sha256 fullName st \<noteq> None then Inr st
       else
         let doesReachLimit = (m_limit st = m_capacity st) in
         bindE (if ims_isFull st \<and> \<not> doesReachLimit
                then setCapacity sha256 tie (min (2 * m_capacity st mod 2 ^ 64) (m_limit st)) st
                else Inr st) (\<lambda>st1.
         let st2 = (if ims_isFull st1 \<and> doesReachLimit then snd (evictItem sha256 tie st1) else st1) in
         case m_freeEntries st2 of
           [] \<Rightarrow> Inl (LogicError ''m_freeEntries.size() > 0'')
         | p # ps \<Rightarrow>
             let entry1 = Entry_setData data' (ims_entries st2 p);
                 entry2 = (if m_scheduler st2 \<and> mustBeFreshProcessingWindow > 0
                           then Entry_scheduleMarkStale now (mustBeFreshProcessingWindow * 1000000) entry1
                           else entry1);
                 st3 = st2\<lparr>m_freeEntries := ps, m_nPackets := m_nPackets st2 + 1,
                           ims_entries := (ims_entries st2)(p := entry2)\<rparr>
             in afterInsert p (cache_insert sha256 p st3)))"

section \<open>Lookup\<close>

definition ims_findName :: "(byte list \<Rightarrow> byte list) \<Rightarrow> name \<Rightarrow> ims \<Rightarrow> (data option \<times> ims) result" where
  "ims_findName sha256 n st =
     (let it = lower_bound sha256 n st in
      if it = length (m_cache st) then Inr (None, st)
      else
        let p = m_cache st ! it in
        if \<not> isPrefixOf n (getFullName sha256 st p) then Inr (None, st)
        else bindE (afterAccess p st) (\<lambda>st'. Inr (Some (Entry_getData (ims_entries st' p)), st')))"

text \<open>From here on an iterator is the part of the cache it points to.\<close>

definition findNextFresh :: "ims \<Rightarrow> nat list \<Rightarrow> nat list" where
  "findNextFresh st it = dropWhile (\<lambda>p. \<not> m_isFresh (ims_entries st p)) it"

function selectChild_loop ::
    "(byte list \<Rightarrow> byte list) \<Rightarrow> interest \<Rightarrow> ims \<Rightarrow> nat list \<Rightarrow> nat option result" where
  "selectChild_loop sha256 interest st rightmostCandidate =
     (case if i_mustBeFresh interest then findNextFresh st rightmostCandidate else rightmostCandidate of
        [] \<Rightarrow> Inr None
      | p # ps \<Rightarrow>
          if isPrefixOf (i_name interest) (getFullName sha256 st p) then
            bindE (Interest_matchesData sha256 interest (Entry_getData (ims_entries st p))) (\<lambda>(matches, _).
              if matches then Inr (Some p) else selectChild_loop sha256 interest st ps)
          else Inr None)"
  by pat_completeness auto
termination
proof (relation "measure (\<lambda>(_, _, _, it). length it)", goal_cases)
  case (2 sha256 interest st it p ps)
  have "length (findNextFresh st it) \<le> length it" by (simp add: findNextFresh_def length_dropWhile_le)
  then show ?case using 2(1) by (auto split: if_splits)
qed simp

declare selectChild_loop.simps [simp del]

definition selectChild ::
    "(byte list \<Rightarrow> byte list) \<Rightarrow> interest \<Rightarrow> ims \<Rightarrow> nat list \<Rightarrow> nat option result" where
  "selectChild sha256 interest st startingPoint =
     (if startingPoint = [] then Inl (LogicError ''startingPoint != end()'')
      else if startingPoint \<noteq> m_cache st \<and> \<not> Name_less (getFullName sha256 st (hd startingPoint)) (i_name interest)
      then Inl (LogicError ''(*startingPoint)->getFullName() < interest.getName()'')
      else case if i_mustBeFresh interest then findNextFresh st startingPoint else startingPoint of
        [] \<Rightarrow> Inr None
      | p # ps \<Rightarrow>
          bindE (Interest_matchesData sha256 interest (Entry_getData (ims_entries st p))) (\<lambda>(matches, _).
            if matches then Inr (Some p) else selectChild_loop sha256 interest st ps))"

definition ims_findInterest ::
    "(byte list \<Rightarrow> byte list) \<Rightarrow> interest \<Rightarrow> ims \<Rightarrow> (data option \<times> ims) result" where
  "ims_findInterest sha256 interest st =
     (case cache_find sha256 (i_name interest) st of
        Some p \<Rightarrow> Inr (Some (Entry_getData (ims_entries st p)), st)
      | None \<Rightarrow>
          let it = lower_bound sha256 (i_name interest) st in
          if it = length (m_cache st) then Inr (None, st)
          else bindE (selectChild sha256 interest st (drop (it - 1) (m_cache st))) (\<lambda>ret.
            case ret of
              None \<Rightarrow> Inr (None, st)
            | Some p \<Rightarrow> bindE (afterAccess p st) (\<lambda>st'. Inr (Some (Entry_getData (ims_entries st' p)), st'))))"

section \<open>Erasing by name\<close>

fun erase_loop :: "name \<Rightarrow> nat list \<Rightarrow> ims \<Rightarrow> ims" where
  "erase_loop n [] st = st"
| "erase_loop n (p # ps) st =
     (if isPrefixOf n (Entry_getName (ims_entries st p))
      then erase_loop n ps (freeEntry p (beforeErase p st)) else st)"

definition erase_shrink ::
    "(byte list \<Rightarrow> byte list) \<Rightarrow> ((nat \<times> uint64) list \<Rightarrow> nat) \<Rightarrow> ims \<Rightarrow> ims result" where
  "erase_shrink sha256 tie st =
     (if length (m_freeEntries st) > 2 * m_nPackets st mod 2 ^ 64
      then setCapacity sha256 tie (m_capacity st div 2) st else Inr st)"

definition ims_erase ::
    "(byte list \<Rightarrow> byte list) \<Rightarrow> ((nat \<times> uint64) list \<Rightarrow> nat) \<Rightarrow> name \<Rightarrow> bool \<Rightarrow> ims \<Rightarrow> ims result" where
  "ims_erase sha256 tie n isPrefix st =
     (if isPrefix then
        erase_shrink sha256 tie (erase_loop n (drop (lower_bound sha256 n st) (m_cache st)) st)
      else case cache_find sha256 n st of
        None \<Rightarrow> Inr st
      | Some p \<Rightarrow> erase_shrink sha256 tie (freeEntry p (beforeErase p st)))"

section \<open>Events, iterators, printing and destruction\<close>

definition ims_runEvents :: "int \<Rightarrow> ims \<Rightarrow> ims" where
  "ims_runEvents now st = st\<lparr>ims_entries := \<lambda>p. Entry_runEvent now (ims_entries st p)\<rparr>"

text \<open>A \<open>const_iterator\<close> has the packet it points to and its position in the cache.\<close>

type_synonym ims_iterator = "data option \<times> nat"

definition ims_begin :: "ims \<Rightarrow> ims_iterator result" where
  "ims_begin st = (case m_cache st of
     [] \<Rightarrow> Inl (LogicError ''dereference of the end iterator'')
   | p # _ \<Rightarrow> Inr (Some (Entry_getData (ims_entries st p)), 0))"

definition ims_end :: "ims \<Rightarrow> ims_iterator" where
  "ims_end st = (None, length (m_cache st))"

definition iterator_increment :: "ims \<Rightarrow> ims_iterator \<Rightarrow> ims_iterator" where
  "iterator_increment st i =
     (let it = Suc (snd i) in
      if it \<noteq> length (m_cache st) then (Some (Entry_getData (ims_entries st (m_cache st ! it))), it) else (None, it))"

definition iterator_postincrement :: "ims \<Rightarrow> ims_iterator \<Rightarrow> ims_iterator \<times> ims_iterator" where
  "iterator_postincrement st i = (i, iterator_increment st i)"

definition iterator_dereference :: "ims_iterator \<Rightarrow> data result" where
  "iterator_dereference i = (case fst i of Some d \<Rightarrow> Inr d | None \<Rightarrow> Inl (LogicError ''null pointer''))"

definition iterator_equals :: "ims_iterator \<Rightarrow> ims_iterator \<Rightarrow> bool" where
  "iterator_equals i j \<longleftrightarrow> snd i = snd j"

fun printCache :: "string option \<Rightarrow> (byte list \<Rightarrow> byte list) \<Rightarrow> ims \<Rightarrow> nat list \<Rightarrow> string result" where
  "printCache env sha256 st [] = Inr []"
| "printCache env sha256 st (p # ps) =
     bindE (Name_toUri env UriFormat_DEFAULT (getFullName sha256 st p)) (\<lambda>s.
       bindE (printCache env sha256 st ps) (\<lambda>rest. Inr (s @ [CHR 0x0A] @ rest)))"

definition ims_destroy :: "ims \<Rightarrow> unit result" where
  "ims_destroy st =
     (let st' = fold freeEntry (m_cache st) st in
      if length (m_freeEntries st') = m_capacity st' then Inr ()
      else Inl (LogicError ''m_freeEntries.size() == m_capacity''))"

end
