(* ===== verification/InterestDigest.thy ===== *)
theory InterestDigest
  imports Interest
begin

text \<open>
  The parameters digest of an Interest: where the digest component is in the name, and the invariant
  that every member function keeps, by induction over the reachable Interests.
\<close>

section \<open>Where the digest component is\<close>

lemma findDigest_found:
  "pos \<noteq> -1 \<Longrightarrow> findDigest_loop cs i pos = (if list_ex isParametersSha256Digest cs then -2 else pos)"
  by (induction cs i pos rule: findDigest_loop.induct) auto

lemma findDigest_none: "\<not> list_ex isParametersSha256Digest cs \<Longrightarrow> findDigest_loop cs i pos = pos"
  by (induction cs arbitrary: i) auto

lemma findDigest_first:
  "\<not> list_ex isParametersSha256Digest as \<Longrightarrow> isParametersSha256Digest c \<Longrightarrow> 0 \<le> i \<Longrightarrow>
     findDigest_loop (as @ c # bs) i (-1) =
       (if list_ex isParametersSha256Digest bs then -2 else i + int (length as))"
  by (induction as arbitrary: i) (auto simp: findDigest_found)

text \<open>The three results of \<open>findParametersDigestComponent\<close>.\<close>

lemma findDigest_cases:
  obtains (none) "findParametersDigestComponent n = -1" "\<not> list_ex isParametersSha256Digest (components n)"
  | (one) as c bs where "findParametersDigestComponent n = int (length as)" "components n = as @ c # bs"
      "isParametersSha256Digest c" "\<not> list_ex isParametersSha256Digest as" "\<not> list_ex isParametersSha256Digest bs"
  | (many) "findParametersDigestComponent n = -2"
proof (cases "list_ex isParametersSha256Digest (components n)")
  case True
  then obtain as c bs where s: "components n = as @ c # bs" "isParametersSha256Digest c"
      "\<not> list_ex isParametersSha256Digest as"
    using split_list_first_prop [of "components n" isParametersSha256Digest] by (auto simp: list_ex_iff)
  have "findParametersDigestComponent n = (if list_ex isParametersSha256Digest bs then -2 else int (length as))"
    using findDigest_first [OF s(3,2), of 0 bs] s(1) by (simp add: findParametersDigestComponent_def)
  then show ?thesis using one [OF _ s] many by (auto split: if_splits)
next
  case False
  then show ?thesis using none findDigest_none by (simp add: findParametersDigestComponent_def)
qed

lemma findDigest_one:
  assumes "components n = as @ c # bs" "isParametersSha256Digest c"
    "\<not> list_ex isParametersSha256Digest as" "\<not> list_ex isParametersSha256Digest bs"
  shows "findParametersDigestComponent n = int (length as)"
  using findDigest_first [OF assms(3,2), of 0 bs] assms(1,4) by (simp add: findParametersDigestComponent_def)

lemma digest_component_parts:
  assumes "fromParametersSha256Digest_buffer h = Inr c" "length h = 32"
  shows "isParametersSha256Digest c" "value_bytes c = h"
proof -
  have "c = Block_ofValue tlv_ParametersSha256DigestComponent h"
    using assms(1) by (auto simp: fromParametersSha256Digest_buffer_def Component_ofBlock_def getComponentType2_def
        ensureValid_def split: if_splits sum.splits prod.splits simp: bindE_eq_Inr)
  then show "isParametersSha256Digest c" "value_bytes c = h"
    using assms(2) by (simp_all add: isParametersSha256Digest_def getComponentType2_def Block_ofValue_def
        value_size_def hasValue_def value_bytes_def bslice_all)
qed

section \<open>The digest invariant\<close>

text \<open>
  What the assertions of the class rely on, and more: the name has at most one digest component, and
  if there are parameters it has one, its value is the digest of the parameters, and the first
  parameter is ApplicationParameters.
\<close>

definition digest_inv :: "(byte list \<Rightarrow> byte list) \<Rightarrow> interest \<Rightarrow> bool" where
  "digest_inv sha256 i \<longleftrightarrow> findParametersDigestComponent (i_name i) \<noteq> -2 \<and>
     (Interest_hasApplicationParameters i \<longrightarrow>
       Interest_isParametersDigestValid sha256 i = Inr True \<and> m_type (hd (i_parameters i)) = tlv_ApplicationParameters)"

lemma digest_inv_cong:
  "i_name i' = i_name i \<Longrightarrow> i_parameters i' = i_parameters i \<Longrightarrow> digest_inv sha256 i' = digest_inv sha256 i"
  by (simp add: digest_inv_def Interest_hasApplicationParameters_def Interest_isParametersDigestValid_def
      computeParametersDigest_def Let_def)

lemma resetWire_sel [simp]:
  "i_name (Interest_resetWire i) = i_name i" "i_parameters (Interest_resetWire i) = i_parameters i"
  by (simp_all add: Interest_resetWire_def)

lemma addOrReplace_valid:
  assumes "addOrReplaceParametersDigestComponent sha256 i = Inr i'" "\<And>x. length (sha256 x) = 32"
    and "findParametersDigestComponent (i_name i) \<noteq> -2"
  shows "i_parameters i' = i_parameters i" "findParametersDigestComponent (i_name i') \<noteq> -2"
    "Interest_isParametersDigestValid sha256 i' = Inr True"
proof -
  let ?P = isParametersSha256Digest
  obtain h c where h: "computeParametersDigest sha256 i = Inr h" "fromParametersSha256Digest_buffer h = Inr c"
    and p: "Interest_hasApplicationParameters i"
    using assms(1) by (auto simp: addOrReplaceParametersDigestComponent_def bindE_eq_Inr Let_def split: if_splits)
  have len: "length h = 32" using h(1) assms(2) by (auto simp: computeParametersDigest_def bindE_eq_Inr)
  note c = digest_component_parts [OF h(2) len]
  have "i_parameters i' = i_parameters i \<and>
    (\<exists>as bs. components (i_name i') = as @ c # bs \<and> \<not> list_ex ?P as \<and> \<not> list_ex ?P bs)"
  proof (cases rule: findDigest_cases [of "i_name i"])
    case none
    then have "i' = i\<lparr>i_name := Name_append c (i_name i)\<rparr>"
      using assms(1) h p by (simp add: addOrReplaceParametersDigestComponent_def)
    then show ?thesis using none(2) by fastforce
  next
    case (one as x bs)
    then have "i' = i\<lparr>i_name := (i_name i)\<lparr>name_wire := resetWire (set_elements (as @ c # bs) (name_wire (i_name i)))\<rparr>\<rparr>"
      using assms(1) h p by (simp add: addOrReplaceParametersDigestComponent_def Name_set_def Name_size_def)
    then show ?thesis using one(4,5) by (fastforce simp: resetWire_def set_elements_def)
  qed (use assms(3) in simp)
  then obtain as bs where n: "components (i_name i') = as @ c # bs" "\<not> list_ex ?P as" "\<not> list_ex ?P bs"
    and par: "i_parameters i' = i_parameters i" by blast
  have f: "findParametersDigestComponent (i_name i') = int (length as)" by (rule findDigest_one [OF n(1) c(1) n(2,3)])
  have "computeParametersDigest sha256 i' = Inr h" "Interest_hasApplicationParameters i'"
    using h(1) p par by (simp_all add: computeParametersDigest_def Interest_hasApplicationParameters_def)
  moreover have "Name_get (int (length as)) (i_name i') = Inr c" using n(1) by (simp add: Name_get_def Name_size_def)
  ultimately show "Interest_isParametersDigestValid sha256 i' = Inr True"
    using f c(2) by (simp add: Interest_isParametersDigestValid_def Let_def)
  show "i_parameters i' = i_parameters i" by (rule par)
  show "findParametersDigestComponent (i_name i') \<noteq> -2" using f by simp
qed

lemma updateDigest_inv:
  assumes "Interest_updateDigest sha256 i = Inr i'" "\<And>x. length (sha256 x) = 32"
    and "findParametersDigestComponent (i_name i) \<noteq> -2" "m_type (hd (i_parameters i)) = tlv_ApplicationParameters"
  shows "digest_inv sha256 i'"
proof -
  obtain j where j: "addOrReplaceParametersDigestComponent sha256 i = Inr j" "i' = Interest_resetWire j"
    using assms(1) by (auto simp: Interest_updateDigest_def bindE_eq_Inr)
  have "digest_inv sha256 j"
    using addOrReplace_valid [OF j(1) assms(2,3)] assms(4) by (simp add: digest_inv_def)
  then show ?thesis using digest_inv_cong [of i' j] j(2) by simp
qed

lemma setName_inv:
  assumes "digest_inv sha256 i" "Interest_setName sha256 n i = Inr i'" "\<And>x. length (sha256 x) = 32"
  shows "digest_inv sha256 i'"
proof (cases "Name_equals n (i_name i)")
  case True
  then show ?thesis using assms(1,2) by (auto simp: Interest_setName_def split: if_splits)
next
  case neq: False
  let ?i1 = "i\<lparr>i_name := n\<rparr>"
  have n: "findParametersDigestComponent n \<noteq> -2" using assms(2) by (auto simp: Interest_setName_def split: if_splits)
  show ?thesis
  proof (cases "Interest_hasApplicationParameters i")
    case True
    then have u: "Interest_updateDigest sha256 ?i1 = Inr i'" "m_type (hd (i_parameters ?i1)) = tlv_ApplicationParameters"
      using assms(1,2) n neq by (simp_all add: Interest_setName_def Interest_updateDigest_def digest_inv_def
          Interest_hasApplicationParameters_def Let_def)
    show ?thesis using n by (intro updateDigest_inv [OF u(1) assms(3)] u(2)) simp
  next
    case False
    then have "i' = Interest_resetWire ?i1"
      using assms(2) n neq by (simp add: Interest_setName_def Interest_hasApplicationParameters_def Let_def)
    then show ?thesis using n False by (simp add: digest_inv_def Interest_hasApplicationParameters_def)
  qed
qed

lemma m_type_Block_encode [simp]: "m_type (Block_encode b) = m_type b"
  by (cases b) (auto simp: Block_encode_def Let_def split: prod.splits option.splits)

lemma setParameters_inv:
  assumes "digest_inv sha256 i" "bindE (setApplicationParametersInternal p i) (Interest_updateDigest sha256) = Inr i'"
    and "\<And>x. length (sha256 x) = 32" "m_type p = tlv_ApplicationParameters"
  shows "digest_inv sha256 i'"
proof -
  obtain j where j: "setApplicationParametersInternal p i = Inr j" "Interest_updateDigest sha256 j = Inr i'"
    using assms(2) by (auto simp: bindE_eq_Inr)
  have "i_name j = i_name i" "m_type (hd (i_parameters j)) = tlv_ApplicationParameters"
    using j(1) assms(4) by (auto simp: setApplicationParametersInternal_def Let_def split: list.splits if_splits)
  then show ?thesis
    using updateDigest_inv [OF j(2) assms(3)] assms(1) by (simp add: digest_inv_def)
qed

lemma unset_inv:
  assumes "digest_inv sha256 i" "Interest_unsetApplicationParameters i = Inr i'"
  shows "digest_inv sha256 i' \<and> findParametersDigestComponent (i_name i') = -1 \<and> i_parameters i' = []"
proof (cases rule: findDigest_cases [of "i_name i"])
  case none
  then have "i' = Interest_resetWire (i\<lparr>i_parameters := []\<rparr>)"
    using assms(2) by (simp add: Interest_unsetApplicationParameters_def Let_def)
  then show ?thesis using none by (simp add: digest_inv_def Interest_hasApplicationParameters_def)
next
  case (one as c bs)
  obtain n where n: "Name_erase (int (length as)) (i_name i) = Inr n"
    "i' = Interest_resetWire (i\<lparr>i_parameters := [], i_name := n\<rparr>)"
    using assms(2) one(1) by (auto simp: Interest_unsetApplicationParameters_def Let_def bindE_eq_Inr)
  have "components n = as @ bs"
    using n(1) one(2) by (auto simp: Name_erase_def Let_def Block_erase_def set_elements_def resetWire_def split: if_splits)
  then have "findParametersDigestComponent n = -1"
    using one(4,5) findDigest_none [of "as @ bs" 0 "-1"] by (simp add: findParametersDigestComponent_def)
  then show ?thesis using n(2) by (simp add: digest_inv_def Interest_hasApplicationParameters_def)
qed (use assms(1) in \<open>simp add: digest_inv_def\<close>)

lemma findFirst_pos:
  "i_parameters i \<noteq> [] \<Longrightarrow> m_type (hd (i_parameters i)) \<noteq> t \<Longrightarrow> 0 < findFirstParameter t i"
  by (cases "i_parameters i") (simp_all add: findFirstParameter_def)

lemma hd_update_pos: "0 < k \<Longrightarrow> xs \<noteq> [] \<Longrightarrow> hd (xs[k := x]) = hd xs" "0 < k \<Longrightarrow> xs \<noteq> [] \<Longrightarrow> hd (insert_at k x xs) = hd xs"
  by (cases xs; cases k; simp add: insert_at_def)+

lemma setSignatureInfo_inv:
  assumes "digest_inv sha256 i0" "Interest_setSignatureInfo sha256 info i0 = Inr i'" "\<And>x. length (sha256 x) = 32"
  shows "digest_inv sha256 i'"
proof -
  have e: "makeEmptyBlock tlv_ApplicationParameters = Inr (tlv_block tlv_ApplicationParameters [])"
    unfolding makeEmptyBlock_def by (intro makeBlock_tlv prepends_emptyBlock) simp_all
  define i where "i = (if i_parameters i0 = [] then i0\<lparr>i_parameters := [tlv_block tlv_ApplicationParameters []]\<rparr> else i0)"
  have i: "i_parameters i \<noteq> []" "m_type (hd (i_parameters i)) = tlv_ApplicationParameters"
    "findParametersDigestComponent (i_name i) \<noteq> -2"
    using assms(1) by (auto simp: i_def digest_inv_def Interest_hasApplicationParameters_def)
  define k where "k = findFirstParameter tlv_InterestSignatureInfo i"
  define v where "v = findFirstParameter tlv_InterestSignatureValue i"
  have pos: "0 < k" "0 < v" unfolding k_def v_def using i by (auto intro!: findFirst_pos)
  have same: "i = i0" if "k \<noteq> length (i_parameters i)"
    using that by (auto simp: i_def k_def findFirstParameter_def)
  have st: "(if i_parameters i0 = []
      then bindE (makeEmptyBlock tlv_ApplicationParameters) (\<lambda>b. Inr (i0\<lparr>i_parameters := [b]\<rparr>)) else Inr i0) = Inr i"
    using e by (simp add: i_def)
  obtain b where "i' = i0 \<or> Interest_updateDigest sha256 (i\<lparr>i_parameters := (i_parameters i)[k := b]\<rparr>) = Inr i' \<or>
      Interest_updateDigest sha256 (i\<lparr>i_parameters := insert_at v b (i_parameters i)\<rparr>) = Inr i'"
    using assms(2) same unfolding Interest_setSignatureInfo_def st bindE_Inr Let_def k_def [symmetric] v_def [symmetric]
    by (auto simp: bindE_eq_Inr split: if_splits)
  then show ?thesis
    using assms(1) i pos by (auto intro!: updateDigest_inv [OF _ assms(3)] simp: hd_update_pos)
qed

lemma setSignatureValue_inv:
  assumes "digest_inv sha256 i" "Interest_setSignatureValue sha256 val i = Inr i'" "\<And>x. length (sha256 x) = 32"
  shows "digest_inv sha256 i'"
proof -
  define k where "k = findFirstParameter tlv_InterestSignatureInfo i"
  define v where "v = findFirstParameter tlv_InterestSignatureValue i"
  have k: "k \<noteq> length (i_parameters i)" using assms(2)
    by (auto simp: Interest_setSignatureValue_def Let_def k_def split: option.splits if_splits)
  then have i: "i_parameters i \<noteq> []" by (auto simp: k_def findFirstParameter_def)
  then have h: "m_type (hd (i_parameters i)) = tlv_ApplicationParameters" "findParametersDigestComponent (i_name i) \<noteq> -2"
    using assms(1) by (simp_all add: digest_inv_def Interest_hasApplicationParameters_def)
  have pos: "0 < v" unfolding v_def using i h by (auto intro!: findFirst_pos)
  obtain b where "i' = i \<or> Interest_updateDigest sha256 (i\<lparr>i_parameters := (i_parameters i)[v := b]\<rparr>) = Inr i' \<or>
      Interest_updateDigest sha256 (i\<lparr>i_parameters := insert_at (Suc k) b (i_parameters i)\<rparr>) = Inr i'"
    using assms(2) by (auto simp: Interest_setSignatureValue_def Let_def simp flip: k_def v_def split: option.splits if_splits)
  then show ?thesis
    using assms(1) i h pos by (auto intro!: updateDigest_inv [OF _ assms(3)] simp: hd_update_pos)
qed

lemma decode_loop_name: "Interest_decode_loop els k i = Inr i' \<Longrightarrow> i_name i' = i_name i"
proof (induction els arbitrary: k i)
  case (Cons x rest)
  then show ?case by (auto simp: bindE_eq_Inr split: if_split_asm dest!: Cons.IH)
qed simp

lemma decode_loop_parameters:
  "Interest_decode_loop els k i = Inr i' \<Longrightarrow>
   i_parameters i = [] \<or> m_type (hd (i_parameters i)) = tlv_ApplicationParameters \<Longrightarrow>
     i_parameters i' = [] \<or> m_type (hd (i_parameters i')) = tlv_ApplicationParameters"
proof (induction els arbitrary: k i)
  case (Cons x rest)
  have "m_type (hd (i_parameters i @ [x])) = tlv_ApplicationParameters"
    if "i_parameters i \<noteq> [] \<or> m_type x = tlv_ApplicationParameters"
    using Cons.prems(2) that by (cases "i_parameters i") auto
  with Cons.prems show ?case
    by (auto simp: bindE_eq_Inr Interest_hasApplicationParameters_def split: if_split_asm dest!: Cons.IH)
qed simp

lemma wireDecode_inv:
  assumes "Interest_wireDecode sha256 True b = Inr i"
  shows "digest_inv sha256 i \<and> Interest_isParametersDigestValid sha256 i = Inr True"
proof -
  obtain w where p: "parseE b = Inr w" using assms by (auto simp: Interest_wireDecode_def bindE_eq_Inr split: if_splits)
  obtain x els where e: "m_elements w = x # els" using assms p
    by (cases "m_elements w") (auto simp: Interest_wireDecode_def split: if_splits)
  obtain n where w: "Name_ofBlock x = Inr n"
    "findParametersDigestComponent n \<noteq> -2"
    "Interest_decode_loop els 1
       \<lparr>i_name = n, i_forwardingHint = [], i_nonce = None, i_interestLifetime = DEFAULT_INTEREST_LIFETIME,
        i_hopLimit = None, i_canBePrefix = False, i_mustBeFresh = False, i_parameters = [], i_wire = w\<rparr> = Inr i"
    "Interest_isParametersDigestValid sha256 i = Inr True"
    using assms p e by (auto simp: Interest_wireDecode_def bindE_eq_Inr split: if_splits)
  then show ?thesis
    using decode_loop_name [OF w(3)] decode_loop_parameters [OF w(3)]
    by (auto simp: digest_inv_def Interest_hasApplicationParameters_def)
qed

section \<open>Reachable Interests\<close>

text \<open>
  The calls that make or change an Interest, with the automatic digest check on, as it is by
  default.  Buffers passed in fit in memory.
\<close>

inductive interest_reachable :: "(byte list \<Rightarrow> byte list) \<Rightarrow> interest \<Rightarrow> bool" for sha256 where
  make: "Interest_make sha256 c n l = Inr i \<Longrightarrow> interest_reachable sha256 i"
| wireDecode: "Interest_wireDecode sha256 True b = Inr i \<Longrightarrow> interest_reachable sha256 i"
| wireEncode: "interest_reachable sha256 i \<Longrightarrow> Interest_wireEncode sha256 True r i = Inr i' \<Longrightarrow> interest_reachable sha256 i'"
| signedRanges: "interest_reachable sha256 i \<Longrightarrow> Interest_extractSignedRanges sha256 True r i = Inr (rs, i') \<Longrightarrow>
    interest_reachable sha256 i'"
| setName: "interest_reachable sha256 i \<Longrightarrow> Interest_setName sha256 n i = Inr i' \<Longrightarrow> interest_reachable sha256 i'"
| setCanBePrefix: "interest_reachable sha256 i \<Longrightarrow> interest_reachable sha256 (Interest_setCanBePrefix c i)"
| setMustBeFresh: "interest_reachable sha256 i \<Longrightarrow> interest_reachable sha256 (Interest_setMustBeFresh m i)"
| setForwardingHint: "interest_reachable sha256 i \<Longrightarrow> interest_reachable sha256 (Interest_setForwardingHint h i)"
| getNonce: "interest_reachable sha256 i \<Longrightarrow> interest_reachable sha256 (snd (Interest_getNonce r i))"
| setNonce: "interest_reachable sha256 i \<Longrightarrow> interest_reachable sha256 (Interest_setNonce nn i)"
| refreshNonce: "interest_reachable sha256 i \<Longrightarrow> Interest_refreshNonce rs i = Some (i', rs') \<Longrightarrow> interest_reachable sha256 i'"
| setInterestLifetime: "interest_reachable sha256 i \<Longrightarrow> Interest_setInterestLifetime l i = Inr i' \<Longrightarrow> interest_reachable sha256 i'"
| setHopLimit: "interest_reachable sha256 i \<Longrightarrow> interest_reachable sha256 (Interest_setHopLimit hl i)"
| setParameters_block: "interest_reachable sha256 i \<Longrightarrow>
    Interest_setApplicationParameters_block sha256 b i = Inr i' \<Longrightarrow> interest_reachable sha256 i'"
| setParameters: "interest_reachable sha256 i \<Longrightarrow> length v < 2 ^ 64 \<Longrightarrow>
    Interest_setApplicationParameters sha256 v i = Inr i' \<Longrightarrow> interest_reachable sha256 i'"
| setParameters_ptr: "interest_reachable sha256 i \<Longrightarrow> len < 2 ^ 64 \<Longrightarrow>
    Interest_setApplicationParameters_ptr sha256 p len i = Inr i' \<Longrightarrow> interest_reachable sha256 i'"
| setParameters_buffer: "interest_reachable sha256 i \<Longrightarrow>
    Interest_setApplicationParameters_buffer sha256 p i = Inr i' \<Longrightarrow> interest_reachable sha256 i'"
| unsetParameters: "interest_reachable sha256 i \<Longrightarrow> Interest_unsetApplicationParameters i = Inr i' \<Longrightarrow>
    interest_reachable sha256 i'"
| setSignatureInfo: "interest_reachable sha256 i \<Longrightarrow> Interest_setSignatureInfo sha256 info i = Inr i' \<Longrightarrow>
    interest_reachable sha256 i'"
| setSignatureValue: "interest_reachable sha256 i \<Longrightarrow> Interest_setSignatureValue sha256 p i = Inr i' \<Longrightarrow>
    interest_reachable sha256 i'"

lemma setParameters_bytes_inv:
  assumes "digest_inv sha256 i" "Interest_setApplicationParameters sha256 v i = Inr i'" "length v < 2 ^ 64"
    and "\<And>x. length (sha256 x) = 32"
  shows "digest_inv sha256 i'"
proof -
  have "makeBinaryBlock tlv_ApplicationParameters v = Inr (tlv_block tlv_ApplicationParameters v)"
    unfolding makeBinaryBlock_def using assms(3) by (intro makeBlock_tlv prepends_binaryBlock) simp_all
  then show ?thesis
    using setParameters_inv [OF assms(1), of "tlv_block tlv_ApplicationParameters v" i'] assms(2,4)
    by (simp add: Interest_setApplicationParameters_def)
qed

lemma wireEncode_inv:
  "digest_inv sha256 i \<Longrightarrow> Interest_wireEncode sha256 True r i = Inr i' \<Longrightarrow> digest_inv sha256 i'"
  by (auto simp: Interest_wireEncode_def bindE_eq_Inr dest: wireDecode_inv split: if_splits)

lemma make_inv:
  assumes "Interest_make sha256 c n l = Inr i" "\<And>x. length (sha256 x) = 32"
  shows "digest_inv sha256 i"
proof -
  let ?i0 = "\<lparr>i_name = Name_default, i_forwardingHint = [], i_nonce = None, i_interestLifetime = 0,
    i_hopLimit = None, i_canBePrefix = False, i_mustBeFresh = False, i_parameters = [], i_wire = Block_default\<rparr>"
  obtain i1 i2 where i1: "Interest_setName sha256 n ?i0 = Inr i1" "Interest_setInterestLifetime l i1 = Inr i2"
    "i = (case c of None \<Rightarrow> i2 | Some c \<Rightarrow> Interest_setCanBePrefix c i2)"
    using assms(1) by (auto simp: Interest_make_def bindE_eq_Inr)
  have "digest_inv sha256 ?i0"
    by (simp add: digest_inv_def Interest_hasApplicationParameters_def findParametersDigestComponent_def
        Name_default_def Block_ofType_def)
  from setName_inv [OF this i1(1) assms(2)] have "digest_inv sha256 i1" by simp
  then show ?thesis using i1(2,3) digest_inv_cong [of i i1]
    by (auto simp: Interest_setInterestLifetime_def Interest_setCanBePrefix_def split: if_splits option.splits)
qed

lemma extract_inv:
  "digest_inv sha256 i \<Longrightarrow> Interest_extractSignedRanges sha256 True r i = Inr (rs, i') \<Longrightarrow> digest_inv sha256 i'"
  unfolding Interest_extractSignedRanges_def
  by (simp only: bindE_eq_Inr Let_def) (auto simp: bindE_eq_Inr intro: wireEncode_inv split: if_split_asm option.split_asm)

lemma setParameters_block_inv:
  assumes "digest_inv sha256 i" "Interest_setApplicationParameters_block sha256 b i = Inr i'" "\<And>x. length (sha256 x) = 32"
  shows "digest_inv sha256 i'"
proof -
  obtain p where p: "bindE (setApplicationParametersInternal p i) (Interest_updateDigest sha256) = Inr i'"
    "(if m_type b = tlv_ApplicationParameters then Inr b else Block_ofBlock tlv_ApplicationParameters b) = Inr p"
    using assms(2) by (auto simp: Interest_setApplicationParameters_block_def bindE_eq_Inr split: if_split_asm)
  have "m_type p = tlv_ApplicationParameters"
    using p(2) by (auto simp: Block_ofBlock_def Let_def split: if_split_asm option.split_asm)
  then show ?thesis by (rule setParameters_inv [OF assms(1) p(1) assms(3)])
qed

lemma fields_inv:
  assumes "digest_inv sha256 i"
  shows "digest_inv sha256 (Interest_setCanBePrefix c i)" "digest_inv sha256 (Interest_setMustBeFresh m i)"
    "digest_inv sha256 (Interest_setForwardingHint h i)" "digest_inv sha256 (snd (Interest_getNonce r i))"
    "digest_inv sha256 (Interest_setNonce nn i)" "digest_inv sha256 (Interest_setHopLimit hl i)"
    "Interest_refreshNonce rs i = Some (i', rs') \<Longrightarrow> digest_inv sha256 i'"
    "Interest_setInterestLifetime l i = Inr i' \<Longrightarrow> digest_inv sha256 i'"
proof -
  note keep = digest_inv_cong [THEN iffD2, OF _ _ assms] and defs = Interest_setCanBePrefix_def Interest_setMustBeFresh_def
    Interest_setForwardingHint_def Interest_getNonce_def Interest_setNonce_def Interest_setHopLimit_def
  show "digest_inv sha256 (Interest_setCanBePrefix c i)" "digest_inv sha256 (Interest_setMustBeFresh m i)"
    "digest_inv sha256 (Interest_setForwardingHint h i)" "digest_inv sha256 (snd (Interest_getNonce r i))"
    "digest_inv sha256 (Interest_setNonce nn i)" "digest_inv sha256 (Interest_setHopLimit hl i)"
    using assms by (auto simp: defs split: option.split intro!: keep)
  show "Interest_refreshNonce rs i = Some (i', rs') \<Longrightarrow> digest_inv sha256 i'"
    using assms by (auto simp: Interest_refreshNonce_def split: option.split_asm intro!: keep)
  show "Interest_setInterestLifetime l i = Inr i' \<Longrightarrow> digest_inv sha256 i'"
    using assms by (auto simp: Interest_setInterestLifetime_def split: if_split_asm intro!: keep)
qed

lemma interest_reachable_inv:
  assumes "interest_reachable sha256 i" "\<And>x. length (sha256 x) = 32"
  shows "digest_inv sha256 i"
  using assms(1)
proof (induction rule: interest_reachable.induct)
  case (make c n l i)
  then show ?case by (rule make_inv [OF _ assms(2)])
next
  case (setParameters_ptr i len p i')
  then show ?case
    by (auto simp: Interest_setApplicationParameters_ptr_def intro: setParameters_bytes_inv [OF _ _ _ assms(2)]
        split: if_split_asm option.split_asm)
next
  case (setParameters_buffer i p i')
  then obtain v where "bindE (setApplicationParametersInternal (Block_ofValue tlv_ApplicationParameters v) i)
      (Interest_updateDigest sha256) = Inr i'"
    by (auto simp: Interest_setApplicationParameters_buffer_def split: option.split_asm)
  then show ?case
    by (rule setParameters_inv [OF setParameters_buffer.IH _ assms(2)]) (simp add: Block_ofValue_def)
next
  case (unsetParameters i i')
  then show ?case using unset_inv by blast
next
  case (setName i n i')
  then show ?case using setName_inv assms(2) by blast
next
  case (setParameters_block i b i')
  then show ?case using setParameters_block_inv assms(2) by blast
next
  case (setParameters i v i')
  then show ?case using setParameters_bytes_inv assms(2) by blast
next
  case (setSignatureInfo i info i')
  then show ?case using setSignatureInfo_inv assms(2) by blast
next
  case (setSignatureValue i p i')
  then show ?case using setSignatureValue_inv assms(2) by blast
qed (blast intro: fields_inv wireEncode_inv extract_inv dest: wireDecode_inv)+

section \<open>Properties\<close>

text \<open>
  C11: The digest in the name of an Interest is never stale.  On an Interest reached by any sequence of calls
  (with the automatic check of decoded packets on), the name has at most one parameters digest; if
  the Interest has parameters, it has one, \<open>isParametersDigestValid\<close> returns true, that is, its value
  is the SHA-256 of the encoded parameters, and the first parameter is ApplicationParameters.  So the
  assertions of the class never fail.
\<close>

theorem interest_digest_current:
  assumes "interest_reachable sha256 i" "\<And>x. length (sha256 x) = 32"
  shows "findParametersDigestComponent (i_name i) \<noteq> -2 \<and>
    (if Interest_hasApplicationParameters i
     then Interest_isParametersDigestValid sha256 i = Inr True \<and> 0 \<le> findParametersDigestComponent (i_name i) \<and>
       m_type (hd (i_parameters i)) = tlv_ApplicationParameters
     else Interest_isParametersDigestValid sha256 i = Inr (findParametersDigestComponent (i_name i) = -1))"
  using interest_reachable_inv [OF assms]
  by (cases rule: findDigest_cases [of "i_name i"])
    (auto simp: digest_inv_def Interest_isParametersDigestValid_def split: if_splits)

theorem interest_digest_current_witness:
  "\<exists>i. interest_reachable (\<lambda>_. replicate 32 7) i \<and> Interest_hasApplicationParameters i \<and>
     Interest_isParametersDigestValid (\<lambda>_. replicate 32 7) i = Inr True"
proof -
  let ?sha = "\<lambda>_. replicate 32 7"
  let ?i0 = "projr (Interest_make ?sha None (Name_append (tlv_block 8 [65]) Name_default) 4000)"
  let ?i1 = "projr (Interest_setApplicationParameters ?sha [1, 2] ?i0)"
  have "Interest_make ?sha None (Name_append (tlv_block 8 [65]) Name_default) 4000 = Inr ?i0" by code_simp
  then have 0: "interest_reachable ?sha ?i0" by (rule interest_reachable.make)
  have "Interest_setApplicationParameters ?sha [1, 2] ?i0 = Inr ?i1" by code_simp
  then have 1: "interest_reachable ?sha ?i1" by (intro interest_reachable.setParameters [OF 0]) simp_all
  moreover have "Interest_hasApplicationParameters ?i1" by code_simp
  ultimately show ?thesis using interest_digest_current [OF 1] by auto
qed

end
