(* ===== verification/InterestWire.thy ===== *)
theory InterestWire
  imports InterestDigest
begin

text \<open>
  Wire coding of the Interest: what \<open>wireEncode\<close> writes, that decoding reads it back, and the signed
  ranges of a signed Interest.
\<close>

section \<open>The elements of an Interest\<close>

definition hint_tlvs :: "name list \<Rightarrow> (uint32 \<times> byte list) list" where
  "hint_tlvs hs = map (\<lambda>n. (tlv_Name, tlvs_bytes (name_view n))) hs"

definition i_fields :: "uint32 \<Rightarrow> interest \<Rightarrow> (uint32 \<times> byte list) list" where
  "i_fields r i =
     (if i_canBePrefix i then [(tlv_CanBePrefix, [])] else []) @
     (if i_mustBeFresh i then [(tlv_MustBeFresh, [])] else []) @
     (if i_forwardingHint i \<noteq> [] then [(tlv_ForwardingHint, tlvs_bytes (hint_tlvs (i_forwardingHint i)))] else []) @
     [(tlv_Nonce, fst (Interest_getNonce r i))] @
     (if i_interestLifetime i \<noteq> DEFAULT_INTEREST_LIFETIME
      then [(tlv_InterestLifetime, nni_bytes (word_of_int (i_interestLifetime i)))] else []) @
     (case i_hopLimit i of None \<Rightarrow> [] | Some h \<Rightarrow> [(tlv_HopLimit, [h])])"

definition i_tlvs :: "uint32 \<Rightarrow> interest \<Rightarrow> (uint32 \<times> byte list) list" where
  "i_tlvs r i = (tlv_Name, tlvs_bytes (name_view (i_name i))) # i_fields r i @ map view (i_parameters i)"

text \<open>Parameters that decoding keeps: ApplicationParameters first, then elements it does not know.\<close>

definition parameters_ok :: "block list \<Rightarrow> bool" where
  "parameters_ok ps \<longleftrightarrow> list_all (\<lambda>b. wf_block b \<and> hasWire b \<and> shortest b) ps \<and>
     (ps = [] \<or> m_type (hd ps) = tlv_ApplicationParameters) \<and>
     list_all (\<lambda>b. \<not> isCriticalType (m_type b) \<and> m_type b \<noteq> tlv_HopLimit \<and> m_type b \<noteq> tlv_ApplicationParameters) (tl ps)"

definition i_ok :: "(byte list \<Rightarrow> byte list) \<Rightarrow> uint32 \<Rightarrow> interest \<Rightarrow> bool" where
  "i_ok sha256 r i \<longleftrightarrow> name_ok (i_name i) \<and> \<not> Name_empty (i_name i) \<and>
     Interest_isParametersDigestValid sha256 i = Inr True \<and> list_all name_ok (i_forwardingHint i) \<and>
     (case i_nonce i of None \<Rightarrow> True | Some n \<Rightarrow> length n = 4) \<and>
     0 \<le> i_interestLifetime i \<and> i_interestLifetime i < 2 ^ 63 \<and> parameters_ok (i_parameters i) \<and>
     length (tlvs_bytes (i_tlvs r i)) < 2 ^ 64"

definition same_interest :: "uint32 \<Rightarrow> interest \<Rightarrow> interest \<Rightarrow> bool" where
  "same_interest r a b \<longleftrightarrow> name_view (i_name b) = name_view (i_name a) \<and>
     map name_view (i_forwardingHint b) = map name_view (i_forwardingHint a) \<and>
     i_nonce b = Some (fst (Interest_getNonce r a)) \<and> i_interestLifetime b = i_interestLifetime a \<and>
     i_hopLimit b = i_hopLimit a \<and> i_canBePrefix b = i_canBePrefix a \<and> i_mustBeFresh b = i_mustBeFresh a \<and>
     map view (i_parameters b) = map view (i_parameters a)"

lemma length_nonce: "i_ok sha256 r i \<Longrightarrow> length (fst (Interest_getNonce r i)) = 4"
  by (auto simp: i_ok_def Interest_getNonce_def generateNonce_def split: option.splits)

lemma digest_valid_checks:
  assumes "Interest_isParametersDigestValid sha256 i = Inr True"
  shows "findParametersDigestComponent (i_name i) \<noteq> -2"
    "findParametersDigestComponent (i_name i) = -1 \<longleftrightarrow> \<not> Interest_hasApplicationParameters i"
  using assms by (auto simp: Interest_isParametersDigestValid_def Let_def split: if_splits)

lemma hint_out: "concat (map (\<lambda>n. tlv_bytes tlv_Name (tlvs_bytes (name_view n))) hs) = tlvs_bytes (hint_tlvs hs)"
  by (induction hs) (simp_all add: hint_tlvs_def)

lemma prepends_hint:
  "list_all name_ok hs \<Longrightarrow>
     prepends (prependNestedBlocks Name_wireEncode_enc t hs) (tlv_bytes t (tlvs_bytes (hint_tlvs hs)))"
proof -
  assume "list_all name_ok hs"
  then have "list_all (\<lambda>n. list_all wf_block (components n)) hs" by (rule list.pred_mono_strong) (rule name_ok_components)
  from nam.nested_list_prepends [OF this, of t] show ?thesis by (simp add: hint_out)
qed

lemma map_view: "map (\<lambda>x. (m_type x, value_bytes x)) bs = map view bs"
  by (simp add: view_def)

lemma Interest_prepends:
  assumes "i_ok sha256 r i"
  shows "prepends (Interest_wireEncode_enc r i) (tlv_bytes tlv_Interest (tlvs_bytes (i_tlvs r i)))"
proof -
  have v: "Interest_isParametersDigestValid sha256 i = Inr True" using assms by (simp add: i_ok_def)
  show ?thesis
    unfolding Interest_wireEncode_enc_def append_assoc [symmetric] Let_def
    using digest_valid_checks [OF v]
    by (simp only: if_False de_Morgan_conj not_not simp_thms)
      (rule prepends_element, (rule prepends_rules prepends_hint Name_wireEncode_prepends |
        (use assms in \<open>auto simp: i_ok_def i_tlvs_def i_fields_def parameters_ok_def map_view name_ok_components
          intro: name_ok_components simp: list_all_iff [of _ "i_parameters i"]\<close>; fail)[1])+)
qed

section \<open>Decoding\<close>

lemma ForwardingHint_loop_tlvs:
  "map view els = hint_tlvs hs \<Longrightarrow> list_all element_ok els \<Longrightarrow> list_all name_ok hs \<Longrightarrow>
     \<exists>ns. ForwardingHint_loop els acc = Inr (acc @ ns) \<and> map name_view ns = map name_view hs"
proof (induction els arbitrary: hs acc)
  case Nil
  then show ?case by (simp add: hint_tlvs_def)
next
  case (Cons x els)
  then obtain h hs' where h: "hs = h # hs'" "view x = (tlv_Name, tlvs_bytes (name_view h))" "map view els = hint_tlvs hs'"
    "element_ok x" "name_ok h"
    by (cases hs) (auto simp: hint_tlvs_def)
  obtain n where n: "Name_ofBlock x = Inr n" "name_view n = name_view h"
    using Name_wireDecode_tlvs [OF element_okD(1,4) [OF h(4)] h(2) name_ok_tlvs [OF h(5)]] by metis
  obtain ns where "ForwardingHint_loop els (acc @ [n]) = Inr ((acc @ [n]) @ ns)" "map name_view ns = map name_view hs'"
    using Cons.IH [OF h(3), of "acc @ [n]"] Cons.prems h(1) by auto
  moreover have "m_type x = tlv_Name" using h(2) by (simp add: view_def)
  ultimately show ?case using n h(1) by (simp add: rethrow_def)
qed

lemma decode_hint:
  assumes "element_ok x" "view x = (tlv_ForwardingHint, tlvs_bytes (hint_tlvs hs))" "list_all name_ok hs"
    and "length (tlvs_bytes (hint_tlvs hs)) < 2 ^ 64" "i_forwardingHint i = []" "k < 4"
  shows "\<exists>i'. (\<exists>ns. i' = i\<lparr>i_forwardingHint := ns\<rparr> \<and> map name_view ns = map name_view hs) \<and>
    (\<forall>es. Interest_decode_loop (x # es) k i = Interest_decode_loop es 4 i')"
proof -
  have v: "value_bytes x = tlvs_bytes (hint_tlvs hs)" "m_type x = tlv_ForwardingHint"
    using assms(2) by (simp_all add: view_def)
  have ok: "tlvs_ok (hint_tlvs hs)" using assms(4) by (rule tlvs_okI) (simp add: hint_tlvs_def list_all_iff)
  obtain b where b: "parseE x = Inr b" "map view (m_elements b) = hint_tlvs hs" "list_all element_ok (m_elements b)"
    using parseE_elements [OF element_okD(1,4) [OF assms(1)] v(1) ok] by metis
  obtain ns where "ForwardingHint_loop (m_elements b) [] = Inr ns" "map name_view ns = map name_view hs"
    using ForwardingHint_loop_tlvs [OF b(2,3) assms(3), of "[]"] by auto
  then show ?thesis using b(1) v(2) assms(5,6) by (intro exI [of _ "i\<lparr>i_forwardingHint := ns\<rparr>"]) auto
qed

lemma decode_others:
  "list_all (\<lambda>b. \<not> isCriticalType (m_type b) \<and> m_type b \<noteq> tlv_HopLimit \<and> m_type b \<noteq> tlv_ApplicationParameters) els \<Longrightarrow>
   i_parameters i \<noteq> [] \<Longrightarrow>
     Interest_decode_loop els k i = Inr (i\<lparr>i_parameters := i_parameters i @ els\<rparr>)"
proof (induction els arbitrary: i)
  case (Cons x els)
  then have "m_type x \<notin> {tlv_CanBePrefix, tlv_MustBeFresh, tlv_ForwardingHint, tlv_Nonce, tlv_InterestLifetime}"
    by (auto simp: isCriticalType_def)
  then show ?case using Cons by (simp add: Interest_hasApplicationParameters_def)
qed simp

lemma decode_parameters:
  assumes "map view els = map view ps" "parameters_ok ps" "k < 8" "i_parameters i = []"
  shows "Interest_decode_loop els k i = Inr (i\<lparr>i_parameters := els\<rparr>)"
proof (cases els)
  case (Cons x xs)
  then obtain p qs where p: "ps = p # qs" "view x = view p" "map view xs = map view qs" using assms(1) by (cases ps) auto
  have "map m_type xs = map m_type qs" using arg_cong [OF p(3), of "map fst"] by (simp add: comp_def)
  then have "list_all (\<lambda>t. \<not> isCriticalType t \<and> t \<noteq> tlv_HopLimit \<and> t \<noteq> tlv_ApplicationParameters) (map m_type xs)"
    using assms(2) p(1) by (simp add: parameters_ok_def list.pred_map comp_def)
  then have o: "list_all (\<lambda>b. \<not> isCriticalType (m_type b) \<and> m_type b \<noteq> tlv_HopLimit \<and> m_type b \<noteq> tlv_ApplicationParameters) xs"
    by (simp add: list.pred_map comp_def)
  have "m_type x = tlv_ApplicationParameters" using p assms(2) by (simp add: parameters_ok_def view_def)
  then show ?thesis using decode_others [OF o] assms(3,4) Cons by (simp add: Interest_hasApplicationParameters_def)
qed (simp add: assms(4))

text \<open>One element of each other field.\<close>

lemma decode_field:
  assumes "element_ok x"
  shows "view x = (tlv_CanBePrefix, []) \<Longrightarrow> k < 2 \<Longrightarrow>
      Interest_decode_loop (x # es) k i = Interest_decode_loop es 2 (i\<lparr>i_canBePrefix := True\<rparr>)"
    "view x = (tlv_MustBeFresh, []) \<Longrightarrow> k < 3 \<Longrightarrow>
      Interest_decode_loop (x # es) k i = Interest_decode_loop es 3 (i\<lparr>i_mustBeFresh := True\<rparr>)"
    "view x = (tlv_Nonce, n) \<Longrightarrow> k < 5 \<Longrightarrow> length n = 4 \<Longrightarrow>
      Interest_decode_loop (x # es) k i = Interest_decode_loop es 5 (i\<lparr>i_nonce := Some n\<rparr>)"
    "view x = (tlv_InterestLifetime, nni_bytes l) \<Longrightarrow> k < 6 \<Longrightarrow>
      Interest_decode_loop (x # es) k i = Interest_decode_loop es 6 (i\<lparr>i_interestLifetime := sint l\<rparr>)"
    "view x = (tlv_HopLimit, [h]) \<Longrightarrow> k < 7 \<Longrightarrow>
      Interest_decode_loop (x # es) k i = Interest_decode_loop es 7 (i\<lparr>i_hopLimit := Some h\<rparr>)"
  using value_size_length [OF element_okD(1) [OF assms]] readNonNegativeInteger_nni [OF element_okD(1) [OF assms]]
  by (simp_all add: view_def)

declare Interest_decode_loop.simps(2) [simp del]

text \<open>
  One optional field: the loop consumes its element, if there is one, and goes on with the field set.
  The bound on \<open>k\<close> is what the order check of the next field needs.
\<close>

lemma segment_cases:
  assumes "map view xs = (if c then [(t, v)] else [])" "list_all element_ok xs"
  obtains "\<not> c" "xs = []" | x where "c" "xs = [x]" "view x = (t, v)" "element_ok x"
  using assms by (cases xs) (auto split: if_splits)

lemma segment_canBePrefix:
  assumes "map view xs = (if c then [(tlv_CanBePrefix, [])] else [])" "list_all element_ok xs" "k < 2" "\<not> i_canBePrefix i"
  shows "\<exists>k' < 3. Interest_decode_loop (xs @ ys) k i = Interest_decode_loop ys k' (i\<lparr>i_canBePrefix := c\<rparr>)"
  using assms(1,2)
proof (cases rule: segment_cases)
  case 1
  then show ?thesis using assms(3,4) by (intro exI [of _ k]) (cases i, simp)
qed (use assms(3) in \<open>auto simp: decode_field intro!: exI [of _ 2]\<close>)

lemma segment_mustBeFresh:
  assumes "map view xs = (if c then [(tlv_MustBeFresh, [])] else [])" "list_all element_ok xs" "k < 3" "\<not> i_mustBeFresh i"
  shows "\<exists>k' < 4. Interest_decode_loop (xs @ ys) k i = Interest_decode_loop ys k' (i\<lparr>i_mustBeFresh := c\<rparr>)"
  using assms(1,2)
proof (cases rule: segment_cases)
  case 1
  then show ?thesis using assms(3,4) by (intro exI [of _ k]) (cases i, simp)
qed (use assms(3) in \<open>auto simp: decode_field intro!: exI [of _ 3]\<close>)

lemma segment_hint:
  assumes "map view xs = (if hs \<noteq> [] then [(tlv_ForwardingHint, tlvs_bytes (hint_tlvs hs))] else [])" "list_all element_ok xs"
    and "k < 4" "i_forwardingHint i = []" "list_all name_ok hs" "length (tlvs_bytes (hint_tlvs hs)) < 2 ^ 64"
  shows "\<exists>k' < 5. \<exists>ns. map name_view ns = map name_view hs \<and>
    (\<forall>ys. Interest_decode_loop (xs @ ys) k i = Interest_decode_loop ys k' (i\<lparr>i_forwardingHint := ns\<rparr>))"
  using assms(1,2)
proof (cases rule: segment_cases)
  case 1
  then show ?thesis using assms(3,4) by (intro exI [of _ k] exI [of _ "[]"]) (cases i, simp)
next
  case (2 x)
  then show ?thesis using decode_hint [OF 2(4,3) assms(5,6,4,3)] by (intro exI [of _ 4]) auto
qed

lemma segment_lifetime:
  assumes "map view xs = (if l \<noteq> d then [(tlv_InterestLifetime, nni_bytes (word_of_int l))] else [])" "list_all element_ok xs"
    and "k < 6" "i_interestLifetime i = d" "0 \<le> l" "l < 2 ^ 63"
  shows "\<exists>k' < 7. Interest_decode_loop (xs @ ys) k i = Interest_decode_loop ys k' (i\<lparr>i_interestLifetime := l\<rparr>)"
  using assms(1,2)
proof (cases rule: segment_cases)
  case 1
  then show ?thesis using assms(3,4) by (intro exI [of _ k]) (cases i, auto)
qed (use assms(3) sint_word_of_int64 [OF assms(5,6)] in \<open>auto simp: decode_field intro!: exI [of _ 6]\<close>)

lemma segment_hopLimit:
  assumes "map view xs = (case h of None \<Rightarrow> [] | Some h \<Rightarrow> [(tlv_HopLimit, [h])])" "list_all element_ok xs"
    and "k < 7" "i_hopLimit i = None"
  shows "\<exists>k' < 8. Interest_decode_loop (xs @ ys) k i = Interest_decode_loop ys k' (i\<lparr>i_hopLimit := h\<rparr>)"
proof (cases h)
  case None
  then show ?thesis using assms by (intro exI [of _ k]) (cases i, auto)
next
  case (Some b)
  then obtain x where "xs = [x]" "view x = (tlv_HopLimit, [b])" "element_ok x" using assms(1,2) by (cases xs) auto
  then show ?thesis using assms(3) Some by (intro exI [of _ 7]) (simp add: decode_field)
qed

lemma map_view_parts:
  "map view es = a @ b \<longleftrightarrow> (\<exists>xs ys. es = xs @ ys \<and> map view xs = a \<and> map view ys = b)"
  "map view es = tv # b \<longleftrightarrow> (\<exists>x ys. es = x # ys \<and> view x = tv \<and> map view ys = b)"
  by (auto simp: map_eq_append_conv map_eq_Cons_conv)

text \<open>The loop on all the fields and parameters.\<close>

lemma decode_fields:
  assumes ok: "i_ok sha256 r i" and els: "map view els = i_fields r i @ map view (i_parameters i)" "list_all element_ok els"
    and i0: "i_parameters i0 = []" "i_forwardingHint i0 = []" "i_hopLimit i0 = None" "\<not> i_canBePrefix i0" "\<not> i_mustBeFresh i0"
      "i_interestLifetime i0 = DEFAULT_INTEREST_LIFETIME"
    and len: "length (tlvs_bytes (hint_tlvs (i_forwardingHint i))) < 2 ^ 64"
  obtains ns fs ps where "Interest_decode_loop els 1 i0 = Inr (i0\<lparr>i_canBePrefix := i_canBePrefix i, i_mustBeFresh := i_mustBeFresh i,
      i_forwardingHint := ns, i_nonce := Some (fst (Interest_getNonce r i)), i_interestLifetime := i_interestLifetime i,
      i_hopLimit := i_hopLimit i, i_parameters := ps\<rparr>)"
    "map name_view ns = map name_view (i_forwardingHint i)" "els = fs @ ps" "map view ps = map view (i_parameters i)"
    "list_all element_ok ps"
proof -
  have ok': "list_all name_ok (i_forwardingHint i)" "0 \<le> i_interestLifetime i" "i_interestLifetime i < 2 ^ 63"
    "parameters_ok (i_parameters i)" using ok by (simp_all add: i_ok_def)
  obtain x1 x2 x3 x4 x5 x6 ps where xs: "els = x1 @ x2 @ x3 @ x4 # x5 @ x6 @ ps"
    "map view x1 = (if i_canBePrefix i then [(tlv_CanBePrefix, [])] else [])"
    "map view x2 = (if i_mustBeFresh i then [(tlv_MustBeFresh, [])] else [])"
    "map view x3 = (if i_forwardingHint i \<noteq> [] then [(tlv_ForwardingHint, tlvs_bytes (hint_tlvs (i_forwardingHint i)))] else [])"
    "view x4 = (tlv_Nonce, fst (Interest_getNonce r i))"
    "map view x5 = (if i_interestLifetime i \<noteq> DEFAULT_INTEREST_LIFETIME
       then [(tlv_InterestLifetime, nni_bytes (word_of_int (i_interestLifetime i)))] else [])"
    "map view x6 = (case i_hopLimit i of None \<Rightarrow> [] | Some h \<Rightarrow> [(tlv_HopLimit, [h])])"
    "map view ps = map view (i_parameters i)"
    using els(1) unfolding i_fields_def append_assoc append_Cons append_Nil map_view_parts
    by (elim exE conjE, hypsubst) (rule that, (rule refl | assumption)+)
  have e: "list_all element_ok x1" "list_all element_ok x2" "list_all element_ok x3" "element_ok x4"
    "list_all element_ok x5" "list_all element_ok x6" "list_all element_ok ps" using els(2) xs(1) by auto
  let ?i1 = "i0\<lparr>i_canBePrefix := i_canBePrefix i\<rparr>" let ?i2 = "?i1\<lparr>i_mustBeFresh := i_mustBeFresh i\<rparr>"
  obtain k1 where 1: "k1 < 3" "Interest_decode_loop els 1 i0 = Interest_decode_loop (x2 @ x3 @ [x4] @ x5 @ x6 @ ps) k1 ?i1"
    using segment_canBePrefix [OF xs(2) e(1), of 1 i0] i0(4) xs(1) by auto
  obtain k2 where 2: "k2 < 4" "Interest_decode_loop (x2 @ x3 @ [x4] @ x5 @ x6 @ ps) k1 ?i1 =
      Interest_decode_loop (x3 @ [x4] @ x5 @ x6 @ ps) k2 ?i2"
    using segment_mustBeFresh [OF xs(3) e(2) 1(1), of ?i1] i0(5) by auto
  obtain k3 ns where 3: "k3 < 5" "map name_view ns = map name_view (i_forwardingHint i)"
    "Interest_decode_loop (x3 @ [x4] @ x5 @ x6 @ ps) k2 ?i2 = Interest_decode_loop ([x4] @ x5 @ x6 @ ps) k3 (?i2\<lparr>i_forwardingHint := ns\<rparr>)"
    using segment_hint [OF xs(4) e(3) 2(1), of ?i2] i0(2) ok'(1) len by auto
  let ?i4 = "?i2\<lparr>i_forwardingHint := ns, i_nonce := Some (fst (Interest_getNonce r i))\<rparr>"
  have 4: "Interest_decode_loop ([x4] @ x5 @ x6 @ ps) k3 (?i2\<lparr>i_forwardingHint := ns\<rparr>) = Interest_decode_loop (x5 @ x6 @ ps) 5 ?i4"
    using decode_field(3) [OF e(4) xs(5) 3(1) length_nonce [OF ok]] by simp
  let ?i5 = "?i4\<lparr>i_interestLifetime := i_interestLifetime i\<rparr>"
  obtain k5 where 5: "k5 < 7" "Interest_decode_loop (x5 @ x6 @ ps) 5 ?i4 = Interest_decode_loop (x6 @ ps) k5 ?i5"
    using segment_lifetime [OF xs(6) e(5), of 5 ?i4] i0(6) ok'(2,3) by auto
  obtain k6 where 6: "k6 < 8" "Interest_decode_loop (x6 @ ps) k5 ?i5 = Interest_decode_loop ps k6 (?i5\<lparr>i_hopLimit := i_hopLimit i\<rparr>)"
    using segment_hopLimit [OF xs(7) e(6) 5(1), of ?i5] i0(3) by auto
  have "Interest_decode_loop ps k6 (?i5\<lparr>i_hopLimit := i_hopLimit i\<rparr>) = Inr (?i5\<lparr>i_hopLimit := i_hopLimit i, i_parameters := ps\<rparr>)"
    using i0(1) decode_parameters [OF xs(8) ok'(4) 6(1), of "?i5\<lparr>i_hopLimit := i_hopLimit i\<rparr>"] by simp
  then show ?thesis
    using that [where ns = ns and ps = ps and fs = "x1 @ x2 @ x3 @ [x4] @ x5 @ x6"] 1(2) 2(2) 3(2,3) 4 5(2) 6(2) xs(1,8) e(7) by simp
qed

text \<open>The digest check depends only on the types and values of components and parameters.\<close>

lemma findDigest_view:
  "map view cs = map view ds \<Longrightarrow> list_all wf_block cs \<Longrightarrow> list_all wf_block ds \<Longrightarrow>
     findDigest_loop cs k pos = findDigest_loop ds k pos"
proof (induction cs arbitrary: ds k pos)
  case (Cons c cs)
  then obtain d ds' where d: "ds = d # ds'" "view c = view d" "map view cs = map view ds'" by (cases ds) auto
  then have "isParametersSha256Digest c = isParametersSha256Digest d"
    using Cons.prems by (simp add: isParametersSha256Digest_def getComponentType2_def view_def value_size_length)
  then show ?case using Cons d by simp
qed simp

lemma parameters_wire_tlvs:
  "list_all (\<lambda>b. wf_block b \<and> hasWire b \<and> shortest b) ps \<Longrightarrow> parameters_wire ps = Inr (tlvs_bytes (map view ps))"
proof (induction ps)
  case (Cons p ps)
  then have "wire_span p = Inr (tlv_bytes (m_type p) (value_bytes p))"
    by (simp add: wire_span_wf shortest_def)
  then show ?case using Cons by (simp add: view_def)
qed simp

lemma digest_valid_view:
  assumes "name_view (i_name a) = name_view (i_name b)" "list_all wf_block (components (i_name a))"
    "list_all wf_block (components (i_name b))" "map view (i_parameters a) = map view (i_parameters b)"
    "list_all (\<lambda>b. wf_block b \<and> hasWire b \<and> shortest b) (i_parameters a)"
    "list_all (\<lambda>b. wf_block b \<and> hasWire b \<and> shortest b) (i_parameters b)"
  shows "Interest_isParametersDigestValid sha256 a = Interest_isParametersDigestValid sha256 b"
proof -
  have f: "findParametersDigestComponent (i_name a) = findParametersDigestComponent (i_name b)"
    unfolding findParametersDigestComponent_def
    using findDigest_view [OF assms(1) [unfolded name_view_def] assms(2,3)] by simp
  have c: "computeParametersDigest sha256 a = computeParametersDigest sha256 b"
    using assms(4-6) by (simp add: computeParametersDigest_def parameters_wire_tlvs)
  have p: "Interest_hasApplicationParameters a = Interest_hasApplicationParameters b"
    using assms(4) by (auto simp: Interest_hasApplicationParameters_def)
  have s: "Name_size (i_name a) = Name_size (i_name b)" using arg_cong [OF assms(1), of length] by simp
  have "value_bytes (components (i_name a) ! k) = value_bytes (components (i_name b) ! k)" if "k < Name_size (i_name b)" for k
    using arg_cong [OF assms(1), of "\<lambda>v. snd (v ! k)"] that s by (simp add: name_view_def Name_size_def)
  then have "bindE (Name_get j (i_name a)) (\<lambda>c. f (value_bytes c)) = bindE (Name_get j (i_name b)) (\<lambda>c. f (value_bytes c))"
    for j and f :: "byte list \<Rightarrow> bool result"
    using s by (auto simp: Name_get_def Let_def)
  from this [of _ "\<lambda>v. bindE (computeParametersDigest sha256 b) (\<lambda>digest. Inr (v = digest))"]
  show ?thesis unfolding Interest_isParametersDigestValid_def f c p Let_def by simp
qed

lemma hint_length: "length (tlvs_bytes (hint_tlvs (i_forwardingHint i))) \<le> length (tlvs_bytes (i_tlvs r i))"
  by (cases "i_forwardingHint i = []") (simp_all add: i_tlvs_def i_fields_def hint_tlvs_def length_tlv_bytes)

lemma i_tlvs_ok:
  assumes "i_ok sha256 r i"
  shows "tlvs_ok (i_tlvs r i)"
proof -
  have "m_type p \<noteq> 0" if "p \<in> set (i_parameters i)" for p
    using that assms is_tlv_type [OF wf_wire_tlv [of p]] by (auto simp: i_ok_def parameters_ok_def list_all_iff)
  then show ?thesis using assms
    by (intro tlvs_okI) (auto simp: i_ok_def i_tlvs_def i_fields_def list_all_iff view_def split: option.splits)
qed

text \<open>
  Decoding a block that holds the elements of an Interest.  The result is given in full, with the
  wire the name and the parameters are part of.
\<close>

lemma Interest_wireDecode_tlvs:
  assumes ok: "i_ok sha256 r i" and b: "wf_block b" "m_elements b = []" "view b = (tlv_Interest, tlvs_bytes (i_tlvs r i))"
  obtains i' w x fs where "Interest_wireDecode sha256 auto b = Inr i'" "same_interest r i i'" "parseE b = Inr w" "i_wire i' = w"
    "m_elements w = x # fs @ i_parameters i'" "Name_ofBlock x = Inr (i_name i')" "element_ok x"
    "view x = (tlv_Name, tlvs_bytes (name_view (i_name i)))" "map view (m_elements w) = i_tlvs r i"
    "list_all element_ok (i_parameters i')"
proof -
  have ok': "name_ok (i_name i)" "\<not> Name_empty (i_name i)" "Interest_isParametersDigestValid sha256 i = Inr True"
    "parameters_ok (i_parameters i)" "length (tlvs_bytes (i_tlvs r i)) < 2 ^ 64" using ok by (simp_all add: i_ok_def)
  have vb: "value_bytes b = tlvs_bytes (i_tlvs r i)" and ty: "m_type b = tlv_Interest" using b(3) by (simp_all add: view_def)
  note tok = i_tlvs_ok [OF ok]
  obtain w where w: "parseE b = Inr w" "map view (m_elements w) = i_tlvs r i" "list_all element_ok (m_elements w)"
    using parseE_elements [OF b(1,2) vb tok] by metis
  obtain x els where x: "m_elements w = x # els" "view x = (tlv_Name, tlvs_bytes (name_view (i_name i)))" "element_ok x"
    "map view els = i_fields r i @ map view (i_parameters i)" "list_all element_ok els"
    using w(2,3) by (cases "m_elements w") (auto simp: i_tlvs_def)
  obtain n where n: "Name_ofBlock x = Inr n" "name_view n = name_view (i_name i)" "wf_block (name_wire n)"
    using Name_wireDecode_tlvs [OF element_okD(1,4) [OF x(3)] x(2) name_ok_tlvs [OF ok'(1)]] by metis
  let ?i0 = "\<lparr>i_name = n, i_forwardingHint = [], i_nonce = None, i_interestLifetime = DEFAULT_INTEREST_LIFETIME,
    i_hopLimit = None, i_canBePrefix = False, i_mustBeFresh = False, i_parameters = [], i_wire = w\<rparr>"
  obtain ns fs ps where d: "Interest_decode_loop els 1 ?i0 = Inr (?i0\<lparr>i_canBePrefix := i_canBePrefix i,
      i_mustBeFresh := i_mustBeFresh i, i_forwardingHint := ns, i_nonce := Some (fst (Interest_getNonce r i)),
      i_interestLifetime := i_interestLifetime i, i_hopLimit := i_hopLimit i, i_parameters := ps\<rparr>)"
    "map name_view ns = map name_view (i_forwardingHint i)" "els = fs @ ps" "map view ps = map view (i_parameters i)"
    "list_all element_ok ps"
    by (rule decode_fields [OF ok x(4,5), of ?i0]) (use hint_length [of i r] ok'(5) in auto)
  let ?i = "?i0\<lparr>i_canBePrefix := i_canBePrefix i, i_mustBeFresh := i_mustBeFresh i, i_forwardingHint := ns,
    i_nonce := Some (fst (Interest_getNonce r i)), i_interestLifetime := i_interestLifetime i,
    i_hopLimit := i_hopLimit i, i_parameters := ps\<rparr>"
  have v: "Interest_isParametersDigestValid sha256 ?i = Inr True"
    using digest_valid_view [of ?i i sha256] n(2) wf_elements [OF n(3)] name_ok_components [OF ok'(1)] d(4,5) ok'(3,4)
    by (simp add: parameters_ok_def element_ok_def list_all_iff)
  have ne: "\<not> Name_empty n" using ok'(2) arg_cong [OF n(2), of length] by (auto simp: Name_empty_def Name_size_def)
  have "Interest_wireDecode sha256 auto b = Inr ?i"
    using ty w(1) x(1,2) n(1) ne d(1) v digest_valid_checks(1) [OF v] by (simp add: Interest_wireDecode_def view_def)
  moreover have "same_interest r i ?i" using n(2) d(2,4) by (simp add: same_interest_def)
  ultimately show ?thesis using that w(1,2) x(1-3) n(1) d(3,5) by simp
qed

interpretation itr: packet_codec "Interest_wireEncode_enc r" tlv_Interest "i_tlvs r" "i_ok sha256 r"
  "Interest_wireDecode sha256 auto" "same_interest r"
proof (unfold_locales, goal_cases)
  case (2 x)
  then show ?case by (rule Interest_prepends)
next
  case (4 x b)
  then show ?case by (elim Interest_wireDecode_tlvs [of sha256 r x b auto]) auto
qed (simp_all add: i_ok_def)

section \<open>Signed ranges\<close>

text \<open>The bytes of consecutive elements of a parsed block.\<close>

lemma elements_at_sel:
  "k < length tvs \<Longrightarrow> m_begin (elements_at buf b tvs ! k) = b + length (tlvs_bytes (take k tvs))"
  "k < length tvs \<Longrightarrow> m_buffer (elements_at buf b tvs ! k) = Some buf"
proof (induction tvs arbitrary: b k)
  case (Cons tv tvs)
  case 1
  then show ?case using Cons.IH(1) [of "k - 1"] by (cases tv; cases k) (simp_all add: Let_def Block_raw_def)
  case 2
  then show ?case using Cons.IH(2) [of "k - 1"] by (cases tv; cases k) (simp_all add: Let_def Block_raw_def)
qed simp_all

lemma parseE_at:
  assumes "wf_block b" "m_elements b = []" "value_bytes b = tlvs_bytes tvs" "tlvs_ok tvs" "tvs \<noteq> []" "parseE b = Inr w"
  obtains buf where "m_elements w = elements_at buf (m_valueBegin b) tvs"
    "\<And>i j. i \<le> j \<Longrightarrow> j \<le> length tvs \<Longrightarrow>
      bslice (m_valueBegin b + length (tlvs_bytes (take i tvs))) (m_valueBegin b + length (tlvs_bytes (take j tvs))) buf =
        tlvs_bytes (drop i (take j tvs))"
proof -
  have "tlvs_bytes tvs \<noteq> []" using assms(5) by (cases tvs) (auto simp: tlvs_bytes_def split_beta)
  then have vs: "value_size b \<noteq> 0" using assms(1,3) by (simp add: value_size_length)
  then obtain buf where buf: "m_buffer b = Some buf" by (auto simp: value_size_def hasValue_def split: if_splits)
  have bd: "m_valueBegin b \<le> m_valueEnd b" "m_valueEnd b \<le> length buf" using assms(1) buf by (cases b; auto)+
  have s: "bslice (m_valueBegin b) (m_valueEnd b) buf = tlvs_bytes tvs" using assms(3) buf by (simp add: value_bytes_def)
  from parse_loop_tlvs [OF s assms(4) bd, of "[]"]
  have w: "m_elements w = elements_at buf (m_valueBegin b) tvs"
    using assms(2,6) vs buf by (simp add: parseE_def parse_def set_elements_def) auto
  have "bslice (m_valueBegin b + length (tlvs_bytes (take i tvs))) (m_valueBegin b + length (tlvs_bytes (take j tvs))) buf =
      tlvs_bytes (drop i (take j tvs))" if "i \<le> j" "j \<le> length tvs" for i j
  proof -
    have j: "take j tvs = take i tvs @ drop i (take j tvs)" using that append_take_drop_id [of i "take j tvs"] by simp
    then have "bslice (m_valueBegin b) (m_valueEnd b) buf =
        tlvs_bytes (take i tvs) @ tlvs_bytes (drop i (take j tvs)) @ tlvs_bytes (drop j tvs)"
      unfolding s tlvs_bytes_simps(3) [symmetric] append_assoc [symmetric] j [symmetric] append_take_drop_id by simp
    note 1 = bslice_prefix_len(1,2) [OF this bd]
    have "length (tlvs_bytes (take j tvs)) = length (tlvs_bytes (take i tvs)) + length (tlvs_bytes (drop i (take j tvs)))"
      unfolding length_append [symmetric] tlvs_bytes_simps(3) [symmetric] j [symmetric] by simp
    then show ?thesis using bslice_prefix_len(3) [OF 1(2,1) bd(2)] by (simp add: add.assoc)
  qed
  then show ?thesis using that w by blast
qed

end
