(* ===== verification/InterestProps.thy ===== *)
theory InterestProps
  imports InterestWire
begin

text \<open>
  Properties of the Interest packet: the round trip, the signed ranges, matching, nonces, and what
  \<open>isSigned\<close> does on a malformed signature.
\<close>

section \<open>Signed ranges\<close>

lemma findFirst_end: "findFirstParameter t i = length (i_parameters i) \<longleftrightarrow> t \<notin> m_type ` set (i_parameters i)"
proof -
  have "length (takeWhile (\<lambda>b. m_type b \<noteq> t) ps) = length ps \<longleftrightarrow> t \<notin> m_type ` set ps" for ps
    by (induction ps) auto
  then show ?thesis by (simp add: findFirstParameter_def)
qed

text \<open>The range from the first component to the last one, of a decoded name.\<close>

lemma name_range:
  assumes "element_ok x" "view x = (tlv_Name, tlvs_bytes tvs)" "tlvs_ok tvs" "tvs \<noteq> []" "Name_ofBlock x = Inr n"
  shows "Name_get 0 n = Inr (hd (components n))" "Name_get (-1) n = Inr (last (components n))"
    "m_type (last (components n)) = fst (last tvs)"
    "\<exists>buf. m_buffer (hd (components n)) = Some buf \<and> Block_wire (hd (components n)) = Inr (m_begin (hd (components n))) \<and>
       Block_wire (last (components n)) = Inr (m_begin (last (components n))) \<and>
       bslice (m_begin (hd (components n))) (m_begin (last (components n))) buf = tlvs_bytes (butlast tvs)"
proof -
  have v: "value_bytes x = tlvs_bytes tvs" using assms(2) by (simp add: view_def)
  obtain w where w: "parseE x = Inr w" "n = \<lparr>name_wire = w\<rparr>" using assms(5) by (auto simp: Name_ofBlock_def bindE_eq_Inr)
  have els: "map view (m_elements w) = tvs" "list_all element_ok (m_elements w)"
    using parseE_elements [OF element_okD(1,4) [OF assms(1)] v assms(3)] w(1) by auto
  let ?k = "length tvs - 1"
  have len: "length (m_elements w) = length tvs" using els(1) by auto
  then have ne: "m_elements w \<noteq> []" using assms(4) by auto
  have hl: "hd (m_elements w) = m_elements w ! 0" "last (m_elements w) = m_elements w ! ?k"
    using ne len by (simp_all add: hd_conv_nth last_conv_nth)
  show "Name_get 0 n = Inr (hd (components n))" using ne w(2) by (simp add: Name_get_def Name_size_def hl(1))
  show "Name_get (-1) n = Inr (last (components n))" using ne w(2) by (intro Name_get_last) (simp add: Name_empty_def)
  show "m_type (last (components n)) = fst (last tvs)" using ne w(2) els(1) by (auto simp: last_map)
  have wire: "Block_wire c = Inr (m_begin c)" if "c \<in> set (m_elements w)" for c
    using that els(2) by (auto simp: Block_wire_def element_ok_def list_all_iff)
  obtain buf where buf: "m_elements w = elements_at buf (m_valueBegin x) tvs"
    "\<And>i j. i \<le> j \<Longrightarrow> j \<le> length tvs \<Longrightarrow>
      bslice (m_valueBegin x + length (tlvs_bytes (take i tvs))) (m_valueBegin x + length (tlvs_bytes (take j tvs))) buf =
        tlvs_bytes (drop i (take j tvs))"
    by (rule parseE_at [OF element_okD(1,4) [OF assms(1)] v assms(3,4) w(1)]) (rule that)
  have "m_begin (hd (m_elements w)) = m_valueBegin x" "m_buffer (hd (m_elements w)) = Some buf"
    "m_begin (last (m_elements w)) = m_valueBegin x + length (tlvs_bytes (take ?k tvs))"
    using assms(4) elements_at_sel [of _ tvs buf "m_valueBegin x"] by (simp_all add: hl, simp_all add: buf(1))
  then show "\<exists>buf. m_buffer (hd (components n)) = Some buf \<and> Block_wire (hd (components n)) = Inr (m_begin (hd (components n))) \<and>
       Block_wire (last (components n)) = Inr (m_begin (last (components n))) \<and>
       bslice (m_begin (hd (components n))) (m_begin (last (components n))) buf = tlvs_bytes (butlast tvs)"
    using buf(2) [of 0 ?k] wire ne w(2) by (intro exI [of _ buf]) (simp add: butlast_conv_take)
qed

text \<open>The range of the last elements of a parsed block, up to the first of a type.\<close>

lemma parameters_range:
  assumes "wf_block b" "m_elements b = []" "value_bytes b = tlvs_bytes tvs" "tlvs_ok tvs" "parseE b = Inr w"
    and "m_elements w = fs @ ps" "map view (m_elements w) = tvs" "ps \<noteq> []" "m_type (hd ps) \<noteq> t"
  shows "\<exists>buf. m_buffer (hd ps) = Some buf \<and>
    bslice (m_begin (hd ps)) (m_end (ps ! (length (takeWhile (\<lambda>b. m_type b \<noteq> t) ps) - 1))) buf =
      tlvs_bytes (takeWhile (\<lambda>tv. fst tv \<noteq> t) (map view ps))"
proof -
  let ?q = "length fs" and ?m = "length (takeWhile (\<lambda>b. m_type b \<noteq> t) ps)"
  have tvs: "tvs = map view fs @ map view ps" using assms(6,7) by auto
  have m: "0 < ?m" "?m \<le> length ps" using assms(8,9) length_takeWhile_le by (cases ps; auto)+
  have ne: "tvs \<noteq> []" using tvs assms(8) by simp
  obtain buf where buf: "m_elements w = elements_at buf (m_valueBegin b) tvs"
    "\<And>i j. i \<le> j \<Longrightarrow> j \<le> length tvs \<Longrightarrow>
      bslice (m_valueBegin b + length (tlvs_bytes (take i tvs))) (m_valueBegin b + length (tlvs_bytes (take j tvs))) buf =
        tlvs_bytes (drop i (take j tvs))"
    by (rule parseE_at [OF assms(1-4) ne assms(5)]) (rule that)
  have l: "?q + ?m \<le> length tvs" "?q < length tvs" using tvs m assms(8) by auto
  have "ps ! (j - 1) = m_elements w ! (?q + j - 1)" if "0 < j" for j
    using that assms(6) by (cases j) (simp_all add: nth_append)
  from this [OF m(1)] have "hd ps = m_elements w ! ?q" "ps ! (?m - 1) = m_elements w ! (?q + ?m - 1)"
    using assms(6,8) by (simp_all add: hd_conv_nth nth_append)
  note at = this [unfolded buf(1)]
  have "m_buffer (hd ps) = Some buf" "m_begin (hd ps) = m_valueBegin b + length (tlvs_bytes (take ?q tvs))"
    "m_end (ps ! (?m - 1)) = m_valueBegin b + length (tlvs_bytes (take (?q + ?m) tvs))"
    unfolding at
    using elements_at_sel [OF l(2), of buf "m_valueBegin b"] elements_at_end [of "?q + ?m" tvs buf "m_valueBegin b"] l(1) m(1)
    by simp_all
  moreover have "drop ?q (take (?q + ?m) tvs) = takeWhile (\<lambda>tv. fst tv \<noteq> t) (map view ps)"
  proof -
    have "drop ?q (take (?q + ?m) tvs) = map view (take ?m ps)" by (simp add: tvs take_map)
    also have "\<dots> = takeWhile (\<lambda>tv. fst tv \<noteq> t) (map view ps)" by (simp add: takeWhile_map comp_def takeWhile_eq_take [symmetric])
    finally show ?thesis .
  qed
  ultimately show ?thesis using buf(2) [of ?q "?q + ?m"] l(1) by (intro exI [of _ buf]) simp
qed

section \<open>Matching\<close>

lemma digest_component_view: "view (digest_component sha256 d) = (tlv_ImplicitSha256DigestComponent, sha256 (wire_bytes (d_wire d)))"
  by (simp add: digest_component_def)

lemma isImplicitSha256Digest_view:
  "wf_block c \<Longrightarrow> isImplicitSha256Digest c \<longleftrightarrow> fst (view c) = tlv_ImplicitSha256DigestComponent \<and> length (snd (view c)) = 32"
  by (auto simp: isImplicitSha256Digest_def getComponentType1_def view_def value_size_length)

text \<open>The part of \<open>matchesData\<close> that compares names.\<close>

lemma name_match_full:
  assumes "fullName_fresh sha256 d" "hasWire (d_wire d)" "\<And>x. length (sha256 x) = 32"
    and "list_all wf_block (components n)" "list_all wf_block (components (d_name d))"
    and "Name_size n = Name_size (d_name d) + 1"
  shows "\<exists>d'. bindE (Name_get (-1) n) (\<lambda>c.
      if isImplicitSha256Digest c
      then bindE (Data_getFullName sha256 d) (\<lambda>(fullName, d). Inr (Name_equals n fullName, d))
      else Inr (False, d)) =
    Inr (name_view n = name_view (d_name d) @ [view (digest_component sha256 d)], d') \<and> d_metaInfo d' = d_metaInfo d"
proof -
  have ne: "\<not> Name_empty n" "name_view n \<noteq> []" using assms(6) by (auto simp: Name_empty_def Name_size_def name_view_def)
  have last: "view (last (components n)) = last (name_view n)" "wf_block (last (components n))"
    using ne assms(4) by (simp_all add: name_view_def Name_empty_def last_map list_all_iff)
  obtain d' where d': "Data_getFullName sha256 d = Inr (Name_append (digest_component sha256 d) (d_name d), d')"
    "d_metaInfo d' = d_metaInfo d"
    using fullName_value [OF assms(1,3,2)] by metis
  have wf: "wf_block (digest_component sha256 d)"
    unfolding digest_component_def by (simp add: Block_ofValue_def)
  have eq: "Name_equals n (Name_append (digest_component sha256 d) (d_name d)) \<longleftrightarrow>
      name_view n = name_view (d_name d) @ [view (digest_component sha256 d)]"
    using Name_equals_view [OF assms(4), of "Name_append (digest_component sha256 d) (d_name d)"] assms(5) wf by simp
  show ?thesis
  proof (cases "isImplicitSha256Digest (last (components n))")
    case True
    then show ?thesis using Name_get_last [OF ne(1)] d' eq by simp
  next
    case False
    then have "last (name_view n) \<noteq> view (digest_component sha256 d)"
      using isImplicitSha256Digest_view [OF last(2)] last(1) assms(3) by (auto simp: digest_component_view)
    then show ?thesis using False Name_get_last [OF ne(1)] by auto
  qed
qed

lemma matchesData_value:
  assumes "fullName_fresh sha256 d" "hasWire (d_wire d)" "\<And>x. length (sha256 x) = 32"
    and "list_all wf_block (components (i_name i))" "list_all wf_block (components (d_name d))"
  shows "\<exists>d'. Interest_matchesData sha256 i d = Inr
    ((name_view (i_name i) = name_view (d_name d) @ [(tlv_ImplicitSha256DigestComponent, sha256 (wire_bytes (d_wire d)))] \<or>
      (if i_canBePrefix i then prefix (name_view (i_name i)) (name_view (d_name d))
       else name_view (i_name i) = name_view (d_name d))) \<and>
     (i_mustBeFresh i \<longrightarrow> 0 < mi_freshnessPeriod (d_metaInfo d)), d')"
proof (cases "Name_size (i_name i) = Name_size (d_name d) + 1")
  case True
  then have "\<not> prefix (name_view (i_name i)) (name_view (d_name d))" "name_view (i_name i) \<noteq> name_view (d_name d)"
    using prefix_length_le [of "name_view (i_name i)" "name_view (d_name d)"]
      arg_cong [of "name_view (i_name i)" "name_view (d_name d)" length] by auto
  with True name_match_full [OF assms(1-5) True] show ?thesis
    by (auto simp: Interest_matchesData_def Let_def digest_component_view)
next
  case False
  then have "name_view (i_name i) \<noteq> name_view (d_name d) @ [(tlv_ImplicitSha256DigestComponent, sha256 (wire_bytes (d_wire d)))]"
    by (auto dest: arg_cong [where f = length])
  with False isPrefixOf_prefix [OF assms(4,5)] Name_equals_view [OF assms(4,5)] show ?thesis
    by (auto simp: Interest_matchesData_def Let_def)
qed

section \<open>Nonces\<close>

lemma refreshNonce_loop_returns:
  "generateNonce (rs !! k) \<noteq> old \<Longrightarrow>
     \<exists>n rs'. refreshNonce_loop old nonce rs = Some (n, rs') \<and> n \<noteq> old"
proof (induction k arbitrary: rs nonce)
  case 0
  then show ?case by (subst refreshNonce_loop.simps) (auto simp: refreshNonce_loop.simps [of old "generateNonce _"])
next
  case (Suc k)
  then show ?case by (subst refreshNonce_loop.simps) auto
qed

lemma refreshNonce_loop_differs:
  assumes "refreshNonce_loop old old rs = Some r"
  shows "\<exists>k. generateNonce (rs !! k) \<noteq> old"
proof -
  have "nonce = old \<longrightarrow> (\<exists>k. generateNonce (rs !! k) \<noteq> old)" if "refreshNonce_loop old nonce rs = Some r" for nonce
  proof (rule refreshNonce_loop.raw_induct [where P = "\<lambda>old nonce rs y. nonce = old \<longrightarrow> (\<exists>k. generateNonce (rs !! k) \<noteq> old)", OF _ that])
    fix f :: "nonce \<Rightarrow> nonce \<Rightarrow> uint32 stream \<Rightarrow> (nonce \<times> uint32 stream) option" and old nonce rs y
    assume IH: "\<And>old nonce rs y. f old nonce rs = Some y \<Longrightarrow> nonce = old \<longrightarrow> (\<exists>k. generateNonce (rs !! k) \<noteq> old)"
      and r: "(if nonce = old then f old (generateNonce (shd rs)) (stl rs) else Some (nonce, rs)) = Some y"
    show "nonce = old \<longrightarrow> (\<exists>k. generateNonce (rs !! k) \<noteq> old)"
    proof (intro impI, cases "generateNonce (shd rs) = old")
      assume "nonce = old" "generateNonce (shd rs) = old"
      then obtain k where "generateNonce (stl rs !! k) \<noteq> old" using IH r by fastforce
      then show "\<exists>k. generateNonce (rs !! k) \<noteq> old" by (intro exI [of _ "Suc k"]) simp
    qed (rule exI [of _ 0], simp)
  qed
  with assms show ?thesis by simp
qed

section \<open>A malformed signature\<close>

text \<open>An Interest with an empty InterestSignatureInfo and the digest that fits.\<close>

definition malformed_signed :: "(byte list \<Rightarrow> byte list) \<Rightarrow> interest" where
  "malformed_signed sha256 =
     (let ps = [tlv_block tlv_ApplicationParameters [], tlv_block tlv_InterestSignatureInfo [],
                tlv_block tlv_InterestSignatureValue []]
      in \<lparr>i_name = Name_append (tlv_block tlv_ParametersSha256DigestComponent (sha256 (tlvs_bytes (map view ps))))
            (Name_append (tlv_block tlv_GenericNameComponent [65]) Name_default),
          i_forwardingHint = [], i_nonce = Some [1, 2, 3, 4], i_interestLifetime = DEFAULT_INTEREST_LIFETIME,
          i_hopLimit = None, i_canBePrefix = False, i_mustBeFresh = False, i_parameters = ps, i_wire = Block_default\<rparr>)"

lemma malformed_ok:
  assumes "\<And>x. length (sha256 x) = 32"
  shows "i_ok sha256 0 (malformed_signed sha256)"
proof -
  let ?i = "malformed_signed sha256"
  let ?ps = "[tlv_block tlv_ApplicationParameters [], tlv_block tlv_InterestSignatureInfo [], tlv_block tlv_InterestSignatureValue []]"
  let ?h = "sha256 (tlvs_bytes (map view ?ps))"
  let ?c = "tlv_block tlv_GenericNameComponent [65]" and ?d = "tlv_block tlv_ParametersSha256DigestComponent ?h"
  have len: "length ?h = 32" by (rule assms)
  have c: "component_ok ?c" by (rule component_okI, rule wf_tlv_block) (simp_all add: valid_tv_def)
  have "component_ok (tlv_block tlv_ParametersSha256DigestComponent h)" if "length h = 32" for h
    by (rule component_okI, rule wf_tlv_block) (use that in \<open>simp_all add: valid_tv_def\<close>)
  from this [OF len] have d: "component_ok ?d" .
  have p: "parameters_ok ?ps" by (simp add: parameters_ok_def wf_tlv_block shortest_def isCriticalType_def)
  have n: "i_name ?i = Name_append ?d (Name_append ?c Name_default)" "i_parameters ?i = ?ps"
    by (simp_all add: malformed_signed_def Let_def)
  have cs: "components (i_name ?i) = [?c, ?d]" by (simp add: n Name_default_def Block_ofType_def)
  have "isParametersSha256Digest ?d" "\<not> isParametersSha256Digest ?c"
    using len by (simp_all add: isParametersSha256Digest_def getComponentType2_def value_size_bytes)
  then have f: "findParametersDigestComponent (i_name ?i) = 1" by (simp add: findParametersDigestComponent_def cs)
  have "parameters_wire ?ps = Inr (tlvs_bytes (map view ?ps))"
    by (rule parameters_wire_tlvs) (use p in \<open>simp only: parameters_ok_def\<close>)
  then have "computeParametersDigest sha256 ?i = Inr ?h" by (simp only: computeParametersDigest_def n(2) bindE_Inr)
  then have v: "Interest_isParametersDigestValid sha256 ?i = Inr True"
    by (simp add: Interest_isParametersDigestValid_def f Interest_hasApplicationParameters_def n(2) Name_get_def Name_size_def cs Let_def)
  have w: "wf_block (name_wire (i_name ?i))"
    using c d by (simp add: n Name_append_def wf_push_back Name_default_def component_ok_def)
  have nv: "name_view (i_name ?i) = [view ?c, view ?d]" by (simp add: name_view_def cs)
  have bytes: "length (tlvs_bytes (i_tlvs 0 ?i)) < 2 ^ 64"
    using len by (simp add: i_tlvs_def i_fields_def nv n(2) length_tlv_bytes sizeOfVarNumber_def malformed_signed_def Interest_getNonce_def)
  have nb: "length (tlvs_bytes (name_view (i_name ?i))) < 2 ^ 64"
    using len by (simp add: nv length_tlv_bytes sizeOfVarNumber_def)
  have fs: "i_forwardingHint ?i = []" "i_nonce ?i = Some [1, 2, 3, 4]" "i_interestLifetime ?i = 4000"
    by (simp_all add: malformed_signed_def DEFAULT_INTEREST_LIFETIME_def)
  show ?thesis
    unfolding i_ok_def name_ok_def using c d p v w bytes nb
    by (simp only: fs n(2) option.case list.pred_inject) (simp add: cs Name_size_def Name_empty_def)
qed

section \<open>Properties\<close>

text \<open>
  C13: An Interest with a valid parameters digest survives encoding and decoding: name, selectors, forwarding hint,
  lifetime, hop limit and parameters of what is decoded are those of what was encoded, and the nonce
  is the one it had or the one that was drawn for it.
\<close>

theorem interest_round_trip:
  assumes "i_ok sha256 r i"
  shows "\<exists>w b i'. makeBlock (Interest_wireEncode_enc r i) = Inr w \<and> Block_fromSpan (wire_bytes w @ rest) = Inr b \<and>
    Interest_wireDecode sha256 auto b = Inr i' \<and> same_interest r i i'"
  using itr.encode_block [OF assms] itr.round_trip_bytes [OF assms, of rest auto] by auto

theorem interest_round_trip_witness:
  "\<exists>w b i'. makeBlock (Interest_wireEncode_enc 7 (malformed_signed (\<lambda>_. replicate 32 0)
      \<lparr>i_nonce := None, i_mustBeFresh := True, i_hopLimit := Some 9, i_interestLifetime := 1000\<rparr>)) = Inr w \<and>
    Block_fromSpan (wire_bytes w @ [0]) = Inr b \<and> Interest_wireDecode (\<lambda>_. replicate 32 0) True b = Inr i' \<and>
    same_interest 7 (malformed_signed (\<lambda>_. replicate 32 0)
      \<lparr>i_nonce := None, i_mustBeFresh := True, i_hopLimit := Some 9, i_interestLifetime := 1000\<rparr>) i'"
  by (rule interest_round_trip) code_simp

text \<open>
  C10: The signed portion of a signed Interest is what it should be: for an Interest whose name ends
  with the parameters digest and that has an InterestSignatureInfo, \<open>extractSignedRanges\<close> encodes
  the Interest and returns the bytes of all name components but the digest, and the bytes of the parameters
  from ApplicationParameters up to, not including, the first InterestSignatureValue.
\<close>

theorem interest_signed_ranges:
  assumes "i_ok sha256 r i" "\<not> hasWire (i_wire i)"
    and "fst (last (name_view (i_name i))) = tlv_ParametersSha256DigestComponent"
    and "tlv_InterestSignatureInfo \<in> m_type ` set (i_parameters i)"
  shows "\<exists>i'. Interest_extractSignedRanges sha256 auto r i =
      Inr ([tlvs_bytes (butlast (name_view (i_name i))),
            tlvs_bytes (takeWhile (\<lambda>tv. fst tv \<noteq> tlv_InterestSignatureValue) (map view (i_parameters i)))], i') \<and>
    same_interest r i i'"
proof -
  let ?b = "tlv_block tlv_Interest (tlvs_bytes (i_tlvs r i))"
  have ok: "name_ok (i_name i)" "\<not> Name_empty (i_name i)" "parameters_ok (i_parameters i)"
    "length (tlvs_bytes (i_tlvs r i)) < 2 ^ 64" using assms(1) by (simp_all add: i_ok_def)
  have wf: "wf_block ?b" using ok(4) by (intro wf_tlv_block) simp_all
  obtain i' w x fs where d: "Interest_wireDecode sha256 auto ?b = Inr i'" "same_interest r i i'" "parseE ?b = Inr w" "i_wire i' = w"
    "m_elements w = x # fs @ i_parameters i'" "Name_ofBlock x = Inr (i_name i')" "element_ok x"
    "view x = (tlv_Name, tlvs_bytes (name_view (i_name i)))" "map view (m_elements w) = i_tlvs r i"
    "list_all element_ok (i_parameters i')"
    by (rule Interest_wireDecode_tlvs [OF assms(1) wf, of auto]) auto
  have enc: "Interest_wireEncode sha256 auto r i = Inr i'"
    using assms(2) itr.encode_block [OF assms(1)] d(1) by (simp add: Interest_wireEncode_def)
  have ne: "name_view (i_name i) \<noteq> []" using ok(2) by (simp add: name_view_def Name_empty_def)
  note nr = name_range [OF d(7,8) name_ok_tlvs [OF ok(1)] ne d(6)]
  have ps: "map view (i_parameters i') = map view (i_parameters i)" using d(2) by (simp add: same_interest_def)
  have types: "map m_type (i_parameters i') = map m_type (i_parameters i)"
    using arg_cong [OF ps, of "map fst"] by (simp add: comp_def)
  have pne: "i_parameters i' \<noteq> []" using assms(4) types by auto
  then have hd: "m_type (hd (i_parameters i')) = tlv_ApplicationParameters"
    using ok(3) types by (cases "i_parameters i"; cases "i_parameters i'") (auto simp: parameters_ok_def)
  have tok: "tlvs_ok (i_tlvs r i)" by (rule i_tlvs_ok [OF assms(1)])
  have pr: "\<exists>buf. m_buffer (hd (i_parameters i')) = Some buf \<and>
      bslice (m_begin (hd (i_parameters i')))
        (m_end (i_parameters i' ! (findFirstParameter tlv_InterestSignatureValue i' - 1))) buf =
      tlvs_bytes (takeWhile (\<lambda>tv. fst tv \<noteq> tlv_InterestSignatureValue) (map view (i_parameters i)))"
    using parameters_range [OF wf _ _ tok d(3), of "x # fs" "i_parameters i'" tlv_InterestSignatureValue] d(5,9) pne hd ps
    by (simp add: findFirstParameter_def)
  have si: "findFirstParameter tlv_InterestSignatureInfo i' \<noteq> length (i_parameters i')"
    using assms(4) arg_cong [OF types, of set] by (simp add: findFirst_end)
  have "\<not> Name_empty (i_name i')" using d(2) ne by (auto simp: same_interest_def name_view_def Name_empty_def)
  then show ?thesis using enc nr assms(3) pr si pne hd d(2)
    by (auto simp: Interest_extractSignedRanges_def Let_def)
qed

theorem interest_signed_ranges_witness:
  "\<exists>i'. Interest_extractSignedRanges (\<lambda>_. replicate 32 0) True 0 (malformed_signed (\<lambda>_. replicate 32 0)) =
      Inr ([tlv_bytes 8 [65], tlv_bytes tlv_ApplicationParameters [] @ tlv_bytes tlv_InterestSignatureInfo []], i')"
proof -
  let ?i = "malformed_signed (\<lambda>_. replicate 32 0)"
  have "\<not> hasWire (i_wire ?i)" "fst (last (name_view (i_name ?i))) = tlv_ParametersSha256DigestComponent"
    "tlv_InterestSignatureInfo \<in> m_type ` set (i_parameters ?i)"
    by (simp_all add: malformed_signed_def Let_def hasWire_def Block_default_def)
  from interest_signed_ranges [OF malformed_ok this, of True] show ?thesis
    by (auto simp: malformed_signed_def Let_def)
qed

text \<open>
  C12: \<open>matchesData\<close> decides what the packet format says a Data packet satisfies: the name of the Interest is the full
  name of the Data, or a prefix of its name if CanBePrefix is set and its name otherwise; and if
  MustBeFresh is set the Data has a positive FreshnessPeriod.  This holds although the code only looks
  at the full name when the lengths fit and the last component is a digest.
\<close>

theorem interest_matchesData:
  assumes "data_reachable sha256 d" "hasWire (d_wire d)" "\<And>x. length (sha256 x) = 32"
    and "list_all wf_block (components (i_name i))" "list_all wf_block (components (d_name d))"
  shows "\<exists>d'. Interest_matchesData sha256 i d = Inr
    ((name_view (i_name i) = name_view (d_name d) @ [(tlv_ImplicitSha256DigestComponent, sha256 (wire_bytes (d_wire d)))] \<or>
      (if i_canBePrefix i then prefix (name_view (i_name i)) (name_view (d_name d))
       else name_view (i_name i) = name_view (d_name d))) \<and>
     (i_mustBeFresh i \<longrightarrow> 0 < mi_freshnessPeriod (d_metaInfo d)), d')"
  by (rule matchesData_value [OF data_reachable_fresh [OF assms(1)] assms(2-5)])

theorem interest_matchesData_witness:
  "\<exists>d'. Interest_matchesData (\<lambda>_. replicate 32 0)
      (projr (Interest_make (\<lambda>_. replicate 32 0) (Some True) (Name_append (tlv_block 8 [65]) Name_default) 4000))
      (projr (Data_wireDecode (tlv_block 6 [7, 6, 8, 1, 65, 8, 1, 66, 22, 3, 27, 1, 0, 23, 0]))) = Inr (True, d')"
proof -
  let ?sha = "\<lambda>_ :: byte list. replicate 32 (0 :: byte)" and ?b = "tlv_block 6 [7, 6, 8, 1, 65, 8, 1, 66, 22, 3, 27, 1, 0, 23, 0]"
  let ?i = "projr (Interest_make ?sha (Some True) (Name_append (tlv_block 8 [65]) Name_default) 4000)"
  let ?d = "projr (Data_wireDecode ?b)"
  have "Data_wireDecode ?b = Inr ?d" by code_simp
  then have r: "data_reachable ?sha ?d" by (rule data_reachable.intros(2))
  have h: "hasWire (d_wire ?d)" "list_all wf_block (components (i_name ?i))" "list_all wf_block (components (d_name ?d))"
    "i_canBePrefix ?i" "prefix (name_view (i_name ?i)) (name_view (d_name ?d))" "\<not> i_mustBeFresh ?i"
    by code_simp+
  show ?thesis using interest_matchesData [OF r h(1) _ h(2,3)] h(4-6) by auto
qed

text \<open>
  C14: \<open>refreshNonce\<close> returns exactly when the random source eventually yields another nonce, and then the
  nonce has changed, the cached wire is dropped and nothing else is touched.
\<close>

theorem interest_refreshNonce:
  assumes "i_nonce i = Some old"
  shows "case Interest_refreshNonce rs i of
      None \<Rightarrow> \<forall>k. generateNonce (rs !! k) = old
    | Some (i', rs') \<Rightarrow> (\<exists>k. generateNonce (rs !! k) \<noteq> old) \<and>
        (\<exists>n. n \<noteq> old \<and> i' = i\<lparr>i_nonce := Some n, i_wire := Block_default\<rparr>)"
proof (cases "\<exists>k. generateNonce (rs !! k) \<noteq> old")
  case True
  then obtain n rs' where "refreshNonce_loop old old rs = Some (n, rs')" "n \<noteq> old"
    using refreshNonce_loop_returns by blast
  then show ?thesis using assms True by (auto simp: Interest_refreshNonce_def Interest_resetWire_def Block_reset_def)
next
  case False
  then have "refreshNonce_loop old old rs = None" using refreshNonce_loop_differs by (cases "refreshNonce_loop old old rs") auto
  then show ?thesis using assms False by (simp add: Interest_refreshNonce_def)
qed

theorem interest_refreshNonce_witness:
  "Interest_refreshNonce (sconst 5) (malformed_signed (\<lambda>_. replicate 32 0)) \<noteq> None"
proof -
  have n: "i_nonce (malformed_signed (\<lambda>_. replicate 32 0)) = Some [1, 2, 3, 4]" by (simp add: malformed_signed_def Let_def)
  have "generateNonce 5 \<noteq> [1, 2, 3, 4]" by code_simp
  then have "generateNonce (sconst 5 !! 0) \<noteq> [1, 2, 3, 4]" by simp
  then show ?thesis using interest_refreshNonce [OF n, of "sconst 5"] by (auto split: option.splits)
qed

text \<open>
  C15: A packet from the network can end the program that calls \<open>isSigned\<close> on it.  For every hash function
  there is an Interest that decodes, digest check included, and on which the \<open>noexcept\<close> function \<open>isSigned\<close>
  throws, because it decodes the InterestSignatureInfo, which \<open>wireDecode\<close> does not look at.
\<close>

theorem interest_isSigned_throws:
  assumes "\<And>x. length (sha256 x) = 32"
  shows "\<exists>bytes b i e. Block_fromSpan bytes = Inr b \<and> Interest_wireDecode sha256 True b = Inr i \<and> Interest_isSigned i = Inl e"
proof -
  have ok: "i_ok sha256 0 (malformed_signed sha256)" by (rule malformed_ok [OF assms])
  let ?i = "malformed_signed sha256" and ?v = "tlvs_bytes (i_tlvs 0 (malformed_signed sha256))"
  have len: "length ?v < 2 ^ 64" using ok by (simp add: i_ok_def)
  have wf: "wf_block (tlv_block tlv_Interest ?v)" using len by (intro wf_tlv_block) simp_all
  have span: "Block_fromSpan (tlv_bytes tlv_Interest ?v) = Inr (tlv_block tlv_Interest ?v)"
    using Block_fromSpan_tlv [OF is_tlv_bytes [OF _ len], of tlv_Interest "[]"] by (simp add: tlv_block_def Let_def)
  obtain i' where i': "Interest_wireDecode sha256 True (tlv_block tlv_Interest ?v) = Inr i'" "same_interest 0 ?i i'"
    "list_all element_ok (i_parameters i')"
    using Interest_wireDecode_tlvs [OF ok wf, where auto = True] by auto
  have "map view (i_parameters i') = [(tlv_ApplicationParameters, []), (tlv_InterestSignatureInfo, []), (tlv_InterestSignatureValue, [])]"
    using i'(2) by (simp add: same_interest_def malformed_signed_def)
  then obtain p q s where ps: "i_parameters i' = [p, q, s]" "view p = (tlv_ApplicationParameters, [])"
    "view q = (tlv_InterestSignatureInfo, [])" by auto
  have q: "element_ok q" using i'(3) ps(1) by simp
  then have "SignatureInfo_wireDecode SignatureInfo_Interest q = Inl (SignatureInfoError ''Missing SignatureType in SignatureInfo'')"
    using ps(3) value_size_length [OF element_okD(1) [OF q]]
    by (simp add: SignatureInfo_wireDecode_def parseE_def parse_def view_def element_ok_def)
  then have "Interest_isSigned i' = Inl (SignatureInfoError ''Missing SignatureType in SignatureInfo'')"
    using ps by (simp add: Interest_isSigned_def Interest_getSignatureInfo_def findFirstParameter_def view_def Let_def)
  then show ?thesis using span i'(1) by blast
qed

theorem interest_isSigned_throws_witness:
  "\<exists>bytes b i e. Block_fromSpan bytes = Inr b \<and> Interest_wireDecode (\<lambda>_. replicate 32 0) True b = Inr i \<and> Interest_isSigned i = Inl e"
  by (rule interest_isSigned_throws) simp

end
