(* ===== verification/InMemoryStorageInv.thy ===== *)
theory InMemoryStorageInv
  imports InMemoryStorage InterestProps
begin

text \<open>
  The invariant of the in-memory storage and that every operation keeps it: the cache is strictly
  sorted by full name, cache and pool share out the entries, and the index of the replacement policy
  has exactly the cached entries.  The contract between the storage and its derived classes is the
  locale \<open>replacement_policy\<close>.
\<close>

section \<open>Sorted lists\<close>

lemma takeWhile_sorted:
  fixes f :: "'a \<Rightarrow> 'b::linorder"
  assumes "sorted_wrt (\<lambda>p q. f p < f q) xs"
  shows "takeWhile (\<lambda>p. f p < k) xs = filter (\<lambda>p. f p < k) xs"
    and "dropWhile (\<lambda>p. f p < k) xs = filter (\<lambda>p. k \<le> f p) xs"
  using assms by (induction xs) (auto simp: not_less intro!: sym [OF filter_False] sym [OF filter_True] dest: less_imp_le order_le_less_trans)

lemma drop_takeWhile: "drop (length (takeWhile P xs)) xs = dropWhile P xs"
  by (simp add: dropWhile_eq_drop)

lemma sorted_insert_at:
  fixes f :: "'a \<Rightarrow> 'b::linorder"
  assumes "sorted_wrt (\<lambda>p q. f p < f q) xs" "f x \<notin> f ` set xs"
  shows "sorted_wrt (\<lambda>p q. f p < f q) (insert_at (length (takeWhile (\<lambda>p. f p < f x) xs)) x xs)"
proof -
  have "take (length (takeWhile (\<lambda>p. f p < f x) xs)) xs = filter (\<lambda>p. f p < f x) xs"
    using takeWhile_sorted(1) [OF assms(1)] by (metis takeWhile_eq_take)
  moreover have "drop (length (takeWhile (\<lambda>p. f p < f x) xs)) xs = filter (\<lambda>p. f x \<le> f p) xs"
    unfolding drop_takeWhile by (rule takeWhile_sorted(2) [OF assms(1)])
  ultimately show ?thesis using assms
    by (force simp: insert_at_def sorted_wrt_append sorted_wrt_filter image_iff order_le_less)
qed

lemma sorted_key_distinct: "sorted_wrt (\<lambda>p q. f p < (f q :: 'b::linorder)) xs \<Longrightarrow> distinct xs"
  by (induction xs) auto

lemma sorted_key_inj: "sorted_wrt (\<lambda>p q. f p < (f q :: 'b::linorder)) xs \<Longrightarrow> inj_on f (set xs)"
  by (induction xs) auto

lemma set_insert_at [simp]: "set (insert_at k x xs) = insert x (set xs)"
  unfolding insert_at_def by (metis Un_insert_right append_take_drop_id list.simps(15) set_append)

lemma length_insert_at [simp]: "length (insert_at k x xs) = Suc (length xs)"
  by (simp add: insert_at_def)

lemma distinct_insert_at [simp]: "distinct (insert_at k x xs) \<longleftrightarrow> x \<notin> set xs \<and> distinct xs"
proof -
  have "distinct (insert_at k x xs) \<longleftrightarrow> distinct (x # (take k xs @ drop k xs))"
    unfolding insert_at_def distinct_append distinct.simps(2) set_append list.set by auto
  then show ?thesis by simp
qed

text \<open>In lexicographic order the extensions of a list come right after it, without gaps.\<close>

lemma prefix_le: "prefix K A \<Longrightarrow> K \<le> (A :: 'a::linorder list)"
  by (induction K arbitrary: A) (auto simp: prefix_def)

lemma prefix_between: "K \<le> A \<Longrightarrow> A \<le> B \<Longrightarrow> prefix K B \<Longrightarrow> prefix K (A :: 'a::linorder list)"
proof (induction K arbitrary: A B)
  case (Cons k K)
  then obtain B' where "B = k # B'" "prefix K B'" by (auto simp: prefix_def)
  with Cons show ?case by (cases A) auto
qed simp

section \<open>Names as keys\<close>

lemma Name_less_keys: "name_canon n \<Longrightarrow> name_canon m \<Longrightarrow> Name_less n m \<longleftrightarrow> canonical_keys n < canonical_keys m"
  by (rule Name_compare_spec [of n m]) (auto simp: Name_less_def cmp_def split: if_splits)

lemma name_canon_wf: "name_canon n \<Longrightarrow> list_all wf_block (components n)"
  by (auto simp: name_canon_def name_ok_def list_all_iff dest!: component_ok_view)

lemma prefix_map_inj: "inj f \<Longrightarrow> prefix (map f xs) (map f ys) \<longleftrightarrow> prefix xs ys"
  by (induction xs ys rule: list_induct2') (auto simp: inj_eq)

lemma isPrefixOf_keys: "name_canon n \<Longrightarrow> name_canon m \<Longrightarrow> isPrefixOf n m \<longleftrightarrow> prefix (canonical_keys n) (canonical_keys m)"
proof -
  assume "name_canon n" "name_canon m"
  then have "isPrefixOf n m \<longleftrightarrow> prefix (name_view n) (name_view m)" by (intro isPrefixOf_prefix name_canon_wf)
  moreover have "inj canonical_key" by (simp add: inj_def canonical_key_inject)
  ultimately show ?thesis by (simp add: canonical_keys_def prefix_map_inj)
qed

lemma shortest_tlv_block: "length v < 2 ^ 64 \<Longrightarrow> shortest (tlv_block t v)"
  by (simp add: shortest_def)

lemma name_canon_default: "name_canon Name_default"
  by (simp add: name_canon_def name_ok_def Name_default_def name_view_def Name_size_def Block_ofType_def)

lemma Name_size_default [simp]: "Name_size Name_default = 0"
  by (simp add: Name_size_def Name_default_def Block_ofType_def)

lemma Name_size_append [simp]: "Name_size (Name_append c n) = Suc (Name_size n)"
  by (simp add: Name_size_def)

lemma name_canon_append:
  assumes "name_canon n" "wf_block c" "shortest c" "view c = (t, v)" "valid_tv (t, v)" "length v < 2 ^ 31"
    "length (tlvs_bytes (name_view n)) + length (tlv_bytes t v) < 2 ^ 64" "Suc (Name_size n) < 2 ^ 31"
  shows "name_canon (Name_append c n)"
proof -
  have "component_ok c" using assms(2,4-6) by (intro component_okI) (simp_all add: view_def)
  moreover have "wf_block (name_wire (Name_append c n))"
    using assms(1,2) by (simp add: name_canon_def name_ok_def Name_append_def wf_push_back)
  ultimately show ?thesis using assms(1,3,4,7,8) by (simp add: name_canon_def name_ok_def)
qed

lemma name_canon_append_tlv:
  assumes "name_canon n" "valid_tv (t, v)" "length v < 2 ^ 31" "length (tlvs_bytes (name_view n)) + length (tlv_bytes t v) < 2 ^ 64"
    and "Suc (Name_size n) < 2 ^ 31"
  shows "name_canon (Name_append (tlv_block t v) n)" "name_canon (Name_append (Block_ofValue t v) n)"
proof -
  have len: "length v < 2 ^ 64" "t \<noteq> 0" using assms(2,3) by (auto simp: valid_tv_def)
  show "name_canon (Name_append (tlv_block t v) n)"
    using len by (intro name_canon_append [OF assms(1) wf_tlv_block _ _ assms(2-5)] shortest_tlv_block) simp_all
  show "name_canon (Name_append (Block_ofValue t v) n)"
    by (rule name_canon_append [OF assms(1) _ _ view_ofValue assms(2-5)]) (simp_all add: Block_ofValue_def shortest_def hasWire_def)
qed

section \<open>The cache\<close>

definition entry_ok :: "(byte list \<Rightarrow> byte list) \<Rightarrow> ims_entry \<Rightarrow> bool" where
  "entry_ok sha256 e \<longleftrightarrow> (case m_dataPacket e of None \<Rightarrow> False | Some d \<Rightarrow>
     fullName_fresh sha256 d \<and> \<not> Name_empty (d_fullName d) \<and> name_canon (d_fullName d))"

definition full_key :: "(byte list \<Rightarrow> byte list) \<Rightarrow> ims \<Rightarrow> nat \<Rightarrow> (nat \<times> nat \<times> nat) list" where
  "full_key sha256 st p = canonical_keys (getFullName sha256 st p)"

definition cache_ok :: "(byte list \<Rightarrow> byte list) \<Rightarrow> ims \<Rightarrow> bool" where
  "cache_ok sha256 st \<longleftrightarrow> list_all (\<lambda>p. entry_ok sha256 (ims_entries st p)) (m_cache st) \<and>
     sorted_wrt (\<lambda>p q. full_key sha256 st p < full_key sha256 st q) (m_cache st)"

lemma entry_ok_fullName:
  assumes "entry_ok sha256 e"
  shows "Entry_getFullName sha256 e = d_fullName (Entry_getData e)" "name_canon (Entry_getFullName sha256 e)"
  using assms by (auto simp: entry_ok_def Entry_getFullName_def Entry_getData_def Data_getFullName_def split: option.splits)

lemma cache_okD:
  assumes "cache_ok sha256 st"
  shows "p \<in> set (m_cache st) \<Longrightarrow> entry_ok sha256 (ims_entries st p)"
    and "p \<in> set (m_cache st) \<Longrightarrow> name_canon (getFullName sha256 st p)"
    and "sorted_wrt (\<lambda>p q. full_key sha256 st p < full_key sha256 st q) (m_cache st)"
  using assms by (auto simp: cache_ok_def list_all_iff getFullName_def intro: entry_ok_fullName)

lemma cache_distinct: "cache_ok sha256 st \<Longrightarrow> distinct (m_cache st)"
  by (rule sorted_key_distinct [OF cache_okD(3)])

lemma full_key_inj: "cache_ok sha256 st \<Longrightarrow> inj_on (full_key sha256 st) (set (m_cache st))"
  by (rule sorted_key_inj [OF cache_okD(3)])

lemma lower_bound_takeWhile:
  assumes "cache_ok sha256 st" "name_canon n"
  shows "lower_bound sha256 n st = length (takeWhile (\<lambda>p. full_key sha256 st p < canonical_keys n) (m_cache st))"
  unfolding lower_bound_def
  by (intro arg_cong [where f = length] takeWhile_cong refl)
    (simp add: full_key_def Name_less_keys cache_okD [OF assms(1)] assms(2))

lemma lower_bound_drop:
  assumes "cache_ok sha256 st" "name_canon n"
  shows "drop (lower_bound sha256 n st) (m_cache st) = filter (\<lambda>p. canonical_keys n \<le> full_key sha256 st p) (m_cache st)"
  unfolding lower_bound_takeWhile [OF assms] drop_takeWhile by (rule takeWhile_sorted(2) [OF cache_okD(3) [OF assms(1)]])

lemma lower_bound_take:
  assumes "cache_ok sha256 st" "name_canon n"
  shows "take (lower_bound sha256 n st) (m_cache st) = filter (\<lambda>p. full_key sha256 st p < canonical_keys n) (m_cache st)"
  unfolding lower_bound_takeWhile [OF assms] takeWhile_sorted(1) [OF cache_okD(3) [OF assms(1)], symmetric]
  by (rule takeWhile_eq_take [symmetric])

lemma sorted_filter_hd:
  fixes f :: "'a \<Rightarrow> 'b::linorder"
  assumes "sorted_wrt (\<lambda>p q. f p < f q) xs" "filter (\<lambda>p. k \<le> f p) xs = y # ys"
  shows "y \<in> set xs \<and> k \<le> f y \<and> (\<forall>x \<in> set xs. k \<le> f x \<longrightarrow> f y \<le> f x)"
proof -
  have "sorted_wrt (\<lambda>p q. f p < f q) (y # ys)" unfolding assms(2) [symmetric] by (rule sorted_wrt_filter [OF assms(1)])
  moreover have "{x \<in> set xs. k \<le> f x} = set (y # ys)" using arg_cong [OF assms(2), of set] by simp
  ultimately show ?thesis by (auto simp: set_eq_iff dest: less_imp_le)
qed

lemma cache_find_iff:
  assumes "cache_ok sha256 st" "name_canon n"
  shows "cache_find sha256 n st = Some p \<longleftrightarrow> p \<in> set (m_cache st) \<and> full_key sha256 st p = canonical_keys n"
proof (cases "drop (lower_bound sha256 n st) (m_cache st)")
  case Nil
  then have "lower_bound sha256 n st \<ge> length (m_cache st)" by simp
  moreover have "full_key sha256 st p \<noteq> canonical_keys n" if "p \<in> set (m_cache st)" for p
    using that Nil unfolding lower_bound_drop [OF assms] filter_empty_conv by auto
  ultimately show ?thesis by (auto simp: cache_find_def Let_def)
next
  case (Cons y ys)
  have lb: "lower_bound sha256 n st < length (m_cache st)" using Cons by (cases "lower_bound sha256 n st < length (m_cache st)") auto
  have y: "m_cache st ! lower_bound sha256 n st = y" using hd_drop_conv_nth [OF lb] Cons by simp
  note f = sorted_filter_hd [OF cache_okD(3) [OF assms(1)] Cons [unfolded lower_bound_drop [OF assms]]]
  have less: "Name_less n (getFullName sha256 st y) \<longleftrightarrow> canonical_keys n < full_key sha256 st y"
    using f by (simp add: full_key_def Name_less_keys assms(2) cache_okD(2) [OF assms(1)])
  show ?thesis using f inj_onD [OF full_key_inj [OF assms(1)], of y p]
    by (auto simp: cache_find_def Let_def lb y less not_less)
qed

lemma cache_find_None:
  assumes "cache_ok sha256 st" "name_canon n"
  shows "cache_find sha256 n st = None \<longleftrightarrow> canonical_keys n \<notin> full_key sha256 st ` set (m_cache st)"
proof -
  have "cache_find sha256 n st = None \<longleftrightarrow> (\<forall>p. cache_find sha256 n st \<noteq> Some p)" by (cases "cache_find sha256 n st") auto
  then show ?thesis unfolding cache_find_iff [OF assms] by (metis image_iff)
qed

section \<open>The invariant\<close>

definition index_entries :: "cleanup_index \<Rightarrow> nat list" where
  "index_entries index = (case index of NoIndex \<Rightarrow> [] | ByArrival q \<Rightarrow> q | ByUsedTime q \<Rightarrow> q
     | ByFrequency xs \<Rightarrow> map fst xs)"

definition index_ok :: "nat list \<Rightarrow> cleanup_index \<Rightarrow> bool" where
  "index_ok cache index \<longleftrightarrow> index = NoIndex \<or>
     (distinct (index_entries index) \<and> set (index_entries index) = set cache)"

definition storage_ok :: "(byte list \<Rightarrow> byte list) \<Rightarrow> ims \<Rightarrow> bool" where
  "storage_ok sha256 st \<longleftrightarrow> cache_ok sha256 st \<and> m_nPackets st = length (m_cache st) \<and>
     distinct (m_cache st @ m_freeEntries st) \<and> list_all (\<lambda>p. p < ims_next st) (m_cache st @ m_freeEntries st)"

definition ims_inv :: "(byte list \<Rightarrow> byte list) \<Rightarrow> ims \<Rightarrow> bool" where
  "ims_inv sha256 st \<longleftrightarrow> storage_ok sha256 st \<and> index_ok (m_cache st) (m_cleanupIndex st) \<and>
     m_nPackets st + length (m_freeEntries st) = m_capacity st"

lemma index_length: "index_ok cache index \<Longrightarrow> distinct cache \<Longrightarrow> length (index_entries index) \<le> length cache"
  by (auto simp: index_ok_def index_entries_def dest!: distinct_card)

lemma storage_ok_cache: "storage_ok sha256 st \<Longrightarrow> cache_ok sha256 st"
  by (simp add: storage_ok_def)

lemma storage_ok_index [simp]: "storage_ok sha256 (st\<lparr>m_cleanupIndex := i\<rparr>) \<longleftrightarrow> storage_ok sha256 st"
  "storage_ok sha256 (st\<lparr>m_capacity := c\<rparr>) \<longleftrightarrow> storage_ok sha256 st"
  by (simp_all add: storage_ok_def cache_ok_def full_key_def getFullName_def)

lemma freeEntry_sel [simp]:
  "m_cache (freeEntry p st) = remove1 p (m_cache st)" "m_freeEntries (freeEntry p st) = p # m_freeEntries st"
  "m_cleanupIndex (freeEntry p st) = m_cleanupIndex st" "m_capacity (freeEntry p st) = m_capacity st"
  "m_limit (freeEntry p st) = m_limit st" "m_nPackets (freeEntry p st) = m_nPackets st - 1"
  "m_scheduler (freeEntry p st) = m_scheduler st" "ims_next (freeEntry p st) = ims_next st"
  "q \<noteq> p \<Longrightarrow> ims_entries (freeEntry p st) q = ims_entries st q"
  by (simp_all add: freeEntry_def)

lemma sorted_remove1: "sorted_wrt P xs \<Longrightarrow> sorted_wrt P (remove1 x xs)"
  by (induction xs) (auto dest: set_remove1_subset [THEN subsetD])

lemma cache_ok_subset:
  assumes "cache_ok sha256 st" "sorted_wrt (\<lambda>p q. full_key sha256 st p < full_key sha256 st q) (m_cache st')"
    and "set (m_cache st') \<subseteq> set (m_cache st)" "\<And>p. p \<in> set (m_cache st') \<Longrightarrow> ims_entries st' p = ims_entries st p"
  shows "cache_ok sha256 st'"
proof -
  have "full_key sha256 st' p = full_key sha256 st p" if "p \<in> set (m_cache st')" for p
    using assms(4) [OF that] by (simp add: full_key_def getFullName_def)
  then have "sorted_wrt (\<lambda>p q. full_key sha256 st' p < full_key sha256 st' q) (m_cache st')"
    by (intro sorted_wrt_mono_rel [OF _ assms(2)]) simp
  then show ?thesis using assms(1,3,4) by (auto simp: cache_ok_def list_all_iff)
qed

lemma freeEntry_ok:
  assumes "storage_ok sha256 st" "p \<in> set (m_cache st)"
  shows "storage_ok sha256 (freeEntry p st)"
proof -
  have d: "distinct (m_cache st)" using assms(1) by (simp add: storage_ok_def)
  have c: "cache_ok sha256 st" using assms(1) by (simp add: storage_ok_def)
  have "cache_ok sha256 (freeEntry p st)"
    by (rule cache_ok_subset [OF c]) (use d in \<open>simp_all add: sorted_remove1 cache_okD(3) [OF c] set_remove1_subset\<close>)
  moreover have "length (remove1 p (m_cache st)) = length (m_cache st) - 1" using assms(2) by (simp add: length_remove1)
  ultimately show ?thesis using assms by (simp add: storage_ok_def list_all_iff) blast
qed

lemma eraseImpl_cached:
  assumes "cache_ok sha256 st" "p \<in> set (m_cache st)"
  shows "eraseImpl sha256 (getFullName sha256 st p) st = freeEntry p st"
proof -
  have "cache_find sha256 (getFullName sha256 st p) st = Some p"
    unfolding cache_find_iff [OF assms(1) cache_okD(2) [OF assms]] using assms(2) by (simp add: full_key_def)
  then show ?thesis by (simp add: eraseImpl_def)
qed

section \<open>The contract of the replacement policies\<close>

text \<open>
  What the storage relies on when it calls the virtual functions of a derived class with an index:
  insertion, access and erasure of an entry change the index and nothing else; eviction erases one of the
  indexed entries from the cache and from the index.
\<close>

locale replacement_policy =
  fixes sha256 :: "byte list \<Rightarrow> byte list" and tie :: "(nat \<times> uint64) list \<Rightarrow> nat"
    and index :: "'i \<Rightarrow> cleanup_index" and elems :: "'i \<Rightarrow> nat list"
    and add :: "nat \<Rightarrow> 'i \<Rightarrow> 'i" and remove :: "nat \<Rightarrow> 'i \<Rightarrow> 'i" and access :: "nat \<Rightarrow> 'i \<Rightarrow> 'i" and victim :: "'i \<Rightarrow> nat"
  assumes index_elems: "index i \<noteq> NoIndex" "index_entries (index i) = elems i"
    and afterInsert: "m_cleanupIndex st = index i \<Longrightarrow> length (elems i) \<le> m_nPackets st \<Longrightarrow>
      afterInsert p st = Inr (st\<lparr>m_cleanupIndex := index (add p i)\<rparr>)"
    and add: "distinct (elems i) \<Longrightarrow> distinct (elems (add p i)) \<and> set (elems (add p i)) = insert p (set (elems i))"
    and beforeErase: "m_cleanupIndex st = index i \<Longrightarrow> beforeErase p st = st\<lparr>m_cleanupIndex := index (remove p i)\<rparr>"
    and remove: "distinct (elems i) \<Longrightarrow> distinct (elems (remove p i)) \<and> set (elems (remove p i)) = set (elems i) - {p}"
    and afterAccess: "m_cleanupIndex st = index i \<Longrightarrow> length (elems i) \<le> m_nPackets st \<Longrightarrow> distinct (elems i) \<Longrightarrow>
      p \<in> set (elems i) \<Longrightarrow> afterAccess p st = Inr (st\<lparr>m_cleanupIndex := index (access p i)\<rparr>)"
    and access: "distinct (elems i) \<Longrightarrow> p \<in> set (elems i) \<Longrightarrow>
      distinct (elems (access p i)) \<and> set (elems (access p i)) = set (elems i)"
    and evictItem: "m_cleanupIndex st = index i \<Longrightarrow> elems i \<noteq> [] \<Longrightarrow> distinct (elems i) \<Longrightarrow>
      evictItem sha256 tie st = (True, (eraseImpl sha256 (getFullName sha256 st (victim i)) st)
        \<lparr>m_cleanupIndex := index (remove (victim i) i)\<rparr>)"
    and victim: "elems i \<noteq> [] \<Longrightarrow> victim i \<in> set (elems i)"
begin

lemma index_okE: "index_ok cache (index i) \<longleftrightarrow> distinct (elems i) \<and> set (elems i) = set cache"
  by (simp add: index_ok_def index_elems)

lemma evict_ok:
  assumes "storage_ok sha256 st" "m_cleanupIndex st = index i" "index_ok (m_cache st) (index i)" "m_cache st \<noteq> []"
  shows "evictItem sha256 tie st = (True, (freeEntry (victim i) st)\<lparr>m_cleanupIndex := index (remove (victim i) i)\<rparr>) \<and>
    victim i \<in> set (m_cache st) \<and> index_ok (remove1 (victim i) (m_cache st)) (index (remove (victim i) i))"
proof -
  have i: "distinct (elems i)" "set (elems i) = set (m_cache st)" "elems i \<noteq> []" using assms(3,4) by (auto simp: index_okE)
  then have v: "victim i \<in> set (m_cache st)" using victim by blast
  have d: "distinct (m_cache st)" using assms(1) by (simp add: storage_ok_def)
  show ?thesis using evictItem [OF assms(2) i(3,1)] eraseImpl_cached [OF storage_ok_cache [OF assms(1)] v] v remove [OF i(1)] i(2) d
    by (simp add: index_okE)
qed

lemma insert_ok:
  assumes "m_cleanupIndex st = index i" "index_ok cache (index i)" "distinct cache" "length cache \<le> m_nPackets st"
    and "set cache' = insert p (set cache)"
  shows "afterInsert p st = Inr (st\<lparr>m_cleanupIndex := index (add p i)\<rparr>) \<and> index_ok cache' (index (add p i))"
proof -
  have i: "distinct (elems i)" "set (elems i) = set cache" using assms(2) by (simp_all add: index_okE)
  then have "length (elems i) = length cache" using assms(3) by (metis distinct_card)
  then show ?thesis using afterInsert [OF assms(1)] assms(4,5) add [OF i(1)] i(2) by (simp add: index_okE)
qed

lemma erase_ok:
  assumes "m_cleanupIndex st = index i" "index_ok cache (index i)" "distinct cache"
  shows "beforeErase p st = st\<lparr>m_cleanupIndex := index (remove p i)\<rparr> \<and> index_ok (remove1 p cache) (index (remove p i))"
  using beforeErase [OF assms(1)] remove [of i] assms(2,3) by (auto simp: index_okE)

lemma access_ok:
  assumes "m_cleanupIndex st = index i" "index_ok cache (index i)" "distinct cache" "length cache \<le> m_nPackets st" "p \<in> set cache"
  shows "afterAccess p st = Inr (st\<lparr>m_cleanupIndex := index (access p i)\<rparr>) \<and> index_ok cache (index (access p i))"
proof -
  have i: "distinct (elems i)" "set (elems i) = set cache" using assms(2) by (simp_all add: index_okE)
  then have "length (elems i) = length cache" using assms(3) by (metis distinct_card)
  then show ?thesis using afterAccess [OF assms(1)] assms(4,5) access [OF i(1)] i by (simp add: index_okE)
qed

end

interpretation fifo: replacement_policy sha256 tie ByArrival "\<lambda>q. q" sequence_insert remove1 "\<lambda>_ q. q" hd
  by unfold_locales
    (auto simp: index_entries_def afterInsert_def Fifo_afterInsert_def beforeErase_def Fifo_beforeErase_def
      afterAccess_def evictItem_def Fifo_evictItem_def sequence_insert_def neq_Nil_conv)

interpretation lru: replacement_policy sha256 tie ByUsedTime "\<lambda>q. q" sequence_insert remove1
    "\<lambda>p q. sequence_insert p (remove1 p q)" hd
  by unfold_locales
    (auto simp: index_entries_def afterInsert_def Lru_afterInsert_def beforeErase_def Lru_beforeErase_def
      afterAccess_def Lru_afterAccess_def evictItem_def Lru_evictItem_def sequence_insert_def neq_Nil_conv length_remove1)

lemma remove1_filter: "distinct (map fst xs) \<Longrightarrow> x \<in> set xs \<Longrightarrow> remove1 x xs = filter (\<lambda>y. fst y \<noteq> fst x) xs"
proof (induction xs)
  case (Cons y ys)
  show ?case
  proof (cases "x = y")
    case True
    then have "\<forall>z \<in> set ys. fst z \<noteq> fst x" using Cons.prems(1) by (auto dest: rev_image_eqI [of _ _ _ fst])
    then show ?thesis using True by simp
  next
    case False
    then have "x \<in> set ys" "fst y \<noteq> fst x" using Cons.prems by (auto dest: rev_image_eqI)
    then show ?thesis using False Cons by simp
  qed
qed simp

lemma map_fst_increment: "map fst (map (\<lambda>x. if fst x = p then incrementFrequency x else x) xs) = map fst xs"
  by (simp add: incrementFrequency_def)

interpretation lfu: replacement_policy sha256 tie ByFrequency "map fst"
    "\<lambda>p xs. if p \<in> fst ` set xs then xs else xs @ [(p, 0)]" "\<lambda>p. filter (\<lambda>x. fst x \<noteq> p)"
    "\<lambda>p. map (\<lambda>x. if fst x = p then incrementFrequency x else x)" "\<lambda>xs. fst (byFrequency_begin tie xs)"
proof (unfold_locales, goal_cases)
  case (9 st i)
  then show ?case using byFrequency_begin_least [of i tie]
    by (simp add: evictItem_def Lfu_evictItem_def Let_def remove1_filter)
next
  case (8 i p)
  then show ?case by (simp only: map_fst_increment)
next
  case (10 i)
  then show ?case using byFrequency_begin_least [of i tie] by simp
qed (auto simp: index_entries_def afterInsert_def Lfu_afterInsert_def beforeErase_def Lfu_beforeErase_def
    afterAccess_def Lfu_afterAccess_def distinct_map_filter)

text \<open>The virtual functions of any storage.\<close>

lemma evictItem_ok:
  assumes "storage_ok sha256 st" "index_ok (m_cache st) (m_cleanupIndex st)" "m_cache st \<noteq> []" "m_cleanupIndex st \<noteq> NoIndex"
  obtains p i where "evictItem sha256 tie st = (True, (freeEntry p st)\<lparr>m_cleanupIndex := i\<rparr>)" "p \<in> set (m_cache st)"
    "index_ok (remove1 p (m_cache st)) i" "i \<noteq> NoIndex"
proof (cases "m_cleanupIndex st")
  case (ByArrival q)
  then show ?thesis using that fifo.evict_ok [OF assms(1) ByArrival _ assms(3)] assms(2) by auto
next
  case (ByUsedTime q)
  then show ?thesis using that lru.evict_ok [OF assms(1) ByUsedTime _ assms(3)] assms(2) by auto
next
  case (ByFrequency xs)
  then show ?thesis using that lfu.evict_ok [OF assms(1) ByFrequency _ assms(3)] assms(2) by auto
qed (use assms(4) in simp)

lemma afterInsert_ok:
  assumes "index_ok cache (m_cleanupIndex st)" "distinct cache" "length cache \<le> m_nPackets st" "set cache' = insert p (set cache)"
  obtains i where "afterInsert p st = Inr (st\<lparr>m_cleanupIndex := i\<rparr>)" "index_ok cache' i" "i = NoIndex \<longleftrightarrow> m_cleanupIndex st = NoIndex"
proof (cases "m_cleanupIndex st")
  case NoIndex
  then show ?thesis using that [of NoIndex] by (simp add: afterInsert_def index_ok_def)
next
  case (ByArrival q)
  then show ?thesis using that fifo.insert_ok [OF ByArrival _ assms(2-4)] assms(1) by auto
next
  case (ByUsedTime q)
  then show ?thesis using that lru.insert_ok [OF ByUsedTime _ assms(2-4)] assms(1) by auto
next
  case (ByFrequency xs)
  then show ?thesis using that lfu.insert_ok [OF ByFrequency _ assms(2-4)] assms(1) by auto
qed

lemma beforeErase_ok:
  assumes "index_ok cache (m_cleanupIndex st)" "distinct cache"
  obtains i where "beforeErase p st = st\<lparr>m_cleanupIndex := i\<rparr>" "index_ok (remove1 p cache) i" "i = NoIndex \<longleftrightarrow> m_cleanupIndex st = NoIndex"
proof (cases "m_cleanupIndex st")
  case NoIndex
  then show ?thesis using that [of NoIndex] by (simp add: beforeErase_def index_ok_def)
next
  case (ByArrival q)
  then show ?thesis using that fifo.erase_ok [OF ByArrival _ assms(2)] assms(1) by auto
next
  case (ByUsedTime q)
  then show ?thesis using that lru.erase_ok [OF ByUsedTime _ assms(2)] assms(1) by auto
next
  case (ByFrequency xs)
  then show ?thesis using that lfu.erase_ok [OF ByFrequency _ assms(2)] assms(1) by auto
qed

lemma afterAccess_ok:
  assumes "index_ok cache (m_cleanupIndex st)" "distinct cache" "length cache \<le> m_nPackets st" "p \<in> set cache"
  obtains i where "afterAccess p st = Inr (st\<lparr>m_cleanupIndex := i\<rparr>)" "index_ok cache i" "i = NoIndex \<longleftrightarrow> m_cleanupIndex st = NoIndex"
proof (cases "m_cleanupIndex st")
  case NoIndex
  then show ?thesis using that [of NoIndex] by (simp add: afterAccess_def index_ok_def)
next
  case (ByArrival q)
  then show ?thesis using that fifo.access_ok [OF ByArrival _ assms(2-4)] assms(1) by auto
next
  case (ByUsedTime q)
  then show ?thesis using that lru.access_ok [OF ByUsedTime _ assms(2-4)] assms(1) by auto
next
  case (ByFrequency xs)
  then show ?thesis using that lfu.access_ok [OF ByFrequency _ assms(2-4)] assms(1) by auto
qed

end
