(* ===== verification/InMemoryStorageOps.thy ===== *)
theory InMemoryStorageOps
  imports InMemoryStorageInv
begin

text \<open>
  What the operations of the in-memory storage do to a storage that satisfies the invariant: the
  assertions hold, the invariant is kept, and which packets are stored afterwards.
\<close>

section \<open>Capacity\<close>

text \<open>What operations on the pool leave alone.\<close>

definition same_cache :: "ims \<Rightarrow> ims \<Rightarrow> bool" where
  "same_cache st st' \<longleftrightarrow> m_cache st' = m_cache st \<and> m_nPackets st' = m_nPackets st \<and>
     m_cleanupIndex st' = m_cleanupIndex st \<and> m_limit st' = m_limit st \<and> m_scheduler st' = m_scheduler st \<and>
     (\<forall>p \<in> set (m_cache st). ims_entries st' p = ims_entries st p)"

lemma same_cache_refl [simp]: "same_cache st st"
  by (simp add: same_cache_def)

lemma same_cache_fullName: "same_cache st st' \<Longrightarrow> p \<in> set (m_cache st) \<Longrightarrow> getFullName sha256 st' p = getFullName sha256 st p"
  by (simp add: same_cache_def getFullName_def)

lemma same_cache_ok: "same_cache st st' \<Longrightarrow> cache_ok sha256 st \<Longrightarrow> cache_ok sha256 st'"
  by (rule cache_ok_subset [of sha256 st]) (auto simp: same_cache_def intro: cache_okD)

lemma push_entry_ok:
  assumes "storage_ok sha256 st"
  shows "storage_ok sha256 (push_entry st) \<and> same_cache st (push_entry st) \<and>
    length (m_freeEntries (push_entry st)) = Suc (length (m_freeEntries st)) \<and> m_capacity (push_entry st) = m_capacity st"
proof -
  have new: "ims_next st \<notin> set (m_cache st)" "ims_next st \<notin> set (m_freeEntries st)"
    using assms by (auto simp: storage_ok_def list_all_iff)
  then have s: "same_cache st (push_entry st)" by (auto simp: same_cache_def push_entry_def)
  have "storage_ok sha256 (push_entry st)"
    using assms new same_cache_ok [OF s] by (auto simp: storage_ok_def push_entry_def list_all_iff less_Suc_eq)
  then show ?thesis using s by (simp add: push_entry_def)
qed

lemma same_cache_trans: "same_cache st t \<Longrightarrow> same_cache t u \<Longrightarrow> same_cache st u"
  by (simp add: same_cache_def)

lemma push_entries:
  assumes "storage_ok sha256 st"
  shows "storage_ok sha256 ((push_entry ^^ k) st) \<and> same_cache st ((push_entry ^^ k) st) \<and>
    length (m_freeEntries ((push_entry ^^ k) st)) = length (m_freeEntries st) + k \<and>
    m_capacity ((push_entry ^^ k) st) = m_capacity st"
proof (induction k)
  case (Suc k)
  then show ?case using push_entry_ok [of sha256 "(push_entry ^^ k) st"] by (auto intro: same_cache_trans)
qed (use assms in simp)

lemma pop_entries_drop: "k \<le> length (m_freeEntries st) \<Longrightarrow> pop_entries k st = Inr (st\<lparr>m_freeEntries := drop k (m_freeEntries st)\<rparr>)"
proof (induction k arbitrary: st)
  case (Suc k)
  then show ?case by (cases "m_freeEntries st") simp_all
qed simp

text \<open>The loop of \<open>setCapacity\<close> of a storage with a replacement policy evicts what is too much.\<close>

lemma evict_loop_ok:
  assumes "storage_ok sha256 st" "index_ok (m_cache st) (m_cleanupIndex st)" "m_cleanupIndex st \<noteq> NoIndex"
  shows "\<exists>st'. evict_loop sha256 tie n st = Inr st' \<and> storage_ok sha256 st' \<and> index_ok (m_cache st') (m_cleanupIndex st') \<and>
    m_cleanupIndex st' \<noteq> NoIndex \<and> m_nPackets st' = min (m_nPackets st) (m_capacity st) \<and>
    m_nPackets st' + length (m_freeEntries st') = m_nPackets st + length (m_freeEntries st) \<and>
    m_capacity st' = m_capacity st \<and> m_limit st' = m_limit st \<and> set (m_cache st') \<subseteq> set (m_cache st) \<and>
    (\<forall>p \<in> set (m_cache st'). ims_entries st' p = ims_entries st p)"
  using assms
proof (induction "m_nPackets st - m_capacity st" arbitrary: st)
  case 0
  then show ?case by (simp add: evict_loop.simps)
next
  case (Suc k)
  then have n: "m_nPackets st > m_capacity st" "m_nPackets st = length (m_cache st)" by (auto simp: storage_ok_def)
  then have "m_cache st \<noteq> []" by auto
  then obtain p i where e: "evictItem sha256 tie st = (True, (freeEntry p st)\<lparr>m_cleanupIndex := i\<rparr>)" "p \<in> set (m_cache st)"
      "index_ok (remove1 p (m_cache st)) i" "i \<noteq> NoIndex"
    using evictItem_ok [of sha256 st] Suc.prems by metis
  let ?t = "(freeEntry p st)\<lparr>m_cleanupIndex := i\<rparr>"
  have "k = m_nPackets ?t - m_capacity ?t" "storage_ok sha256 ?t"
    using Suc.hyps(2) freeEntry_ok [OF Suc.prems(1) e(2)] by simp_all
  from Suc.hyps(1) [OF this] e(3,4) obtain st' where t: "evict_loop sha256 tie n ?t = Inr st'" "storage_ok sha256 st'"
      "index_ok (m_cache st') (m_cleanupIndex st')" "m_cleanupIndex st' \<noteq> NoIndex" "m_nPackets st' = min (m_nPackets ?t) (m_capacity ?t)"
      "m_nPackets st' + length (m_freeEntries st') = m_nPackets ?t + length (m_freeEntries ?t)"
      "m_capacity st' = m_capacity ?t" "m_limit st' = m_limit ?t" "set (m_cache st') \<subseteq> set (m_cache ?t)"
      "\<forall>q \<in> set (m_cache st'). ims_entries st' q = ims_entries ?t q"
    by auto
  have d: "set (m_cache ?t) = set (m_cache st) - {p}" using Suc.prems(1) by (simp add: storage_ok_def)
  have "evict_loop sha256 tie n st = Inr st'" using n(1) e(1) t(1) by (subst evict_loop.simps) simp
  moreover have "ims_entries st' q = ims_entries st q" if "q \<in> set (m_cache st')" for q
  proof -
    have "q \<noteq> p" using that t(9) d by blast
    then show ?thesis using that t(10) by simp
  qed
  ultimately show ?case using t(2-9) n d by (intro exI [of _ st']) auto
qed

lemma setCapacity_no_eviction:
  assumes "m_nPackets st \<le> max c m_initCapacity"
  shows "setCapacity sha256 tie c st =
    (let t = st\<lparr>m_capacity := max c m_initCapacity\<rparr> in
     bindE (if max c m_initCapacity \<ge> m_capacity st then Inr ((push_entry ^^ (max c m_initCapacity - m_capacity st)) t)
            else pop_entries (m_capacity st - max c m_initCapacity) t) (\<lambda>u.
       if m_nPackets u + length (m_freeEntries u) = m_capacity u then Inr u
       else Inl (LogicError ''size() + m_freeEntries.size() == m_capacity'')))"
proof -
  have "\<not> m_nPackets st > max c m_initCapacity" using assms by (simp only: not_less)
  then show ?thesis by (simp add: setCapacity_def Let_def del: less_max_iff_disj le_max_iff_disj max_less_iff_conj)
qed

lemma storage_ok_drop:
  "storage_ok sha256 st \<Longrightarrow> storage_ok sha256 (st\<lparr>m_freeEntries := drop k (m_freeEntries st)\<rparr>)"
  by (auto simp: storage_ok_def cache_ok_def full_key_def getFullName_def list_all_iff dest: in_set_dropD)

lemma setCapacity_ok:
  assumes "ims_inv sha256 st" "m_nPackets st \<le> max c m_initCapacity"
  obtains st' where "setCapacity sha256 tie c st = Inr st'" "ims_inv sha256 st'" "same_cache st st'" "m_capacity st' = max c m_initCapacity"
proof -
  define C where "C = max c m_initCapacity"
  define t where "t = st\<lparr>m_capacity := C\<rparr>"
  have n: "m_nPackets st \<le> C" using assms(2) by (simp add: C_def)
  have t: "storage_ok sha256 t" "same_cache st t" "m_capacity t = C" "m_freeEntries t = m_freeEntries st"
    using assms(1) by (simp_all add: ims_inv_def t_def same_cache_def)
  have inv: "index_ok (m_cache st) (m_cleanupIndex st)" "m_nPackets st + length (m_freeEntries st) = m_capacity st"
    using assms(1) by (simp_all add: ims_inv_def)
  obtain u where u: "(if C \<ge> m_capacity st then Inr ((push_entry ^^ (C - m_capacity st)) t)
      else pop_entries (m_capacity st - C) t) = Inr u"
    "storage_ok sha256 u" "same_cache t u" "m_capacity u = C" "m_nPackets st + length (m_freeEntries u) = C"
  proof (cases "C \<ge> m_capacity st")
    case True
    then show ?thesis using push_entries [OF t(1), of "C - m_capacity st"] t(3,4) inv(2)
      by (intro that [of "(push_entry ^^ (C - m_capacity st)) t"]) simp_all
  next
    case False
    then show ?thesis using pop_entries_drop [of "m_capacity st - C" t] storage_ok_drop [OF t(1)] t(3,4) inv(2) n
      by (intro that [of "t\<lparr>m_freeEntries := drop (m_capacity st - C) (m_freeEntries t)\<rparr>"]) (auto simp: same_cache_def)
  qed
  have s: "same_cache st u" by (rule same_cache_trans [OF t(2) u(3)])
  then have "m_nPackets u + length (m_freeEntries u) = m_capacity u" using u(4,5) by (simp add: same_cache_def)
  then have "setCapacity sha256 tie c st = Inr u"
    unfolding setCapacity_no_eviction [OF assms(2)] Let_def C_def [symmetric] t_def [symmetric] u(1) by simp
  then show ?thesis using that s u inv(1) by (simp add: ims_inv_def same_cache_def C_def)
qed

section \<open>Insertion\<close>

text \<open>The two halves of \<open>insert\<close>: making room, and filling an entry from the pool.\<close>

definition make_room ::
    "(byte list \<Rightarrow> byte list) \<Rightarrow> ((nat \<times> uint64) list \<Rightarrow> nat) \<Rightarrow> ims \<Rightarrow> ims result" where
  "make_room sha256 tie st =
     bindE (if ims_isFull st \<and> m_limit st \<noteq> m_capacity st
            then setCapacity sha256 tie (min (2 * m_capacity st mod 2 ^ 64) (m_limit st)) st else Inr st) (\<lambda>st1.
       Inr (if ims_isFull st1 \<and> m_limit st = m_capacity st then snd (evictItem sha256 tie st1) else st1))"

definition filled_entry :: "int \<Rightarrow> int \<Rightarrow> data \<Rightarrow> bool \<Rightarrow> ims_entry \<Rightarrow> ims_entry" where
  "filled_entry now window d scheduler e =
     (if scheduler \<and> window > 0 then Entry_scheduleMarkStale now (window * 1000000) (Entry_setData d e) else Entry_setData d e)"

definition place_entry :: "(byte list \<Rightarrow> byte list) \<Rightarrow> int \<Rightarrow> int \<Rightarrow> data \<Rightarrow> ims \<Rightarrow> ims result" where
  "place_entry sha256 now window d st = (case m_freeEntries st of
     [] \<Rightarrow> Inl (LogicError ''m_freeEntries.size() > 0'')
   | p # ps \<Rightarrow> afterInsert p (cache_insert sha256 p
       (st\<lparr>m_freeEntries := ps, m_nPackets := m_nPackets st + 1,
           ims_entries := (ims_entries st)(p := filled_entry now window d (m_scheduler st) (ims_entries st p))\<rparr>)))"

lemma ims_insert_steps:
  "Data_getFullName sha256 d = Inr (n, d') \<Longrightarrow> ims_insert sha256 tie now window d st =
    (if cache_find sha256 n st \<noteq> None then Inr st else bindE (make_room sha256 tie st) (place_entry sha256 now window d'))"
  by (auto simp: ims_insert_def make_room_def place_entry_def filled_entry_def Let_def bindE_assoc intro!: bindE_cong split: list.split)

text \<open>The relation of capacity and limit, for limits of at least sixteen packets.\<close>

definition room_ok :: "ims \<Rightarrow> bool" where
  "room_ok st \<longleftrightarrow> m_initCapacity \<le> m_capacity st \<and> m_capacity st \<le> m_limit st \<and>
     (m_cleanupIndex st = NoIndex \<longrightarrow> m_limit st = size_max)"

lemma ims_inv_sizes:
  "ims_inv sha256 st \<Longrightarrow> m_nPackets st = length (m_cache st) \<and> m_nPackets st \<le> m_capacity st"
  by (auto simp: ims_inv_def storage_ok_def)

lemma make_room_ok:
  assumes "ims_inv sha256 st" "room_ok st" "m_nPackets st < 2 ^ 63"
  obtains st' where "make_room sha256 tie st = Inr st'" "ims_inv sha256 st'" "room_ok st'" "m_freeEntries st' \<noteq> []"
    "m_limit st' = m_limit st" "m_scheduler st' = m_scheduler st"
    "if m_nPackets st < m_limit st then same_cache st st'
     else \<exists>p i. evictItem sha256 tie st = (True, st') \<and> st' = (freeEntry p st)\<lparr>m_cleanupIndex := i\<rparr> \<and> p \<in> set (m_cache st)"
proof -
  have inv: "storage_ok sha256 st" "index_ok (m_cache st) (m_cleanupIndex st)" "m_nPackets st + length (m_freeEntries st) = m_capacity st"
    "m_nPackets st = length (m_cache st)"
    using assms(1) by (simp_all add: ims_inv_def storage_ok_def)
  have room: "16 \<le> m_capacity st" "m_capacity st \<le> m_limit st" using assms(2) by (simp_all add: room_ok_def m_initCapacity_def)
  consider "m_nPackets st < m_capacity st" | "m_nPackets st = m_capacity st" "m_capacity st < m_limit st"
    | "m_nPackets st = m_capacity st" "m_capacity st = m_limit st"
    using inv(3) room(2) by linarith
  then show ?thesis
  proof cases
    case 1
    then show ?thesis using assms room(2) inv(3) by (intro that [of st]) (auto simp: make_room_def ims_isFull_def)
  next
    case 2
    let ?c = "min (2 * m_capacity st mod 2 ^ 64) (m_limit st)"
    have c: "?c = min (2 * m_capacity st) (m_limit st)" using 2(1) assms(3) by simp
    then have c2: "max ?c m_initCapacity = ?c" "m_capacity st < ?c" "?c \<le> m_limit st" using room 2(2) by (auto simp: m_initCapacity_def)
    obtain t where t: "setCapacity sha256 tie ?c st = Inr t" "ims_inv sha256 t" "same_cache st t" "m_capacity t = ?c"
      using setCapacity_ok [OF assms(1), of ?c tie] c2 2(1) by auto
    have "m_nPackets t = m_nPackets st" "m_limit t = m_limit st" using t(3) by (simp_all add: same_cache_def)
    then have "m_freeEntries t \<noteq> []" "room_ok t" using t(2,3,4) 2 c2 assms(2)
      by (auto simp: ims_inv_def room_ok_def same_cache_def)
    moreover have "make_room sha256 tie st = Inr t" using 2 t(1) by (simp add: make_room_def ims_isFull_def)
    ultimately show ?thesis using that t(2,3) 2 by (simp add: same_cache_def)
  next
    case 3
    have "m_cleanupIndex st \<noteq> NoIndex" using 3 assms(2,3) by (auto simp: room_ok_def size_max_def)
    moreover have "m_cache st \<noteq> []" using 3 room(1) inv(4) by auto
    ultimately obtain p i where e: "evictItem sha256 tie st = (True, (freeEntry p st)\<lparr>m_cleanupIndex := i\<rparr>)" "p \<in> set (m_cache st)"
        "index_ok (remove1 p (m_cache st)) i" "i \<noteq> NoIndex"
      using evictItem_ok [OF inv(1,2)] by metis
    have "make_room sha256 tie st = Inr ((freeEntry p st)\<lparr>m_cleanupIndex := i\<rparr>)"
      using 3 e(1) by (simp add: make_room_def ims_isFull_def)
    moreover have "ims_inv sha256 ((freeEntry p st)\<lparr>m_cleanupIndex := i\<rparr>)"
      using freeEntry_ok [OF inv(1) e(2)] e(3) inv(3,4) 3 room(1) by (simp add: ims_inv_def)
    ultimately show ?thesis using that e assms(2) 3 by (auto simp: room_ok_def)
  qed
qed

text \<open>Packets that can be stored: signed, and with a name in canonical form.\<close>

definition full_name :: "(byte list \<Rightarrow> byte list) \<Rightarrow> data \<Rightarrow> name" where
  "full_name sha256 d = Name_append (digest_component sha256 d) (d_name d)"

definition storable :: "(byte list \<Rightarrow> byte list) \<Rightarrow> data \<Rightarrow> bool" where
  "storable sha256 d \<longleftrightarrow> fullName_fresh sha256 d \<and> hasWire (d_wire d) \<and> name_canon (full_name sha256 d)"

definition as_stored :: "(byte list \<Rightarrow> byte list) \<Rightarrow> data \<Rightarrow> data" where
  "as_stored sha256 d = d\<lparr>d_fullName := full_name sha256 d\<rparr>"

lemma as_stored_sel [simp]:
  "d_name (as_stored sha256 d) = d_name d" "d_fullName (as_stored sha256 d) = full_name sha256 d"
  "d_wire (as_stored sha256 d) = d_wire d" "d_metaInfo (as_stored sha256 d) = d_metaInfo d"
  by (simp_all add: as_stored_def)

lemma full_name_not_empty [simp]: "\<not> Name_empty (full_name sha256 d)"
  by (simp add: full_name_def Name_empty_def)

lemma storable_fullName:
  assumes "storable sha256 d" "\<And>x. length (sha256 x) = 32"
  shows "Data_getFullName sha256 d = Inr (full_name sha256 d, as_stored sha256 d)" "fullName_fresh sha256 (as_stored sha256 d)"
proof -
  have app: "appendImplicitSha256Digest_buffer (sha256 (wire_bytes (d_wire d))) (d_name d) = Inr (full_name sha256 d)"
    unfolding full_name_def digest_component_def by (rule appendImplicitSha256Digest_32 [OF assms(2)])
  then show "Data_getFullName sha256 d = Inr (full_name sha256 d, as_stored sha256 d)"
    using assms(1) by (auto simp: storable_def fullName_fresh_def Data_getFullName_def as_stored_def)
  show "fullName_fresh sha256 (as_stored sha256 d)"
    using assms(1) app by (simp add: storable_def fullName_fresh_def)
qed

lemma filled_entry_ok:
  assumes "storable sha256 d" "\<And>x. length (sha256 x) = 32"
  shows "entry_ok sha256 (filled_entry now window (as_stored sha256 d) s e)"
    "Entry_getData (filled_entry now window (as_stored sha256 d) s e) = as_stored sha256 d"
    "Entry_getFullName sha256 (filled_entry now window (as_stored sha256 d) s e) = full_name sha256 d"
proof -
  have p: "m_dataPacket (filled_entry now window (as_stored sha256 d) s e) = Some (as_stored sha256 d)"
    by (simp add: filled_entry_def Entry_scheduleMarkStale_def Entry_setData_def)
  then show ok: "entry_ok sha256 (filled_entry now window (as_stored sha256 d) s e)"
    using assms storable_fullName(2) [OF assms] by (simp add: entry_ok_def storable_def)
  show "Entry_getData (filled_entry now window (as_stored sha256 d) s e) = as_stored sha256 d"
    using p by (simp add: Entry_getData_def)
  then show "Entry_getFullName sha256 (filled_entry now window (as_stored sha256 d) s e) = full_name sha256 d"
    using entry_ok_fullName(1) [OF ok] by simp
qed

lemma cache_ok_insert:
  assumes "cache_ok sha256 st" "entry_ok sha256 (ims_entries st p)" "full_key sha256 st p \<notin> full_key sha256 st ` set (m_cache st)"
  shows "\<exists>k. cache_insert sha256 p st = st\<lparr>m_cache := insert_at k p (m_cache st)\<rparr> \<and>
    cache_ok sha256 (st\<lparr>m_cache := insert_at k p (m_cache st)\<rparr>)"
proof -
  have canon: "name_canon (getFullName sha256 st p)" using entry_ok_fullName(2) [OF assms(2)] by (simp add: getFullName_def)
  let ?k = "lower_bound sha256 (getFullName sha256 st p) st"
  have "cache_find sha256 (getFullName sha256 st p) st = None"
    unfolding cache_find_None [OF assms(1) canon] using assms(3) by (simp add: full_key_def)
  then have "cache_insert sha256 p st = st\<lparr>m_cache := insert_at ?k p (m_cache st)\<rparr>" by (simp add: cache_insert_def Let_def)
  moreover have "sorted_wrt (\<lambda>q r. full_key sha256 st q < full_key sha256 st r) (insert_at ?k p (m_cache st))"
    unfolding lower_bound_takeWhile [OF assms(1) canon] full_key_def [of sha256 st p, symmetric]
    by (rule sorted_insert_at [OF cache_okD(3) [OF assms(1)] assms(3)])
  ultimately show ?thesis using assms(1,2)
    by (intro exI [of _ ?k]) (simp add: cache_ok_def list_all_iff full_key_def getFullName_def)
qed

text \<open>The storage after an entry of the pool has been filled and put at position \<open>k\<close> of the cache.\<close>

definition with_entry :: "nat \<Rightarrow> nat list \<Rightarrow> ims_entry \<Rightarrow> nat \<Rightarrow> ims \<Rightarrow> ims" where
  "with_entry p ps e k st = st\<lparr>m_freeEntries := ps, m_nPackets := m_nPackets st + 1,
     ims_entries := (ims_entries st)(p := e), m_cache := insert_at k p (m_cache st)\<rparr>"

lemma with_entry_sel [simp]:
  "m_cache (with_entry p ps e k st) = insert_at k p (m_cache st)" "m_freeEntries (with_entry p ps e k st) = ps"
  "m_cleanupIndex (with_entry p ps e k st) = m_cleanupIndex st" "m_capacity (with_entry p ps e k st) = m_capacity st"
  "m_limit (with_entry p ps e k st) = m_limit st" "m_nPackets (with_entry p ps e k st) = m_nPackets st + 1"
  "m_scheduler (with_entry p ps e k st) = m_scheduler st" "ims_next (with_entry p ps e k st) = ims_next st"
  "ims_entries (with_entry p ps e k st) = (ims_entries st)(p := e)"
  by (simp_all add: with_entry_def)

lemma place_entry_ok:
  assumes "ims_inv sha256 st" "m_freeEntries st = p # ps" "storable sha256 d" "\<And>x. length (sha256 x) = 32"
    and "canonical_keys (full_name sha256 d) \<notin> full_key sha256 st ` set (m_cache st)"
    and e_def: "e = filled_entry now window (as_stored sha256 d) (m_scheduler st) (ims_entries st p)"
  obtains k i where
    "place_entry sha256 now window (as_stored sha256 d) st = Inr ((with_entry p ps e k st)\<lparr>m_cleanupIndex := i\<rparr>)"
    "ims_inv sha256 ((with_entry p ps e k st)\<lparr>m_cleanupIndex := i\<rparr>)"
    "afterInsert p (with_entry p ps e k st) = Inr ((with_entry p ps e k st)\<lparr>m_cleanupIndex := i\<rparr>)"
    "p \<notin> set (m_cache st)" "i = NoIndex \<longleftrightarrow> m_cleanupIndex st = NoIndex"
proof -
  let ?t = "st\<lparr>m_freeEntries := ps, m_nPackets := m_nPackets st + 1, ims_entries := (ims_entries st)(p := e)\<rparr>"
  have inv: "cache_ok sha256 st" "index_ok (m_cache st) (m_cleanupIndex st)" "m_nPackets st = length (m_cache st)"
    "distinct (m_cache st)" "distinct (p # ps)" "set (m_cache st) \<inter> set (p # ps) = {}"
    "\<forall>q \<in> set (m_cache st) \<union> set (p # ps). q < ims_next st" "m_nPackets st + Suc (length ps) = m_capacity st"
    using assms(1,2) by (auto simp: ims_inv_def storage_ok_def list_all_iff)
  have p: "p \<notin> set (m_cache st)" using inv(6) by auto
  note e = filled_entry_ok [OF assms(3,4), of now window "m_scheduler st" "ims_entries st p", folded e_def]
  have same: "full_key sha256 ?t q = full_key sha256 st q" if "q \<in> set (m_cache st)" for q
    using that p by (auto simp: full_key_def getFullName_def)
  have "cache_ok sha256 ?t" by (rule cache_ok_subset [OF inv(1)]) (use p cache_okD(3) [OF inv(1)] in auto)
  moreover have "full_key sha256 ?t p \<notin> full_key sha256 ?t ` set (m_cache ?t)"
    using assms(5) same e(3) by (auto simp: full_key_def getFullName_def)
  ultimately obtain k where k: "cache_insert sha256 p ?t = ?t\<lparr>m_cache := insert_at k p (m_cache st)\<rparr>"
      "cache_ok sha256 (?t\<lparr>m_cache := insert_at k p (m_cache st)\<rparr>)"
    using cache_ok_insert [of sha256 ?t p] e(1) by auto
  let ?u = "with_entry p ps e k st"
  have u: "?t\<lparr>m_cache := insert_at k p (m_cache st)\<rparr> = ?u" by (simp add: with_entry_def)
  note k = k [unfolded u]
  obtain i where i: "afterInsert p ?u = Inr (?u\<lparr>m_cleanupIndex := i\<rparr>)" "index_ok (insert_at k p (m_cache st)) i"
      "i = NoIndex \<longleftrightarrow> m_cleanupIndex st = NoIndex"
    using afterInsert_ok [of "m_cache st" ?u "insert_at k p (m_cache st)" p] inv(2,3,4) by auto
  have "place_entry sha256 now window (as_stored sha256 d) st = Inr (?u\<lparr>m_cleanupIndex := i\<rparr>)"
    using k(1) i(1) assms(2) by (simp add: place_entry_def e_def)
  moreover have "storage_ok sha256 ?u" using k(2) inv(3-7) p by (auto simp: storage_ok_def list_all_iff)
  then have "ims_inv sha256 (?u\<lparr>m_cleanupIndex := i\<rparr>)" using i(2) inv(3,8) by (simp add: ims_inv_def)
  ultimately show ?thesis using that [where k = k and i = i] i(1,3) p by simp
qed

end
