(* ===== verification/InMemoryStorageFind.thy ===== *)
theory InMemoryStorageFind
  imports InMemoryStorageOps
begin

text \<open>
  Lookup in the in-memory storage: both \<open>find\<close> functions, which use the order of the cache, return
  what a search through all packets returns.
\<close>

section \<open>Stored packets\<close>

lemma entry_ok_parts:
  assumes "entry_ok sha256 e" "\<And>x. length (sha256 x) = 32"
  shows "fullName_fresh sha256 (Entry_getData e)" "hasWire (d_wire (Entry_getData e))"
    "Entry_getFullName sha256 e = full_name sha256 (Entry_getData e)"
    "list_all wf_block (components (d_name (Entry_getData e)))"
    "list_all wf_block (components (Entry_getFullName sha256 e))"
proof -
  let ?d = "Entry_getData e"
  have d: "fullName_fresh sha256 ?d" "\<not> Name_empty (d_fullName ?d)" "name_canon (d_fullName ?d)"
    using assms(1) by (auto simp: entry_ok_def Entry_getData_def split: option.splits)
  then have w: "hasWire (d_wire ?d)" "appendImplicitSha256Digest_buffer (sha256 (wire_bytes (d_wire ?d))) (d_name ?d) = Inr (d_fullName ?d)"
    by (auto simp: fullName_fresh_def)
  then have n: "d_fullName ?d = full_name sha256 ?d"
    using appendImplicitSha256Digest_32 [OF assms(2), of "wire_bytes (d_wire ?d)" "d_name ?d"] by (simp add: full_name_def digest_component_def)
  show "fullName_fresh sha256 ?d" "hasWire (d_wire ?d)" by (rule d(1), rule w(1))
  show eq: "Entry_getFullName sha256 e = full_name sha256 ?d" using n entry_ok_fullName(1) [OF assms(1)] by simp
  show wf: "list_all wf_block (components (Entry_getFullName sha256 e))"
    by (rule name_canon_wf [OF entry_ok_fullName(2) [OF assms(1)]])
  then show "list_all wf_block (components (d_name ?d))" unfolding eq by (simp add: full_name_def)
qed

lemma full_name_view: "name_view (full_name sha256 d) = name_view (d_name d) @ [view (digest_component sha256 d)]"
  by (simp add: full_name_def)

text \<open>What an Interest asks for when its name is not a full name.\<close>

definition satisfies :: "interest \<Rightarrow> data \<Rightarrow> bool" where
  "satisfies i d \<longleftrightarrow>
     (if i_canBePrefix i then prefix (name_view (i_name i)) (name_view (d_name d)) else name_view (i_name i) = name_view (d_name d)) \<and>
     (i_mustBeFresh i \<longrightarrow> 0 < mi_freshnessPeriod (d_metaInfo d))"

lemma matches_entry:
  assumes "entry_ok sha256 e" "\<And>x. length (sha256 x) = 32" "name_canon (i_name i)"
    and "name_view (i_name i) \<noteq> name_view (Entry_getFullName sha256 e)"
  shows "\<exists>d'. Interest_matchesData sha256 i (Entry_getData e) = Inr (satisfies i (Entry_getData e), d')"
proof -
  note e = entry_ok_parts [OF assms(1,2)]
  have "name_view (i_name i) \<noteq> name_view (d_name (Entry_getData e)) @
      [(tlv_ImplicitSha256DigestComponent, sha256 (wire_bytes (d_wire (Entry_getData e))))]"
    using assms(4) e(3) by (simp add: full_name_view digest_component_view)
  then show ?thesis
    using matchesData_value [OF e(1,2) assms(2) name_canon_wf [OF assms(3)] e(4)] by (auto simp: satisfies_def)
qed

lemma satisfies_prefix: "satisfies i d \<Longrightarrow> prefix (name_view (i_name i)) (name_view (full_name sha256 d))"
  by (auto simp: satisfies_def full_name_view split: if_splits intro: prefix_order.trans)

section \<open>Searching\<close>

lemma find_dropWhile: "(\<And>x. x \<in> set xs \<Longrightarrow> Q x \<Longrightarrow> \<not> P x) \<Longrightarrow> find P (dropWhile Q xs) = find P xs"
  by (induction xs) auto

lemma find_filter: "(\<And>x. x \<in> set xs \<Longrightarrow> P x \<Longrightarrow> Q x) \<Longrightarrow> find P (filter Q xs) = find P xs"
  by (induction xs) auto

definition wanted :: "interest \<Rightarrow> ims \<Rightarrow> nat \<Rightarrow> bool" where
  "wanted i st p \<longleftrightarrow> satisfies i (Entry_getData (ims_entries st p)) \<and> (i_mustBeFresh i \<longrightarrow> m_isFresh (ims_entries st p))"

definition candidates :: "(byte list \<Rightarrow> byte list) \<Rightarrow> interest \<Rightarrow> ims \<Rightarrow> nat list \<Rightarrow> bool" where
  "candidates sha256 i st it \<longleftrightarrow> set it \<subseteq> {p \<in> set (m_cache st). canonical_keys (i_name i) < full_key sha256 st p} \<and>
     sorted_wrt (\<lambda>p q. full_key sha256 st p < full_key sha256 st q) it"

lemma candidates_dropWhile: "candidates sha256 i st it \<Longrightarrow> candidates sha256 i st (dropWhile Q it)"
  by (auto simp: candidates_def sorted_wrt_dropWhile dest: set_dropWhileD)

lemma candidates_Cons: "candidates sha256 i st (p # ps) \<longleftrightarrow> candidates sha256 i st ps \<and> p \<in> set (m_cache st) \<and>
    canonical_keys (i_name i) < full_key sha256 st p \<and> (\<forall>q \<in> set ps. full_key sha256 st p < full_key sha256 st q)"
  by (auto simp: candidates_def)

lemma wanted_prefix:
  assumes "cache_ok sha256 st" "\<And>x. length (sha256 x) = 32" "name_canon (i_name i)" "p \<in> set (m_cache st)" "wanted i st p"
  shows "prefix (canonical_keys (i_name i)) (full_key sha256 st p)"
proof -
  have "prefix (name_view (i_name i)) (name_view (getFullName sha256 st p))"
    using satisfies_prefix assms(5) entry_ok_parts(3) [OF cache_okD(1) [OF assms(1,4)] assms(2)]
    by (auto simp: wanted_def getFullName_def)
  then show ?thesis by (simp add: full_key_def canonical_keys_def map_mono_prefix)
qed

lemma wanted_none:
  assumes "cache_ok sha256 st" "\<And>x. length (sha256 x) = 32" "name_canon (i_name i)" "candidates sha256 i st (p # ps)"
    and "\<not> isPrefixOf (i_name i) (getFullName sha256 st p)"
  shows "find (wanted i st) (p # ps) = None"
proof -
  have p: "p \<in> set (m_cache st)" "canonical_keys (i_name i) \<le> full_key sha256 st p"
    "\<And>q. q \<in> set (p # ps) \<Longrightarrow> q \<in> set (m_cache st) \<and> full_key sha256 st p \<le> full_key sha256 st q"
    using assms(4) by (auto simp: candidates_def)
  have "\<not> prefix (canonical_keys (i_name i)) (full_key sha256 st p)"
    using assms(5) isPrefixOf_keys [OF assms(3) cache_okD(2) [OF assms(1) p(1)]] by (simp add: full_key_def)
  then have "\<not> wanted i st q" if "q \<in> set (p # ps)" for q
    using wanted_prefix [OF assms(1-3)] prefix_between [OF p(2)] p(3) [OF that] by blast
  then show ?thesis by (auto simp: find_None_iff)
qed

lemma selectChild_loop_find:
  assumes "cache_ok sha256 st" "\<And>x. length (sha256 x) = 32" "name_canon (i_name i)" "candidates sha256 i st it"
  shows "selectChild_loop sha256 i st it = Inr (find (wanted i st) it)"
  using assms(4)
proof (induction "length it" arbitrary: it rule: less_induct)
  case less
  let ?it = "if i_mustBeFresh i then findNextFresh st it else it"
  have c: "candidates sha256 i st ?it" using less.prems by (simp add: findNextFresh_def candidates_dropWhile)
  have f: "find (wanted i st) ?it = find (wanted i st) it" by (auto simp: findNextFresh_def wanted_def intro!: find_dropWhile)
  have len: "length ?it \<le> length it" by (simp add: findNextFresh_def length_dropWhile_le)
  show ?case
  proof (cases ?it)
    case Nil
    then show ?thesis using f by (subst selectChild_loop.simps) simp
  next
    case (Cons p ps)
    then have fresh: "i_mustBeFresh i \<longrightarrow> m_isFresh (ims_entries st p)"
      by (auto simp: findNextFresh_def dropWhile_eq_Cons_conv)
    have p: "p \<in> set (m_cache st)" "canonical_keys (i_name i) < full_key sha256 st p" "candidates sha256 i st ps"
      using c unfolding Cons by (simp_all add: candidates_Cons)
    have ne: "name_view (i_name i) \<noteq> name_view (Entry_getFullName sha256 (ims_entries st p))"
      using p(2) by (auto simp: full_key_def getFullName_def canonical_keys_def)
    obtain d' where m: "Interest_matchesData sha256 i (Entry_getData (ims_entries st p)) = Inr (satisfies i (Entry_getData (ims_entries st p)), d')"
      using matches_entry [OF cache_okD(1) [OF assms(1) p(1)] assms(2,3) ne] by auto
    have IH: "selectChild_loop sha256 i st ps = Inr (find (wanted i st) ps)"
      using less.hyps [OF _ p(3)] len Cons by simp
    have w: "wanted i st p \<longleftrightarrow> satisfies i (Entry_getData (ims_entries st p))" using fresh by (simp add: wanted_def)
    have none: "\<not> isPrefixOf (i_name i) (getFullName sha256 st p) \<Longrightarrow> find (wanted i st) (p # ps) = None"
      using wanted_none [OF assms(1-3) c [unfolded Cons]] by blast
    show ?thesis unfolding f [symmetric] Cons using none w
      by (subst selectChild_loop.simps) (simp add: Cons m IH)
  qed
qed

lemma selectChild_start:
  assumes "cache_ok sha256 st" "\<And>x. length (sha256 x) = 32" "name_canon (i_name i)"
    and "x \<in> set (m_cache st)" "canonical_keys (i_name i) \<noteq> full_key sha256 st x" "candidates sha256 i st rest"
    and "x # rest = m_cache st \<or> full_key sha256 st x < canonical_keys (i_name i)"
  shows "selectChild sha256 i st (x # rest) = Inr (find (wanted i st) (x # rest))"
proof -
  let ?it = "if i_mustBeFresh i then findNextFresh st (x # rest) else x # rest"
  have f: "find (wanted i st) ?it = find (wanted i st) (x # rest)"
    unfolding findNextFresh_def by (auto simp: wanted_def intro!: find_dropWhile split: if_splits)
  have guard: "\<not> (x # rest \<noteq> m_cache st \<and> \<not> Name_less (getFullName sha256 st x) (i_name i))"
    using assms(7) Name_less_keys [OF cache_okD(2) [OF assms(1,4)] assms(3)] by (auto simp: full_key_def)
  show ?thesis
  proof (cases ?it)
    case Nil
    then show ?thesis using f guard by (simp add: selectChild_def)
  next
    case (Cons p ps)
    then have fresh: "i_mustBeFresh i \<longrightarrow> m_isFresh (ims_entries st p)"
      by (auto simp: findNextFresh_def dropWhile_eq_Cons_conv split: if_splits)
    have "p = x \<and> ps = rest \<or> candidates sha256 i st (p # ps)"
      using Cons candidates_dropWhile [OF assms(6), of "\<lambda>p. \<not> m_isFresh (ims_entries st p)"]
      by (auto simp: findNextFresh_def split: if_splits)
    then have p: "p \<in> set (m_cache st)" "canonical_keys (i_name i) \<noteq> full_key sha256 st p" "candidates sha256 i st ps"
      using assms(4-6) by (auto simp: candidates_Cons)
    have ne: "name_view (i_name i) \<noteq> name_view (Entry_getFullName sha256 (ims_entries st p))"
      using p(2) by (auto simp: full_key_def getFullName_def canonical_keys_def)
    obtain d' where m: "Interest_matchesData sha256 i (Entry_getData (ims_entries st p)) = Inr (satisfies i (Entry_getData (ims_entries st p)), d')"
      using matches_entry [OF cache_okD(1) [OF assms(1) p(1)] assms(2,3) ne] by auto
    have w: "wanted i st p \<longleftrightarrow> satisfies i (Entry_getData (ims_entries st p))" using fresh by (simp add: wanted_def)
    show ?thesis unfolding f [symmetric] Cons using guard
      by (simp add: selectChild_def Cons m w selectChild_loop_find [OF assms(1-3) p(3)])
  qed
qed

lemma selectChild_find:
  assumes "cache_ok sha256 st" "\<And>x. length (sha256 x) = 32" "name_canon (i_name i)"
    and "cache_find sha256 (i_name i) st = None" "lower_bound sha256 (i_name i) st < length (m_cache st)"
  shows "selectChild sha256 i st (drop (lower_bound sha256 (i_name i) st - 1) (m_cache st)) = Inr (find (wanted i st) (m_cache st))"
proof -
  let ?k = "lower_bound sha256 (i_name i) st"
  have ne: "canonical_keys (i_name i) \<notin> full_key sha256 st ` set (m_cache st)" using assms(4) by (simp add: cache_find_None [OF assms(1,3)])
  have c: "candidates sha256 i st (drop ?k (m_cache st))"
    unfolding lower_bound_drop [OF assms(1,3)] candidates_def using ne cache_okD(3) [OF assms(1)]
    by (force simp: sorted_wrt_filter image_iff order_le_less)
  have low: "\<not> wanted i st p" if "p \<in> set (take ?k (m_cache st))" for p
    using that wanted_prefix [OF assms(1-3)] prefix_le unfolding lower_bound_take [OF assms(1,3)] by fastforce
  have all: "find (wanted i st) (drop (?k - 1) (m_cache st)) = find (wanted i st) (m_cache st)"
  proof -
    have "find (wanted i st) (take (?k - 1) (m_cache st)) = None"
      using low set_take_subset_set_take [of "?k - 1" ?k "m_cache st"] by (auto simp: find_None_iff)
    then show ?thesis by (metis append_take_drop_id find_append option.simps(4))
  qed
  obtain x rest where s: "drop (?k - 1) (m_cache st) = x # rest" using assms(5) by (cases "drop (?k - 1) (m_cache st)") auto
  have x: "x \<in> set (m_cache st)" using s by (metis in_set_dropD list.set_intros(1))
  then have nx: "canonical_keys (i_name i) \<noteq> full_key sha256 st x" using ne by auto
  have "candidates sha256 i st rest \<and> (x # rest = m_cache st \<or> full_key sha256 st x < canonical_keys (i_name i))"
  proof (cases ?k)
    case 0
    then show ?thesis using c s by (simp add: candidates_Cons)
  next
    case (Suc k)
    then have "rest = drop ?k (m_cache st)" using s by (metis diff_Suc_1 drop_Suc list.sel(3) tl_drop)
    moreover have "x \<in> set (take ?k (m_cache st))"
      using s Suc assms(5) by (auto simp: take_Suc_conv_app_nth hd_drop_conv_nth [symmetric])
    ultimately show ?thesis using c unfolding lower_bound_take [OF assms(1,3)] by simp
  qed
  then show ?thesis using selectChild_start [OF assms(1-3) x nx] s all by simp
qed

section \<open>The two lookups\<close>

lemma findName_ok:
  assumes "ims_inv sha256 st" "name_canon n"
  shows "case find (\<lambda>p. isPrefixOf n (getFullName sha256 st p)) (m_cache st) of
      None \<Rightarrow> ims_findName sha256 n st = Inr (None, st)
    | Some p \<Rightarrow> p \<in> set (m_cache st) \<and> (\<exists>i. afterAccess p st = Inr (st\<lparr>m_cleanupIndex := i\<rparr>) \<and>
        ims_findName sha256 n st = Inr (Some (Entry_getData (ims_entries st p)), st\<lparr>m_cleanupIndex := i\<rparr>) \<and>
        ims_inv sha256 (st\<lparr>m_cleanupIndex := i\<rparr>) \<and> (i = NoIndex \<longleftrightarrow> m_cleanupIndex st = NoIndex))"
proof -
  have inv: "cache_ok sha256 st" "storage_ok sha256 st" "index_ok (m_cache st) (m_cleanupIndex st)" "distinct (m_cache st)" "length (m_cache st) \<le> m_nPackets st"
    using assms(1) by (simp_all add: ims_inv_def storage_ok_def)
  let ?P = "\<lambda>p. isPrefixOf n (getFullName sha256 st p)" and ?k = "lower_bound sha256 n st"
  have pre: "?P p \<longleftrightarrow> prefix (canonical_keys n) (full_key sha256 st p)" if "p \<in> set (m_cache st)" for p
    using isPrefixOf_keys [OF assms(2) cache_okD(2) [OF inv(1) that]] by (simp add: full_key_def)
  have f: "find ?P (m_cache st) = find ?P (drop ?k (m_cache st))"
    unfolding lower_bound_drop [OF inv(1) assms(2)] by (rule find_filter [symmetric]) (use pre prefix_le in auto)
  show ?thesis
  proof (cases "drop ?k (m_cache st)")
    case Nil
    then have "?k = length (m_cache st)" unfolding lower_bound_def by (simp add: length_takeWhile_le le_antisym)
    then show ?thesis using f Nil by (simp add: ims_findName_def Let_def)
  next
    case (Cons x rest)
    have k: "?k < length (m_cache st)" using Cons by (cases "?k < length (m_cache st)") auto
    have x: "m_cache st ! ?k = x" using hd_drop_conv_nth [OF k] Cons by simp
    note h = sorted_filter_hd [OF cache_okD(3) [OF inv(1)] Cons [unfolded lower_bound_drop [OF inv(1) assms(2)]]]
    show ?thesis
    proof (cases "?P x")
      case True
      obtain i where "afterAccess x st = Inr (st\<lparr>m_cleanupIndex := i\<rparr>)" "index_ok (m_cache st) i" "i = NoIndex \<longleftrightarrow> m_cleanupIndex st = NoIndex"
        using afterAccess_ok [OF inv(3,4,5)] h by metis
      then show ?thesis using True k x f Cons h assms(1) inv(2) by (auto simp: ims_findName_def Let_def ims_inv_def)
    next
      case False
      have "\<not> ?P q" if "q \<in> set (drop ?k (m_cache st))" for q
      proof -
        have q: "q \<in> set (m_cache st)" "full_key sha256 st x \<le> full_key sha256 st q"
          using that h unfolding lower_bound_drop [OF inv(1) assms(2)] by auto
        then show ?thesis using False h prefix_between [of "canonical_keys n" "full_key sha256 st x" "full_key sha256 st q"] pre by blast
      qed
      then have "find ?P (m_cache st) = None" unfolding f by (auto simp: find_None_iff)
      then show ?thesis using False k x by (simp add: ims_findName_def Let_def)
    qed
  qed
qed

lemma findInterest_ok:
  assumes "ims_inv sha256 st" "\<And>x. length (sha256 x) = 32" "name_canon (i_name i)"
  shows "case cache_find sha256 (i_name i) st of
      Some p \<Rightarrow> ims_findInterest sha256 i st = Inr (Some (Entry_getData (ims_entries st p)), st)
    | None \<Rightarrow> (case find (wanted i st) (m_cache st) of
        None \<Rightarrow> ims_findInterest sha256 i st = Inr (None, st)
      | Some p \<Rightarrow> p \<in> set (m_cache st) \<and> (\<exists>idx. afterAccess p st = Inr (st\<lparr>m_cleanupIndex := idx\<rparr>) \<and>
          ims_findInterest sha256 i st = Inr (Some (Entry_getData (ims_entries st p)), st\<lparr>m_cleanupIndex := idx\<rparr>) \<and>
          ims_inv sha256 (st\<lparr>m_cleanupIndex := idx\<rparr>) \<and> (idx = NoIndex \<longleftrightarrow> m_cleanupIndex st = NoIndex)))"
proof (cases "cache_find sha256 (i_name i) st")
  case (Some p)
  then show ?thesis by (simp add: ims_findInterest_def)
next
  case None
  have inv: "cache_ok sha256 st" "storage_ok sha256 st" "index_ok (m_cache st) (m_cleanupIndex st)" "distinct (m_cache st)" "length (m_cache st) \<le> m_nPackets st"
    using assms(1) by (simp_all add: ims_inv_def storage_ok_def)
  let ?k = "lower_bound sha256 (i_name i) st"
  show ?thesis
  proof (cases "?k < length (m_cache st)")
    case True
    note s = selectChild_find [OF inv(1) assms(2,3) None True]
    show ?thesis
    proof (cases "find (wanted i st) (m_cache st)")
      case None2: None
      then show ?thesis using None s True by (simp add: ims_findInterest_def Let_def)
    next
      case (Some p)
      then have p: "p \<in> set (m_cache st)" by (auto simp: find_Some_iff)
      obtain idx where "afterAccess p st = Inr (st\<lparr>m_cleanupIndex := idx\<rparr>)" "index_ok (m_cache st) idx" "idx = NoIndex \<longleftrightarrow> m_cleanupIndex st = NoIndex"
        using afterAccess_ok [OF inv(3,4,5) p] by metis
      then show ?thesis using None Some s True p assms(1) inv(2) by (auto simp: ims_findInterest_def Let_def ims_inv_def)
    qed
  next
    case False
    then have k: "?k = length (m_cache st)" unfolding lower_bound_def by (simp add: length_takeWhile_le le_antisym)
    then have "\<not> wanted i st p" if "p \<in> set (m_cache st)" for p
      using that lower_bound_take [OF inv(1) assms(3)] wanted_prefix [OF inv(1) assms(2,3)] prefix_le
      by (metis (no_types, lifting) filter_id_conv not_less order_refl take_all)
    then have "find (wanted i st) (m_cache st) = None" by (auto simp: find_None_iff)
    then show ?thesis using None k by (simp add: ims_findInterest_def Let_def)
  qed
qed

end
