(* ===== verification/InMemoryStorageErase.thy ===== *)
theory InMemoryStorageErase
  imports InMemoryStorageFind
begin

text \<open>
  Erasing from the in-memory storage, and the storages that can be reached from a new one: every one
  of them satisfies the invariant.
\<close>

section \<open>Erasing\<close>

text \<open>The index of a policy without the entries that are not in \<open>S\<close>; the others keep their places and frequencies.\<close>

definition index_keep :: "nat set \<Rightarrow> cleanup_index \<Rightarrow> cleanup_index" where
  "index_keep S index = (case index of NoIndex \<Rightarrow> NoIndex | ByArrival q \<Rightarrow> ByArrival (filter (\<lambda>p. p \<in> S) q)
     | ByUsedTime q \<Rightarrow> ByUsedTime (filter (\<lambda>p. p \<in> S) q) | ByFrequency xs \<Rightarrow> ByFrequency (filter (\<lambda>x. fst x \<in> S) xs))"

lemma index_keep_all: "index_ok cache index \<Longrightarrow> index_keep (set cache) index = index"
  by (auto simp: index_keep_def index_ok_def index_entries_def filter_id_conv split: cleanup_index.splits)

lemma index_keep_keep: "S \<subseteq> T \<Longrightarrow> index_keep S (index_keep T index) = index_keep S index"
  by (auto simp: index_keep_def split: cleanup_index.split intro: filter_cong)

lemma index_keep_NoIndex [simp]: "index_keep S index = NoIndex \<longleftrightarrow> index = NoIndex"
  by (simp add: index_keep_def split: cleanup_index.split)

lemma beforeErase_keep:
  assumes "index_ok cache (m_cleanupIndex st)" "distinct cache"
  shows "beforeErase p st = st\<lparr>m_cleanupIndex := index_keep (set cache - {p}) (m_cleanupIndex st)\<rparr>"
proof -
  have "filter ((\<noteq>) p) q = filter (\<lambda>r. r \<in> set cache \<and> r \<noteq> p) q" if "set q = set cache" for q
    by (rule filter_cong) (use that in auto)
  moreover have "filter (\<lambda>x. fst x \<noteq> p) xs = filter (\<lambda>x. fst x \<in> set cache \<and> fst x \<noteq> p) xs" if "fst ` set xs = set cache" for xs :: "(nat \<times> uint64) list"
    by (rule filter_cong) (use that in auto)
  ultimately show ?thesis using assms(1)
    by (cases "m_cleanupIndex st")
      (auto simp: beforeErase_def Fifo_beforeErase_def Lru_beforeErase_def Lfu_beforeErase_def index_keep_def index_ok_def
        index_entries_def distinct_remove1_removeAll removeAll_filter_not_eq)
qed

text \<open>What is left when the entries \<open>D\<close> are erased.\<close>

definition erased :: "(byte list \<Rightarrow> byte list) \<Rightarrow> nat set \<Rightarrow> ims \<Rightarrow> ims \<Rightarrow> bool" where
  "erased sha256 D st st' \<longleftrightarrow> storage_ok sha256 st' \<and> index_ok (m_cache st') (m_cleanupIndex st') \<and>
     m_cache st' = filter (\<lambda>p. p \<notin> D) (m_cache st) \<and> (\<forall>p \<in> set (m_cache st'). ims_entries st' p = ims_entries st p) \<and>
     m_nPackets st' + length (m_freeEntries st') = m_nPackets st + length (m_freeEntries st) \<and>
     m_capacity st' = m_capacity st \<and> m_limit st' = m_limit st \<and>
     m_cleanupIndex st' = index_keep (set (m_cache st')) (m_cleanupIndex st)"

lemma erase_entry:
  assumes "storage_ok sha256 st" "index_ok (m_cache st) (m_cleanupIndex st)" "p \<in> set (m_cache st)"
  shows "erased sha256 {p} st (freeEntry p (beforeErase p st))"
proof -
  have d: "distinct (m_cache st)" "m_nPackets st = length (m_cache st)" using assms(1) by (simp_all add: storage_ok_def)
  obtain i where i: "beforeErase p st = st\<lparr>m_cleanupIndex := i\<rparr>" "index_ok (remove1 p (m_cache st)) i"
      "i = NoIndex \<longleftrightarrow> m_cleanupIndex st = NoIndex"
    using beforeErase_ok [OF assms(2) d(1)] by metis
  have "st\<lparr>m_cleanupIndex := i\<rparr> = st\<lparr>m_cleanupIndex := index_keep (set (m_cache st) - {p}) (m_cleanupIndex st)\<rparr>"
    unfolding i(1) [symmetric] by (rule beforeErase_keep [OF assms(2) d(1)])
  then have k: "i = index_keep (set (m_cache st) - {p}) (m_cleanupIndex st)" by (metis ims.select_convs(9) ims.surjective ims.update_convs(9))
  have eq: "freeEntry p (beforeErase p st) = (freeEntry p st)\<lparr>m_cleanupIndex := i\<rparr>" by (simp add: i(1) freeEntry_def)
  have r: "remove1 p (m_cache st) = filter (\<lambda>q. q \<noteq> p) (m_cache st)" using distinct_remove1_removeAll [OF d(1)] by (simp add: removeAll_filter_not_eq eq_commute)
  have "m_nPackets st \<noteq> 0" using d(2) assms(3) by auto
  moreover have "set (filter (\<lambda>q. q \<noteq> p) (m_cache st)) = set (m_cache st) - {p}" by auto
  ultimately show ?thesis using freeEntry_ok [OF assms(1,3)] i(2) unfolding eq erased_def
    by (simp add: r k)
qed

lemma erased_trans:
  assumes "erased sha256 D st t" "erased sha256 E t u"
  shows "erased sha256 (D \<union> E) st u"
proof -
  have "filter (\<lambda>p. p \<notin> E) (filter (\<lambda>p. p \<notin> D) (m_cache st)) = filter (\<lambda>p. p \<notin> D \<union> E) (m_cache st)"
    by (auto intro: filter_cong)
  moreover have "set (m_cache u) \<subseteq> set (m_cache t)" using assms(2) by (auto simp: erased_def)
  ultimately show ?thesis using assms by (auto simp: erased_def index_keep_keep)
qed

lemma erase_loop_erased:
  assumes "storage_ok sha256 st" "index_ok (m_cache st) (m_cleanupIndex st)" "distinct it" "set it \<subseteq> set (m_cache st)"
  shows "erased sha256 (set (takeWhile (\<lambda>p. isPrefixOf n (Entry_getName (ims_entries st p))) it)) st (erase_loop n it st)"
  using assms
proof (induction it arbitrary: st)
  case Nil
  then show ?case by (simp add: erased_def index_keep_all)
next
  case (Cons p ps)
  show ?case
  proof (cases "isPrefixOf n (Entry_getName (ims_entries st p))")
    case True
    let ?t = "freeEntry p (beforeErase p st)"
    have e: "erased sha256 {p} st ?t" using Cons.prems by (intro erase_entry) simp_all
    then have c: "m_cache ?t = filter (\<lambda>q. q \<notin> {p}) (m_cache st)" "\<forall>q \<in> set (m_cache ?t). ims_entries ?t q = ims_entries st q"
        "storage_ok sha256 ?t" "index_ok (m_cache ?t) (m_cleanupIndex ?t)"
      unfolding erased_def by blast+
    have sub: "set ps \<subseteq> set (m_cache ?t)" using Cons.prems unfolding c(1) by auto
    then have same: "takeWhile (\<lambda>q. isPrefixOf n (Entry_getName (ims_entries ?t q))) ps =
        takeWhile (\<lambda>q. isPrefixOf n (Entry_getName (ims_entries st q))) ps"
      using c(2) by (intro takeWhile_cong) auto
    have "erased sha256 (set (takeWhile (\<lambda>q. isPrefixOf n (Entry_getName (ims_entries ?t q))) ps)) ?t (erase_loop n ps ?t)"
      using Cons.prems(3) by (intro Cons.IH c(3,4) sub) simp
    then show ?thesis using erased_trans [OF e] True unfolding same by simp
  next
    case False
    then show ?thesis using Cons.prems by (simp add: erased_def index_keep_all)
  qed
qed

lemma erase_shrink_ok:
  assumes "ims_inv sha256 st" "room_ok st" "m_nPackets st < 2 ^ 63"
  obtains st' where "erase_shrink sha256 tie st = Inr st'" "ims_inv sha256 st'" "room_ok st'" "same_cache st st'"
proof (cases "length (m_freeEntries st) > 2 * m_nPackets st mod 2 ^ 64")
  case True
  then have "length (m_freeEntries st) > 2 * m_nPackets st" using assms(3) by simp
  moreover have "m_nPackets st + length (m_freeEntries st) = m_capacity st" using assms(1) by (simp add: ims_inv_def)
  ultimately have "m_nPackets st \<le> m_capacity st div 2" by linarith
  then have "m_nPackets st \<le> max (m_capacity st div 2) m_initCapacity" by (rule max.coboundedI1)
  then obtain t where t: "setCapacity sha256 tie (m_capacity st div 2) st = Inr t" "ims_inv sha256 t" "same_cache st t"
      "m_capacity t = max (m_capacity st div 2) m_initCapacity"
    using setCapacity_ok [OF assms(1)] by metis
  then have "room_ok t" using assms(2) by (auto simp: room_ok_def same_cache_def)
  then show ?thesis using that t True by (simp add: erase_shrink_def)
next
  case False
  then show ?thesis using that [of st] assms by (simp add: erase_shrink_def)
qed

lemma ims_erase_ok:
  assumes "ims_inv sha256 st" "room_ok st" "m_nPackets st < 2 ^ 63" "name_canon n"
  obtains st' where "ims_erase sha256 tie n isPrefix st = Inr st'" "ims_inv sha256 st'" "room_ok st'"
    "m_cache st' = filter (\<lambda>p. p \<notin> (if isPrefix
        then set (takeWhile (\<lambda>p. isPrefixOf n (Entry_getName (ims_entries st p))) (drop (lower_bound sha256 n st) (m_cache st)))
        else {p. full_key sha256 st p = canonical_keys n})) (m_cache st)"
    "\<And>p. p \<in> set (m_cache st') \<Longrightarrow> ims_entries st' p = ims_entries st p" "m_limit st' = m_limit st"
    "m_cleanupIndex st' = index_keep (set (m_cache st')) (m_cleanupIndex st)"
proof -
  have inv: "storage_ok sha256 st" "index_ok (m_cache st) (m_cleanupIndex st)" "m_nPackets st + length (m_freeEntries st) = m_capacity st"
    "cache_ok sha256 st" "distinct (m_cache st)"
    using assms(1) by (simp_all add: ims_inv_def storage_ok_def)
  note result = that
  have shrink: thesis if "ims_erase sha256 tie n isPrefix st = erase_shrink sha256 tie t" "erased sha256 D st t"
    "filter (\<lambda>p. p \<notin> D) (m_cache st) = filter (\<lambda>p. p \<notin> (if isPrefix
        then set (takeWhile (\<lambda>p. isPrefixOf n (Entry_getName (ims_entries st p))) (drop (lower_bound sha256 n st) (m_cache st)))
        else {p. full_key sha256 st p = canonical_keys n})) (m_cache st)" for D t
  proof -
    have t: "ims_inv sha256 t" "room_ok t" using that(2) inv(3) assms(2) by (auto simp: erased_def ims_inv_def room_ok_def)
    have "m_nPackets t \<le> m_nPackets st"
      using that(2) inv(1) by (auto simp: erased_def storage_ok_def)
    then have "m_nPackets t < 2 ^ 63" using assms(3) by simp
    from erase_shrink_ok [OF t this] obtain u where u: "erase_shrink sha256 tie t = Inr u" "ims_inv sha256 u" "room_ok u" "same_cache t u"
      by metis
    moreover have "m_cache u = filter (\<lambda>p. p \<notin> D) (m_cache st)" "\<forall>p \<in> set (m_cache u). ims_entries u p = ims_entries st p"
      "m_limit u = m_limit st" "m_cleanupIndex u = index_keep (set (m_cache u)) (m_cleanupIndex st)"
      using u(4) that(2) by (auto simp: erased_def same_cache_def)
    ultimately show thesis using result [of u] that(1,3) by simp
  qed
  show thesis
  proof (cases isPrefix)
    case True
    have "set (drop (lower_bound sha256 n st) (m_cache st)) \<subseteq> set (m_cache st)" by (rule set_drop_subset)
    from erase_loop_erased [OF inv(1,2) distinct_drop [OF inv(5)] this, of n] show thesis
      by (rule shrink [rotated]) (simp_all add: ims_erase_def True)
  next
    case False
    show thesis
    proof (cases "cache_find sha256 n st")
      case None
      then have "filter (\<lambda>p. full_key sha256 st p \<noteq> canonical_keys n) (m_cache st) = m_cache st"
        using cache_find_None [OF inv(4) assms(4)] by (simp add: filter_id_conv) (metis image_eqI)
      then show thesis using result [of st] None False assms index_keep_all [OF inv(2)] by (simp add: ims_erase_def)
    next
      case (Some p)
      then have p: "p \<in> set (m_cache st)" "full_key sha256 st p = canonical_keys n" by (simp_all add: cache_find_iff [OF inv(4) assms(4)])
      have "q \<noteq> p \<longleftrightarrow> full_key sha256 st q \<noteq> canonical_keys n" if "q \<in> set (m_cache st)" for q
        using inj_onD [OF full_key_inj [OF inv(4)] _ that p(1)] p(2) by auto
      then have "filter (\<lambda>q. q \<notin> {p}) (m_cache st) = filter (\<lambda>q. full_key sha256 st q \<noteq> canonical_keys n) (m_cache st)"
        by (auto intro: filter_cong)
      then show thesis using shrink [OF _ erase_entry [OF inv(1,2) p(1)]] False Some by (simp add: ims_erase_def)
    qed
  qed
qed

text \<open>
  Names that extend a prefix are neighbours in the cache, so the loop of \<open>erase\<close> finds them all, unless
  the prefix is itself the full name of a packet.
\<close>

lemma prefix_of_full_name:
  assumes "cache_ok sha256 st" "\<And>x. length (sha256 x) = 32" "name_canon n" "p \<in> set (m_cache st)" "full_key sha256 st p \<noteq> canonical_keys n"
  shows "isPrefixOf n (Entry_getName (ims_entries st p)) \<longleftrightarrow> prefix (canonical_keys n) (full_key sha256 st p)"
proof -
  note e = entry_ok_parts [OF cache_okD(1) [OF assms(1,4)] assms(2)]
  have full: "name_view (getFullName sha256 st p) = name_view (Entry_getName (ims_entries st p)) @ [view (digest_component sha256 (Entry_getData (ims_entries st p)))]"
    using e(3) by (simp add: getFullName_def Entry_getName_def full_name_view)
  have ne: "name_view (getFullName sha256 st p) \<noteq> name_view n" using assms(5) by (auto simp: full_key_def canonical_keys_def)
  have "isPrefixOf n (Entry_getName (ims_entries st p)) \<longleftrightarrow> prefix (name_view n) (name_view (Entry_getName (ims_entries st p)))"
    using isPrefixOf_prefix [OF name_canon_wf [OF assms(3)] e(4)] by (simp add: Entry_getName_def)
  also have "\<dots> \<longleftrightarrow> prefix (name_view n) (name_view (getFullName sha256 st p))"
    using ne unfolding full prefix_snoc by auto
  also have "\<dots> \<longleftrightarrow> prefix (canonical_keys n) (full_key sha256 st p)"
    unfolding full_key_def canonical_keys_def by (rule prefix_map_inj [symmetric]) (simp add: inj_def canonical_key_inject)
  finally show ?thesis .
qed

lemma takeWhile_filter_initial:
  assumes "sorted_wrt R xs" "\<And>x y. x \<in> set xs \<Longrightarrow> y \<in> set xs \<Longrightarrow> R x y \<Longrightarrow> P y \<Longrightarrow> P x"
  shows "takeWhile P xs = filter P xs"
  using assms
proof (induction xs)
  case (Cons x xs)
  show ?case
  proof (cases "P x")
    case True
    have "takeWhile P xs = filter P xs"
    proof (rule Cons.IH)
      show "sorted_wrt R xs" using Cons.prems(1) by simp
    qed (rule Cons.prems(2), simp_all)
    then show ?thesis using True by simp
  next
    case False
    then have "\<forall>y \<in> set xs. \<not> P y" using Cons.prems by auto
    then show ?thesis using False by (simp add: filter_empty_conv)
  qed
qed simp

lemma erase_prefix_set:
  assumes "cache_ok sha256 st" "\<And>x. length (sha256 x) = 32" "name_canon n" "canonical_keys n \<notin> full_key sha256 st ` set (m_cache st)"
  shows "set (takeWhile (\<lambda>p. isPrefixOf n (Entry_getName (ims_entries st p))) (drop (lower_bound sha256 n st) (m_cache st))) =
    {p \<in> set (m_cache st). isPrefixOf n (Entry_getName (ims_entries st p))}"
proof -
  let ?P = "\<lambda>p. isPrefixOf n (Entry_getName (ims_entries st p))" and ?xs = "filter (\<lambda>p. canonical_keys n \<le> full_key sha256 st p) (m_cache st)"
  have pre: "?P p \<longleftrightarrow> prefix (canonical_keys n) (full_key sha256 st p)" if "p \<in> set (m_cache st)" for p
    using prefix_of_full_name [OF assms(1-3) that] assms(4) that by (metis image_eqI)
  have "takeWhile ?P ?xs = filter ?P ?xs"
  proof (rule takeWhile_filter_initial)
    show "sorted_wrt (\<lambda>p q. full_key sha256 st p < full_key sha256 st q) ?xs" by (rule sorted_wrt_filter [OF cache_okD(3) [OF assms(1)]])
  next
    fix x y assume "x \<in> set ?xs" "y \<in> set ?xs" "full_key sha256 st x < full_key sha256 st y" "?P y"
    then show "?P x" using prefix_between [of "canonical_keys n" "full_key sha256 st x" "full_key sha256 st y"] pre by simp
  qed
  then show ?thesis unfolding lower_bound_drop [OF assms(1,3)] using pre prefix_le by auto
qed

lemma erase_full_name_stops:
  assumes "cache_ok sha256 st" "\<And>x. length (sha256 x) = 32" "name_canon n" "canonical_keys n \<in> full_key sha256 st ` set (m_cache st)"
  shows "takeWhile (\<lambda>p. isPrefixOf n (Entry_getName (ims_entries st p))) (drop (lower_bound sha256 n st) (m_cache st)) = []"
proof (cases "drop (lower_bound sha256 n st) (m_cache st)")
  case (Cons x xs)
  note h = sorted_filter_hd [OF cache_okD(3) [OF assms(1)] Cons [unfolded lower_bound_drop [OF assms(1,3)]]]
  then have key: "full_key sha256 st x = canonical_keys n" using assms(4) by fastforce
  note e = entry_ok_parts [OF cache_okD(1) [OF assms(1)] assms(2), of x]
  have "name_view n = name_view (getFullName sha256 st x)" using key by (simp add: full_key_def canonical_keys_inject)
  then have "name_view n = name_view (Entry_getName (ims_entries st x)) @ [view (digest_component sha256 (Entry_getData (ims_entries st x)))]"
    using h e(3) by (simp add: getFullName_def full_name_view Entry_getName_def)
  then have "Name_size n = Suc (Name_size (Entry_getName (ims_entries st x)))"
    unfolding length_name_view [symmetric] by simp
  then have "\<not> isPrefixOf n (Entry_getName (ims_entries st x))" by (simp add: isPrefixOf_def)
  then show ?thesis using Cons by simp
qed simp

section \<open>New storages, events and insertion\<close>

lemma make_ok:
  "ims_inv sha256 (ims_make index scheduler limit) \<and>
   m_capacity (ims_make index scheduler limit) = (if limit \<noteq> size_max \<and> m_initCapacity > limit then limit else m_initCapacity) \<and>
   m_cache (ims_make index scheduler limit) = [] \<and> m_limit (ims_make index scheduler limit) = limit \<and>
   m_cleanupIndex (ims_make index scheduler limit) = index"
  if "index_entries index = []"
proof -
  let ?c = "if limit \<noteq> size_max \<and> m_initCapacity > limit then limit else m_initCapacity"
  let ?st = "\<lparr>ims_entries = \<lambda>_. InMemoryStorageEntry_make, ims_next = 0, m_cache = [], m_limit = limit,
         m_capacity = ?c, m_nPackets = 0, m_freeEntries = [], m_scheduler = scheduler, m_cleanupIndex = index\<rparr>"
  have "storage_ok sha256 ?st" by (simp add: storage_ok_def cache_ok_def)
  from push_entries [OF this, of ?c] show ?thesis using that
    by (simp add: ims_make_def Let_def ims_inv_def same_cache_def index_ok_def)
qed

lemma runEvent_data [simp]: "m_dataPacket (Entry_runEvent now e) = m_dataPacket e"
  by (simp add: Entry_runEvent_def split: option.split)

lemma runEvent_getData [simp]: "Entry_getData (Entry_runEvent now e) = Entry_getData e"
  by (simp add: Entry_getData_def)

lemma runEvents_ok: "ims_inv sha256 st \<Longrightarrow> ims_inv sha256 (ims_runEvents now st)"
  by (simp add: ims_inv_def storage_ok_def cache_ok_def ims_runEvents_def full_key_def getFullName_def entry_ok_def
      Entry_getFullName_def)

text \<open>What \<open>insert\<close> does with a packet that is not stored yet, when there is room for it in the pool.\<close>

lemma insert_in_pool:
  assumes "ims_inv sha256 t" "make_room sha256 tie st = Inr t" "m_freeEntries t \<noteq> []" "storable sha256 d" "\<And>x. length (sha256 x) = 32"
    and "cache_ok sha256 st" "canonical_keys (full_name sha256 d) \<notin> full_key sha256 st ` set (m_cache st)"
    and "canonical_keys (full_name sha256 d) \<notin> full_key sha256 t ` set (m_cache t)"
  obtains p ps e k i where "m_freeEntries t = p # ps" "e = filled_entry now window (as_stored sha256 d) (m_scheduler t) (ims_entries t p)"
    "ims_insert sha256 tie now window d st = Inr ((with_entry p ps e k t)\<lparr>m_cleanupIndex := i\<rparr>)"
    "ims_inv sha256 ((with_entry p ps e k t)\<lparr>m_cleanupIndex := i\<rparr>)"
    "afterInsert p (with_entry p ps e k t) = Inr ((with_entry p ps e k t)\<lparr>m_cleanupIndex := i\<rparr>)"
    "p \<notin> set (m_cache t)" "i = NoIndex \<longleftrightarrow> m_cleanupIndex t = NoIndex"
proof -
  obtain p ps where f: "m_freeEntries t = p # ps" using assms(3) by (cases "m_freeEntries t") auto
  have canon: "name_canon (full_name sha256 d)" using assms(4) by (simp add: storable_def)
  define e where "e = filled_entry now window (as_stored sha256 d) (m_scheduler t) (ims_entries t p)"
  obtain k i where ki: "place_entry sha256 now window (as_stored sha256 d) t = Inr ((with_entry p ps e k t)\<lparr>m_cleanupIndex := i\<rparr>)"
    "ims_inv sha256 ((with_entry p ps e k t)\<lparr>m_cleanupIndex := i\<rparr>)"
    "afterInsert p (with_entry p ps e k t) = Inr ((with_entry p ps e k t)\<lparr>m_cleanupIndex := i\<rparr>)"
    "p \<notin> set (m_cache t)" "i = NoIndex \<longleftrightarrow> m_cleanupIndex t = NoIndex"
    by (rule place_entry_ok [OF assms(1) f assms(4,5,8) e_def]) blast
  have "ims_insert sha256 tie now window d st = Inr ((with_entry p ps e k t)\<lparr>m_cleanupIndex := i\<rparr>)"
    unfolding ims_insert_steps [OF storable_fullName(1) [OF assms(4,5)]]
    using cache_find_None [OF assms(6) canon] assms(2,7) ki(1) by simp
  from that [OF f e_def this ki(2-5)] show thesis .
qed

lemma ims_insert_ok:
  assumes "ims_inv sha256 st" "room_ok st" "m_nPackets st < 2 ^ 63" "storable sha256 d" "\<And>x. length (sha256 x) = 32"
    and "canonical_keys (full_name sha256 d) \<notin> full_key sha256 st ` set (m_cache st)"
  obtains p ps e k i t where "make_room sha256 tie st = Inr t"
    "if m_nPackets st < m_limit st then same_cache st t
     else \<exists>q j. evictItem sha256 tie st = (True, t) \<and> t = (freeEntry q st)\<lparr>m_cleanupIndex := j\<rparr> \<and> q \<in> set (m_cache st)"
    "e = filled_entry now window (as_stored sha256 d) (m_scheduler t) (ims_entries t p)"
    "ims_insert sha256 tie now window d st = Inr ((with_entry p ps e k t)\<lparr>m_cleanupIndex := i\<rparr>)"
    "ims_inv sha256 ((with_entry p ps e k t)\<lparr>m_cleanupIndex := i\<rparr>)" "room_ok ((with_entry p ps e k t)\<lparr>m_cleanupIndex := i\<rparr>)"
    "afterInsert p (with_entry p ps e k t) = Inr ((with_entry p ps e k t)\<lparr>m_cleanupIndex := i\<rparr>)" "p \<notin> set (m_cache t)"
proof -
  obtain t where t: "make_room sha256 tie st = Inr t" "ims_inv sha256 t" "room_ok t" "m_freeEntries t \<noteq> []"
    "m_limit t = m_limit st" "m_scheduler t = m_scheduler st"
    "if m_nPackets st < m_limit st then same_cache st t
     else \<exists>p i. evictItem sha256 tie st = (True, t) \<and> t = (freeEntry p st)\<lparr>m_cleanupIndex := i\<rparr> \<and> p \<in> set (m_cache st)"
    by (rule make_room_ok [OF assms(1-3)]) blast
  have c: "cache_ok sha256 st" "distinct (m_cache st)" using assms(1) by (simp_all add: ims_inv_def storage_ok_def)
  have "set (m_cache t) \<subseteq> set (m_cache st) \<and> (\<forall>p \<in> set (m_cache t). ims_entries t p = ims_entries st p)"
    using t(7) c(2) by (auto simp: same_cache_def split: if_splits)
  then have new: "canonical_keys (full_name sha256 d) \<notin> full_key sha256 t ` set (m_cache t)"
    using assms(6) by (auto simp: full_key_def getFullName_def)
  obtain p ps e k i where "m_freeEntries t = p # ps" and p: "e = filled_entry now window (as_stored sha256 d) (m_scheduler t) (ims_entries t p)"
    "ims_insert sha256 tie now window d st = Inr ((with_entry p ps e k t)\<lparr>m_cleanupIndex := i\<rparr>)"
    "ims_inv sha256 ((with_entry p ps e k t)\<lparr>m_cleanupIndex := i\<rparr>)"
    "afterInsert p (with_entry p ps e k t) = Inr ((with_entry p ps e k t)\<lparr>m_cleanupIndex := i\<rparr>)"
    "p \<notin> set (m_cache t)" "i = NoIndex \<longleftrightarrow> m_cleanupIndex t = NoIndex"
    by (rule insert_in_pool [OF t(2,1,4) assms(4,5) c(1) assms(6) new]) blast
  moreover have "room_ok ((with_entry p ps e k t)\<lparr>m_cleanupIndex := i\<rparr>)" using t(3) p(6) by (simp add: room_ok_def)
  ultimately show thesis using that t(1,7) by blast
qed

end
