(* ===== verification/InMemoryStorageProps.thy ===== *)
theory InMemoryStorageProps
  imports InMemoryStorageErase
begin

text \<open>
  The properties of the in-memory storage, for storages that can be reached from a new one by
  any sequence of calls and events.
\<close>

section \<open>Reachable storages\<close>

inductive ims_reachable ::
    "(byte list \<Rightarrow> byte list) \<Rightarrow> ((nat \<times> uint64) list \<Rightarrow> nat) \<Rightarrow> ims \<Rightarrow> bool" for sha256 tie where
  make: "index \<in> {ByArrival [], ByUsedTime [], ByFrequency []} \<Longrightarrow> m_initCapacity \<le> limit \<Longrightarrow>
    ims_reachable sha256 tie (ims_make index scheduler limit)"
| persistent: "ims_reachable sha256 tie (InMemoryStoragePersistent scheduler)"
| insert: "ims_reachable sha256 tie st \<Longrightarrow> m_nPackets st < 2 ^ 63 \<Longrightarrow> storable sha256 d \<Longrightarrow>
    ims_insert sha256 tie now window d st = Inr st' \<Longrightarrow> ims_reachable sha256 tie st'"
| findName: "ims_reachable sha256 tie st \<Longrightarrow> name_canon n \<Longrightarrow> ims_findName sha256 n st = Inr (r, st') \<Longrightarrow> ims_reachable sha256 tie st'"
| findInterest: "ims_reachable sha256 tie st \<Longrightarrow> name_canon (i_name i) \<Longrightarrow> ims_findInterest sha256 i st = Inr (r, st') \<Longrightarrow>
    ims_reachable sha256 tie st'"
| erase: "ims_reachable sha256 tie st \<Longrightarrow> m_nPackets st < 2 ^ 63 \<Longrightarrow> name_canon n \<Longrightarrow>
    ims_erase sha256 tie n isPrefix st = Inr st' \<Longrightarrow> ims_reachable sha256 tie st'"
| runEvents: "ims_reachable sha256 tie st \<Longrightarrow> ims_reachable sha256 tie (ims_runEvents now st)"

definition ims_good :: "(byte list \<Rightarrow> byte list) \<Rightarrow> ims \<Rightarrow> bool" where
  "ims_good sha256 st \<longleftrightarrow> ims_inv sha256 st \<and> room_ok st"

lemma ims_good_index:
  "ims_good sha256 st \<Longrightarrow> ims_inv sha256 (st\<lparr>m_cleanupIndex := i\<rparr>) \<Longrightarrow> i = NoIndex \<longleftrightarrow> m_cleanupIndex st = NoIndex \<Longrightarrow>
   ims_good sha256 (st\<lparr>m_cleanupIndex := i\<rparr>)"
  by (simp add: ims_good_def room_ok_def)

lemma findName_good:
  assumes "ims_good sha256 st" "name_canon n"
  shows "\<exists>r st'. ims_findName sha256 n st = Inr (r, st') \<and> ims_good sha256 st'"
  using findName_ok [of sha256 st n] assms ims_good_index [OF assms(1)]
  by (auto simp: ims_good_def split: option.splits)

lemma findInterest_good:
  assumes "ims_good sha256 st" "\<And>x. length (sha256 x) = 32" "name_canon (i_name i)"
  shows "\<exists>r st'. ims_findInterest sha256 i st = Inr (r, st') \<and> ims_good sha256 st'"
proof -
  have inv: "ims_inv sha256 st" using assms(1) by (simp add: ims_good_def)
  show ?thesis using findInterest_ok [OF inv assms(2,3)] ims_good_index [OF assms(1)] assms(1)
    by (auto split: option.splits)
qed

lemma insert_stored:
  assumes "ims_inv sha256 st" "storable sha256 d" "\<And>x. length (sha256 x) = 32"
    and "canonical_keys (full_name sha256 d) \<in> full_key sha256 st ` set (m_cache st)"
  shows "ims_insert sha256 tie now window d st = Inr st"
proof -
  have "cache_ok sha256 st" "name_canon (full_name sha256 d)" using assms(1,2) by (simp_all add: ims_inv_def storage_ok_def storable_def)
  from cache_find_None [OF this] assms(4) show ?thesis
    unfolding ims_insert_steps [OF storable_fullName(1) [OF assms(2,3)]] by simp
qed

lemma insert_good:
  assumes "ims_good sha256 st" "m_nPackets st < 2 ^ 63" "storable sha256 d" "\<And>x. length (sha256 x) = 32"
  shows "\<exists>st'. ims_insert sha256 tie now window d st = Inr st' \<and> ims_good sha256 st'"
proof (cases "canonical_keys (full_name sha256 d) \<in> full_key sha256 st ` set (m_cache st)")
  case True
  then show ?thesis using insert_stored [OF _ assms(3,4) True] assms(1) by (simp add: ims_good_def)
next
  case False
  have "ims_inv sha256 st" "room_ok st" using assms(1) by (simp_all add: ims_good_def)
  from ims_insert_ok [OF this assms(2-4) False, of tie now window] show ?thesis by (metis ims_good_def)
qed

lemma erase_good:
  assumes "ims_good sha256 st" "m_nPackets st < 2 ^ 63" "name_canon n"
  shows "\<exists>st'. ims_erase sha256 tie n isPrefix st = Inr st' \<and> ims_good sha256 st'"
proof -
  have "ims_inv sha256 st" "room_ok st" using assms(1) by (simp_all add: ims_good_def)
  from ims_erase_ok [OF this assms(2,3), of tie isPrefix] show ?thesis by (metis ims_good_def)
qed

lemma make_good: "index_entries index = [] \<Longrightarrow> m_initCapacity \<le> limit \<Longrightarrow> index = NoIndex \<longrightarrow> limit = size_max \<Longrightarrow>
    ims_good sha256 (ims_make index scheduler limit)"
  using make_ok [of index sha256 scheduler limit] by (auto simp: ims_good_def room_ok_def)

lemma ims_reachable_good:
  assumes "ims_reachable sha256 tie st" "\<And>x. length (sha256 x) = 32"
  shows "ims_good sha256 st"
  using assms(1)
proof (induction rule: ims_reachable.induct)
  case (make index limit scheduler)
  then show ?case by (intro make_good) (auto simp: index_entries_def)
next
  case (persistent scheduler)
  then show ?case unfolding InMemoryStoragePersistent_def
    by (intro make_good) (simp_all add: index_entries_def m_initCapacity_def size_max_def)
next
  case (insert st d now window st')
  then show ?case using insert_good [OF insert.IH insert.hyps(2,3) assms(2), of tie now window] by auto
next
  case (findName st n r st')
  then show ?case using findName_good by fastforce
next
  case (findInterest st i r st')
  then show ?case using findInterest_good [OF findInterest.IH assms(2) findInterest.hyps(2)] by auto
next
  case (erase st n isPrefix st')
  then show ?case using erase_good [OF erase.IH erase.hyps(2,3), of tie isPrefix] by auto
next
  case (runEvents st now)
  then show ?case using runEvents_ok by (auto simp: ims_good_def room_ok_def ims_runEvents_def)
qed

section \<open>Contents\<close>

definition packet_at :: "ims \<Rightarrow> nat \<Rightarrow> data" where
  "packet_at st p = Entry_getData (ims_entries st p)"

definition ims_packets :: "ims \<Rightarrow> data list" where
  "ims_packets st = map (packet_at st) (m_cache st)"

definition is_stored :: "(byte list \<Rightarrow> byte list) \<Rightarrow> (uint32 \<times> byte list) list \<Rightarrow> ims \<Rightarrow> bool" where
  "is_stored sha256 v st \<longleftrightarrow> (\<exists>d \<in> set (ims_packets st). name_view (full_name sha256 d) = v)"

lemma ims_goodD:
  assumes "ims_good sha256 st"
  shows "ims_inv sha256 st" "room_ok st" "cache_ok sha256 st" "distinct (m_cache st)" "m_nPackets st = length (m_cache st)"
    "storage_ok sha256 st" "index_ok (m_cache st) (m_cleanupIndex st)"
  using assms by (simp_all add: ims_good_def ims_inv_def storage_ok_def)

lemma cached_full_name:
  assumes "cache_ok sha256 st" "\<And>x. length (sha256 x) = 32" "p \<in> set (m_cache st)"
  shows "getFullName sha256 st p = full_name sha256 (packet_at st p)" "full_key sha256 st p = canonical_keys (full_name sha256 (packet_at st p))"
  using entry_ok_parts(3) [OF cache_okD(1) [OF assms(1,3)] assms(2)] by (simp_all add: getFullName_def full_key_def packet_at_def)

lemma is_stored_key:
  assumes "cache_ok sha256 st" "\<And>x. length (sha256 x) = 32"
  shows "is_stored sha256 (name_view n) st \<longleftrightarrow> canonical_keys n \<in> full_key sha256 st ` set (m_cache st)"
  unfolding is_stored_def ims_packets_def image_iff using cached_full_name(2) [OF assms] canonical_keys_inject by fastforce

lemma packet_at_inj:
  assumes "cache_ok sha256 st" "\<And>x. length (sha256 x) = 32"
  shows "inj_on (packet_at st) (set (m_cache st))"
  using full_key_inj [OF assms(1)] cached_full_name(2) [OF assms] by (metis inj_on_def)

lemma packet_as_stored:
  assumes "cache_ok sha256 st" "\<And>x. length (sha256 x) = 32" "p \<in> set (m_cache st)"
  shows "as_stored sha256 (packet_at st p) = packet_at st p"
proof -
  have "d_fullName (packet_at st p) = full_name sha256 (packet_at st p)"
    using entry_ok_fullName(1) [OF cache_okD(1) [OF assms(1,3)]] cached_full_name(1) [OF assms] by (simp add: getFullName_def packet_at_def)
  then show ?thesis by (simp add: as_stored_def)
qed

text \<open>Insertion of a new packet, in terms of entries: the entry \<open>p\<close> comes from the pool, and if the storage is full \<open>v\<close> leaves.\<close>

lemma insert_entries:
  assumes "ims_good sha256 st" "m_nPackets st < 2 ^ 63" "storable sha256 d" "\<And>x. length (sha256 x) = 32"
    and "\<not> is_stored sha256 (name_view (full_name sha256 d)) st"
  obtains p t u i where "ims_insert sha256 tie now window d st = Inr (u\<lparr>m_cleanupIndex := i\<rparr>)" "afterInsert p u = Inr (u\<lparr>m_cleanupIndex := i\<rparr>)"
    "if m_nPackets st < m_limit st then same_cache st t
     else \<exists>q j. evictItem sha256 tie st = (True, t) \<and> t = (freeEntry q st)\<lparr>m_cleanupIndex := j\<rparr> \<and> q \<in> set (m_cache st)"
    "p \<notin> set (m_cache t)" "set (m_cache u) = insert p (set (m_cache t))" "m_cleanupIndex u = m_cleanupIndex t"
    "packet_at u p = as_stored sha256 d" "\<And>q. q \<in> set (m_cache t) \<Longrightarrow> packet_at u q = packet_at st q"
    "set (m_cache t) \<subseteq> set (m_cache st)" "m_nPackets u = Suc (m_nPackets t)" "ims_good sha256 (u\<lparr>m_cleanupIndex := i\<rparr>)"
    "m_limit u = m_limit st" "m_nPackets t \<le> m_nPackets st"
proof -
  note g = ims_goodD [OF assms(1)]
  have new: "canonical_keys (full_name sha256 d) \<notin> full_key sha256 st ` set (m_cache st)"
    using assms(5) is_stored_key [OF g(3) assms(4)] by simp
  obtain p ps e k i t where t: "make_room sha256 tie st = Inr t"
    "if m_nPackets st < m_limit st then same_cache st t
     else \<exists>q j. evictItem sha256 tie st = (True, t) \<and> t = (freeEntry q st)\<lparr>m_cleanupIndex := j\<rparr> \<and> q \<in> set (m_cache st)"
    "e = filled_entry now window (as_stored sha256 d) (m_scheduler t) (ims_entries t p)"
    "ims_insert sha256 tie now window d st = Inr ((with_entry p ps e k t)\<lparr>m_cleanupIndex := i\<rparr>)"
    "ims_inv sha256 ((with_entry p ps e k t)\<lparr>m_cleanupIndex := i\<rparr>)" "room_ok ((with_entry p ps e k t)\<lparr>m_cleanupIndex := i\<rparr>)"
    "afterInsert p (with_entry p ps e k t) = Inr ((with_entry p ps e k t)\<lparr>m_cleanupIndex := i\<rparr>)" "p \<notin> set (m_cache t)"
    by (rule ims_insert_ok [OF g(1,2) assms(2-4) new]) blast
  have sub: "set (m_cache t) \<subseteq> set (m_cache st)" "\<forall>q \<in> set (m_cache t). ims_entries t q = ims_entries st q"
    using t(2) g(4) by (auto simp: same_cache_def split: if_splits)
  have e: "packet_at (with_entry p ps e k t) p = as_stored sha256 d"
    using filled_entry_ok(2) [OF assms(3,4)] t(3) by (simp add: packet_at_def)
  have "packet_at (with_entry p ps e k t) q = packet_at st q" if "q \<in> set (m_cache t)" for q
    using that t(8) sub(2) by (auto simp: packet_at_def)
  moreover have "m_limit t = m_limit st" "m_nPackets t \<le> m_nPackets st"
    using t(2) by (auto simp: same_cache_def freeEntry_def split: if_splits)
  ultimately show thesis using e t sub(1) by (intro that [where u = "with_entry p ps e k t" and i = i and p = p and t = t]) (simp_all add: ims_good_def)
qed

section \<open>Replacement queues\<close>

lemma map_remove1_inj: "inj_on f (insert x (set xs)) \<Longrightarrow> map f (remove1 x xs) = remove1 (f x) (map f xs)"
  by (induction xs) (auto simp: inj_on_def)

text \<open>The packets in the order in which a storage with a queue (first in first out, or least recently used) will replace them.\<close>

definition ims_queue :: "ims \<Rightarrow> data list" where
  "ims_queue st = map (packet_at st) (index_entries (m_cleanupIndex st))"

text \<open>The abstract queue: a new packet goes to the end, and if there is no room the first one leaves.\<close>

definition queue_insert :: "nat \<Rightarrow> 'a \<Rightarrow> 'a list \<Rightarrow> 'a list" where
  "queue_insert limit x q = (if length q < limit then q else tl q) @ [x]"

definition queue_use :: "'a \<Rightarrow> 'a list \<Rightarrow> 'a list" where
  "queue_use x q = remove1 x q @ [x]"

lemma queue_index:
  assumes "index_ok cache (mk q)" "mk = ByArrival \<or> mk = ByUsedTime"
  shows "distinct q" "set q = set cache"
  using assms(2,1) by (elim disjE; simp add: index_ok_def index_entries_def)+

lemma queue_length: "ims_good sha256 st \<Longrightarrow> m_cleanupIndex st \<noteq> NoIndex \<Longrightarrow> length (ims_queue st) = m_nPackets st"
  using ims_goodD(4,5,7) [of sha256 st] distinct_card [of "m_cache st"] distinct_card [of "index_entries (m_cleanupIndex st)"]
  by (auto simp: ims_queue_def index_ok_def)

lemma evict_first:
  assumes "ims_good sha256 st" "m_cleanupIndex st = mk q" "mk = ByArrival \<or> mk = ByUsedTime" "m_cache st \<noteq> []"
  shows "evictItem sha256 tie st = (True, (freeEntry (hd q) st)\<lparr>m_cleanupIndex := mk (tl q)\<rparr>) \<and> q \<noteq> []"
proof -
  note g = ims_goodD [OF assms(1)]
  have idx: "index_ok (m_cache st) (mk q)" using g(7) assms(2) by simp
  have ne: "q \<noteq> []" using queue_index(2) [OF idx assms(3)] assms(4) by auto
  have tl: "remove1 (hd q) q = tl q" using ne by (cases q) simp_all
  from assms(3) show ?thesis
  proof
    assume mk: "mk = ByArrival"
    note e = fifo.evict_ok [OF g(6) assms(2) [unfolded mk] idx [unfolded mk] assms(4), of tie]
    show ?thesis unfolding mk using e ne tl by simp
  next
    assume mk: "mk = ByUsedTime"
    note e = lru.evict_ok [OF g(6) assms(2) [unfolded mk] idx [unfolded mk] assms(4), of tie]
    show ?thesis unfolding mk using e ne tl by simp
  qed
qed

lemma insert_queue:
  assumes "ims_good sha256 st" "m_nPackets st < 2 ^ 63" "storable sha256 d" "\<And>x. length (sha256 x) = 32"
    and "\<not> is_stored sha256 (name_view (full_name sha256 d)) st" "m_cleanupIndex st = mk q" "mk = ByArrival \<or> mk = ByUsedTime"
  shows "\<exists>st'. ims_insert sha256 tie now window d st = Inr st' \<and>
    ims_queue st' = queue_insert (m_limit st) (as_stored sha256 d) (ims_queue st) \<and> (\<exists>q'. m_cleanupIndex st' = mk q')"
proof -
  note g = ims_goodD [OF assms(1)]
  have q: "distinct q" "set q = set (m_cache st)" using queue_index [of "m_cache st" mk q] g(7) assms(6,7) by simp_all
  have entries: "index_entries (mk q') = q'" for q' using assms(7) by (elim disjE) (simp_all add: index_entries_def)
  have len: "length q = m_nPackets st" using distinct_card [OF q(1)] distinct_card [OF g(4)] q(2) g(5) by simp
  obtain p u i and t :: ims where u: "ims_insert sha256 tie now window d st = Inr (u\<lparr>m_cleanupIndex := i\<rparr>)"
    "afterInsert p u = Inr (u\<lparr>m_cleanupIndex := i\<rparr>)"
    "if m_nPackets st < m_limit st then same_cache st t
     else \<exists>q j. evictItem sha256 tie st = (True, t) \<and> t = (freeEntry q st)\<lparr>m_cleanupIndex := j\<rparr> \<and> q \<in> set (m_cache st)"
    "p \<notin> set (m_cache t)" "m_cleanupIndex u = m_cleanupIndex t" "packet_at u p = as_stored sha256 d"
    "\<And>q. q \<in> set (m_cache t) \<Longrightarrow> packet_at u q = packet_at st q" "m_nPackets u = Suc (m_nPackets t)"
    by (rule insert_entries [OF assms(1-5), of tie now window]) blast
  define q' where "q' = (if length q < m_limit st then q else tl q)"
  have t: "m_cleanupIndex t = mk q' \<and> set q' = set (m_cache t) \<and> m_nPackets t \<ge> length q'"
  proof (cases "m_nPackets st < m_limit st")
    case True
    then show ?thesis using u(3) assms(6) q len by (simp add: same_cache_def q'_def)
  next
    case False
    then have e: "evictItem sha256 tie st = (True, t)" "m_cache st \<noteq> []" using u(3) by auto
    have "t = (freeEntry (hd q) st)\<lparr>m_cleanupIndex := mk (tl q)\<rparr>" "q \<noteq> []"
      using evict_first [OF assms(1,6,7) e(2), of tie] e(1) by auto
    then show ?thesis using False len g(4) q(1,2) by (cases q) (auto simp: q'_def)
  qed
  have "afterInsert p u = Inr (u\<lparr>m_cleanupIndex := mk (q' @ [p])\<rparr>)"
    using assms(7) t u(4,5,8)
    by (elim disjE) (simp_all add: afterInsert_def Fifo_afterInsert_def Lru_afterInsert_def sequence_insert_def)
  then have i: "u\<lparr>m_cleanupIndex := i\<rparr> = u\<lparr>m_cleanupIndex := mk (q' @ [p])\<rparr>" using u(2) by simp
  have "ims_queue (u\<lparr>m_cleanupIndex := i\<rparr>) = map (packet_at u) (q' @ [p])" unfolding i by (simp add: ims_queue_def entries packet_at_def)
  also have "\<dots> = map (packet_at st) q' @ [as_stored sha256 d]" using u(6,7) t by simp
  also have "\<dots> = queue_insert (m_limit st) (as_stored sha256 d) (ims_queue st)"
    by (simp add: queue_insert_def q'_def ims_queue_def assms(6) entries map_tl)
  finally have "ims_queue (u\<lparr>m_cleanupIndex := i\<rparr>) = queue_insert (m_limit st) (as_stored sha256 d) (ims_queue st)" .
  moreover have "m_cleanupIndex (u\<lparr>m_cleanupIndex := i\<rparr>) = mk (q' @ [p])" unfolding i by simp
  ultimately show ?thesis using u(1) by blast
qed

section \<open>Sequences of insertions\<close>

fun insert_all ::
    "(byte list \<Rightarrow> byte list) \<Rightarrow> ((nat \<times> uint64) list \<Rightarrow> nat) \<Rightarrow> data list \<Rightarrow> ims \<Rightarrow> ims result" where
  "insert_all sha256 tie [] st = Inr st"
| "insert_all sha256 tie (d # ds) st = bindE (ims_insert sha256 tie 0 0 d st) (insert_all sha256 tie ds)"

abbreviation full_view :: "(byte list \<Rightarrow> byte list) \<Rightarrow> data \<Rightarrow> (uint32 \<times> byte list) list" where
  "full_view sha256 d \<equiv> name_view (full_name sha256 d)"

definition same_kind :: "cleanup_index \<Rightarrow> cleanup_index \<Rightarrow> bool" where
  "same_kind i j = (case i of NoIndex \<Rightarrow> j = NoIndex
    | ByArrival _ \<Rightarrow> (case j of ByArrival _ \<Rightarrow> True | _ \<Rightarrow> False)
    | ByUsedTime _ \<Rightarrow> (case j of ByUsedTime _ \<Rightarrow> True | _ \<Rightarrow> False)
    | ByFrequency _ \<Rightarrow> (case j of ByFrequency _ \<Rightarrow> True | _ \<Rightarrow> False))"

lemma same_kind_trans: "same_kind i j \<Longrightarrow> same_kind j k \<Longrightarrow> same_kind i k"
  by (auto simp: same_kind_def split: cleanup_index.splits)

lemma same_kind_refl [simp]: "same_kind i i"
  by (simp add: same_kind_def split: cleanup_index.split)

lemma afterInsert_kind: "afterInsert p st = Inr st' \<Longrightarrow> same_kind (m_cleanupIndex st) (m_cleanupIndex st')"
  by (auto simp: same_kind_def afterInsert_def Fifo_afterInsert_def Lru_afterInsert_def Lfu_afterInsert_def
      split: cleanup_index.splits if_split_asm)

text \<open>Insertion while the pool has entries, whatever the limit is.\<close>

lemma insert_while_room:
  assumes "ims_inv sha256 st" "storable sha256 d" "\<And>x. length (sha256 x) = 32" "\<not> is_stored sha256 (full_view sha256 d) st"
    and "m_nPackets st < m_capacity st"
  obtains st' where "ims_insert sha256 tie now window d st = Inr st'" "ims_inv sha256 st'" "m_nPackets st' = Suc (m_nPackets st)"
    "m_capacity st' = m_capacity st" "m_limit st' = m_limit st" "same_kind (m_cleanupIndex st) (m_cleanupIndex st')"
    "\<And>v. is_stored sha256 v st' \<longleftrightarrow> v = full_view sha256 d \<or> is_stored sha256 v st"
proof -
  have c: "cache_ok sha256 st" using assms(1) by (simp add: ims_inv_def storage_ok_def)
  have new: "canonical_keys (full_name sha256 d) \<notin> full_key sha256 st ` set (m_cache st)"
    using assms(4) is_stored_key [OF c assms(3)] by simp
  have room: "make_room sha256 tie st = Inr st" using assms(5) by (simp add: make_room_def ims_isFull_def)
  have free: "m_freeEntries st \<noteq> []" using assms(1,5) by (auto simp: ims_inv_def)
  obtain p ps e k i where "m_freeEntries st = p # ps" and e: "e = filled_entry now window (as_stored sha256 d) (m_scheduler st) (ims_entries st p)"
    and r: "ims_insert sha256 tie now window d st = Inr ((with_entry p ps e k st)\<lparr>m_cleanupIndex := i\<rparr>)"
      "ims_inv sha256 ((with_entry p ps e k st)\<lparr>m_cleanupIndex := i\<rparr>)"
      "afterInsert p (with_entry p ps e k st) = Inr ((with_entry p ps e k st)\<lparr>m_cleanupIndex := i\<rparr>)" "p \<notin> set (m_cache st)"
    by (rule insert_in_pool [OF assms(1) room free assms(2,3) c new new]) blast
  let ?u = "(with_entry p ps e k st)\<lparr>m_cleanupIndex := i\<rparr>"
  have "packet_at ?u p = as_stored sha256 d" using filled_entry_ok(2) [OF assms(2,3)] e by (simp add: packet_at_def)
  moreover have "packet_at ?u q = packet_at st q" if "q \<in> set (m_cache st)" for q using that r(4) by (auto simp: packet_at_def)
  ultimately have "set (ims_packets ?u) = insert (as_stored sha256 d) (set (ims_packets st))" by (simp add: ims_packets_def)
  moreover have "full_view sha256 (as_stored sha256 d) = full_view sha256 d" by (simp add: full_name_view digest_component_view)
  ultimately have "is_stored sha256 v ?u \<longleftrightarrow> v = full_view sha256 d \<or> is_stored sha256 v st" for v by (auto simp: is_stored_def)
  then show thesis using r afterInsert_kind [OF r(3)] by (intro that [of ?u]) simp_all
qed

lemma insert_all_while_room:
  assumes "ims_inv sha256 st" "list_all (storable sha256) ds" "\<And>x. length (sha256 x) = 32" "distinct (map (full_view sha256) ds)"
    and "\<And>d. d \<in> set ds \<Longrightarrow> \<not> is_stored sha256 (full_view sha256 d) st" "m_nPackets st + length ds \<le> m_capacity st"
  shows "\<exists>st'. insert_all sha256 tie ds st = Inr st' \<and> ims_inv sha256 st' \<and> m_nPackets st' = m_nPackets st + length ds \<and>
    m_capacity st' = m_capacity st \<and> m_limit st' = m_limit st \<and> same_kind (m_cleanupIndex st) (m_cleanupIndex st') \<and>
    (\<forall>v. is_stored sha256 v st' \<longleftrightarrow> v \<in> full_view sha256 ` set ds \<or> is_stored sha256 v st) \<and>
    (ims_reachable sha256 tie st \<longrightarrow> m_capacity st < 2 ^ 63 \<longrightarrow> ims_reachable sha256 tie st')"
  using assms(1,2,4,5,6)
proof (induction ds arbitrary: st)
  case (Cons d ds)
  have d: "storable sha256 d" "\<not> is_stored sha256 (full_view sha256 d) st" "m_nPackets st < m_capacity st" using Cons.prems by simp_all
  obtain t where t: "ims_insert sha256 tie 0 0 d st = Inr t" "ims_inv sha256 t" "m_nPackets t = Suc (m_nPackets st)"
    "m_capacity t = m_capacity st" "m_limit t = m_limit st" "same_kind (m_cleanupIndex st) (m_cleanupIndex t)"
    "\<And>v. is_stored sha256 v t \<longleftrightarrow> v = full_view sha256 d \<or> is_stored sha256 v st"
    by (rule insert_while_room [OF Cons.prems(1) d(1) assms(3) d(2,3), of tie 0 0]) blast
  have new: "\<not> is_stored sha256 (full_view sha256 d') t" if "d' \<in> set ds" for d'
  proof -
    have "full_view sha256 d' \<in> full_view sha256 ` set ds" using that by (rule imageI)
    then have "full_view sha256 d' \<noteq> full_view sha256 d" using Cons.prems(3) by auto
    then show ?thesis using that Cons.prems(4) [of d'] t(7) by simp
  qed
  have ih: "list_all (storable sha256) ds" "distinct (map (full_view sha256) ds)" "m_nPackets t + length ds \<le> m_capacity t"
    using Cons.prems t(3,4) by simp_all
  obtain st' where st': "insert_all sha256 tie ds t = Inr st'" "ims_inv sha256 st'" "m_nPackets st' = m_nPackets t + length ds"
    "m_capacity st' = m_capacity t" "m_limit st' = m_limit t" "same_kind (m_cleanupIndex t) (m_cleanupIndex st')"
    "\<forall>v. is_stored sha256 v st' \<longleftrightarrow> v \<in> full_view sha256 ` set ds \<or> is_stored sha256 v t"
    "ims_reachable sha256 tie t \<longrightarrow> m_capacity t < 2 ^ 63 \<longrightarrow> ims_reachable sha256 tie st'"
    using Cons.IH [OF t(2) ih(1,2) _ ih(3)] new by blast
  have "ims_reachable sha256 tie st \<Longrightarrow> m_capacity st < 2 ^ 63 \<Longrightarrow> ims_reachable sha256 tie t"
    by (rule ims_reachable.insert [OF _ _ d(1) t(1)]) (use d(3) in simp_all)
  then show ?case using t(1,3-5,7) st'(1-5,7,8) same_kind_trans [OF t(6) st'(6)]
    by (intro exI [of _ st']) (simp add: image_iff, blast)
qed simp

text \<open>Some packets, for the examples.\<close>

definition zero_hash :: "byte list \<Rightarrow> byte list" where
  "zero_hash _ = replicate 32 0"

definition sample :: "byte \<Rightarrow> data" where
  "sample k = (Data_make (Name_append (tlv_block 8 [k]) Name_default))\<lparr>d_wire := tlv_block 6 [k]\<rparr>"

lemma length_zero_hash [simp]: "length (zero_hash x) = 32"
  by (simp add: zero_hash_def)

lemma sample_view: "full_view zero_hash (sample k) = [(8, [k]), (tlv_ImplicitSha256DigestComponent, replicate 32 0)]"
  by (simp add: sample_def full_name_view Data_make_def digest_component_view zero_hash_def)

lemma sample_canon: "name_canon (full_name zero_hash (sample k))"
proof -
  have "name_canon (Name_append (tlv_block 8 [k]) Name_default)"
    by (rule name_canon_append_tlv(1) [OF name_canon_default]) (simp_all add: valid_tv_def length_tlv_bytes sizeOfVarNumber_def)
  then show ?thesis unfolding full_name_def digest_component_def
    by (simp add: sample_def Data_make_def) (rule name_canon_append_tlv(2), simp_all add: valid_tv_def length_tlv_bytes sizeOfVarNumber_def)
qed

lemma sample_storable: "storable zero_hash (sample k)"
  using sample_canon by (simp add: storable_def fullName_fresh_def) (simp add: sample_def Data_make_def Name_empty_def Name_default_def Block_ofType_def)

definition samples :: "data list" where
  "samples = map (\<lambda>k. sample (word_of_nat k)) [1..<17]"

lemma samples_view: "map (full_view zero_hash) samples = map (\<lambda>k. [(8, [word_of_nat k]), (tlv_ImplicitSha256DigestComponent, replicate 32 0)]) [1..<17]"
  by (simp add: samples_def sample_view)

lemma samples_inj: "inj_on (\<lambda>k. [(8, [word_of_nat k :: byte]), x]) {1..<18}"
  by (auto simp: inj_on_def word_of_nat_eq_iff take_bit_nat_eq_self)

lemma samples_ok:
  "list_all (storable zero_hash) samples" "distinct (map (full_view zero_hash) samples)" "length samples = 16"
  "full_view zero_hash (sample 17) \<notin> full_view zero_hash ` set samples" "full_view zero_hash (sample 1) \<in> full_view zero_hash ` set samples"
proof -
  show "list_all (storable zero_hash) samples" "length samples = 16" by (simp_all add: samples_def list_all_iff sample_storable)
  show "distinct (map (full_view zero_hash) samples)"
    unfolding samples_view by (simp add: distinct_map, rule inj_on_subset [OF samples_inj]) auto
  have "(word_of_nat k :: byte) \<noteq> 17" if "k \<in> {1..<17}" for k
  proof -
    have "unat (word_of_nat k :: byte) = k" using that by (simp add: unat_of_nat)
    then show ?thesis using that by auto
  qed
  then show "full_view zero_hash (sample 17) \<notin> full_view zero_hash ` set samples"
    by (auto simp: samples_def sample_view)
  show "full_view zero_hash (sample 1) \<in> full_view zero_hash ` set samples"
    unfolding samples_def by (rule imageI) (auto intro!: rev_image_eqI [of 1])
qed

lemma make_reachable: "index \<in> {ByArrival [], ByUsedTime [], ByFrequency []} \<Longrightarrow> ims_reachable zero_hash (\<lambda>_. 0) (ims_make index False 16)"
  by (rule ims_reachable.make) (simp_all add: m_initCapacity_def)

lemma full_storage:
  assumes "index \<in> {ByArrival [], ByUsedTime [], ByFrequency []}"
  obtains st where "ims_reachable zero_hash (\<lambda>_. 0) st" "m_nPackets st = 16" "m_limit st = 16" "same_kind index (m_cleanupIndex st)"
    "\<not> is_stored zero_hash (full_view zero_hash (sample 17)) st" "is_stored zero_hash (full_view zero_hash (sample 1)) st"
proof -
  let ?st = "ims_make index False 16" and ?ds = samples
  have "index_entries index = []" using assms by (auto simp: index_entries_def)
  note m = make_ok [OF this, of zero_hash False 16]
  have m': "ims_inv zero_hash ?st" "m_nPackets ?st = 0" "m_capacity ?st = 16" "m_limit ?st = 16" "m_cleanupIndex ?st = index" "m_cache ?st = []"
    using m by (auto simp: ims_inv_def storage_ok_def m_initCapacity_def)
  have none: "\<not> is_stored zero_hash v ?st" for v using m'(6) by (simp add: is_stored_def ims_packets_def)
  have len: "m_nPackets ?st + length ?ds \<le> m_capacity ?st" using m' by (simp add: samples_ok)
  obtain st where st: "m_nPackets st = m_nPackets ?st + length ?ds" "m_limit st = m_limit ?st" "same_kind (m_cleanupIndex ?st) (m_cleanupIndex st)"
    "\<forall>v. is_stored zero_hash v st \<longleftrightarrow> v \<in> full_view zero_hash ` set ?ds \<or> is_stored zero_hash v ?st"
    "ims_reachable zero_hash (\<lambda>_. 0) ?st \<longrightarrow> m_capacity ?st < 2 ^ 63 \<longrightarrow> ims_reachable zero_hash (\<lambda>_. 0) st"
    using insert_all_while_room [OF m'(1) samples_ok(1) length_zero_hash samples_ok(2) none len, of "\<lambda>_. 0"] by blast
  show thesis
  proof (rule that [of st])
    show "ims_reachable zero_hash (\<lambda>_. 0) st" using st(5) make_reachable [OF assms] m'(3) by simp
  qed (use st m' none samples_ok in simp_all)
qed

section \<open>Properties\<close>

text \<open>
  C16: Every storage that can be reached from a new one (with a limit of at least sixteen packets, any policy) is consistent:
  the cache is strictly ordered by full name, so no packet is stored twice; the number of packets is the counter
  the code keeps; packets and free entries together make up the capacity, which never exceeds the limit; and
  the index of the replacement policy has exactly the cached entries.
\<close>

theorem ims_invariant:
  assumes "ims_reachable sha256 tie st" "\<And>x. length (sha256 x) = 32"
  shows "sorted_wrt (\<lambda>p q. canonical_keys (getFullName sha256 st p) < canonical_keys (getFullName sha256 st q)) (m_cache st) \<and>
    m_nPackets st = length (m_cache st) \<and> m_nPackets st + length (m_freeEntries st) = m_capacity st \<and>
    m_capacity st \<le> m_limit st \<and> distinct (m_cache st @ m_freeEntries st) \<and>
    (m_cleanupIndex st \<noteq> NoIndex \<longrightarrow> distinct (index_entries (m_cleanupIndex st)) \<and>
       set (index_entries (m_cleanupIndex st)) = set (m_cache st))"
proof -
  note g = ims_goodD [OF ims_reachable_good [OF assms]]
  then show ?thesis using cache_okD(3) [OF g(3)]
    by (auto simp: full_key_def ims_inv_def storage_ok_def room_ok_def index_ok_def)
qed

theorem ims_invariant_witness:
  "\<exists>st. ims_reachable zero_hash (\<lambda>_. 0) st \<and> m_nPackets st = 16 \<and> length (m_cache st) = 16 \<and> m_freeEntries st = [] \<and> m_capacity st = 16"
proof -
  obtain st where st: "ims_reachable zero_hash (\<lambda>_. 0) st" "m_nPackets st = 16" "m_limit st = 16"
    by (rule full_storage [of "ByUsedTime []"]) auto
  have "length (zero_hash x) = 32" for x by simp
  from ims_invariant [OF st(1) this] have "m_nPackets st + length (m_freeEntries st) = m_capacity st" "m_capacity st \<le> m_limit st"
    "m_nPackets st = length (m_cache st)" by blast+
  moreover from this have "length (m_freeEntries st) = 0" using st(2,3) by linarith
  ultimately show ?thesis using st by (intro exI [of _ st]) simp
qed

text \<open>
  C22: What \<open>insert\<close> does.  A packet whose full name is stored already changes nothing.  Otherwise the packet is stored in addition
  to all others as long as the limit is not reached; once it is, exactly one packet makes room for it.
\<close>

theorem ims_insert_contents:
  assumes "ims_reachable sha256 tie st" "\<And>x. length (sha256 x) = 32" "m_nPackets st < 2 ^ 63" "storable sha256 d"
  shows "\<exists>st'. ims_insert sha256 tie now window d st = Inr st' \<and>
    (if is_stored sha256 (name_view (full_name sha256 d)) st then st' = st
     else if m_nPackets st < m_limit st then set (ims_packets st') = insert (as_stored sha256 d) (set (ims_packets st))
     else \<exists>v \<in> set (ims_packets st). set (ims_packets st') = insert (as_stored sha256 d) (set (ims_packets st) - {v}))"
proof (cases "is_stored sha256 (name_view (full_name sha256 d)) st")
  case True
  note g = ims_goodD [OF ims_reachable_good [OF assms(1,2)]]
  show ?thesis using insert_stored [OF g(1) assms(4,2)] True is_stored_key [OF g(3) assms(2)] by simp
next
  case False
  note g = ims_goodD [OF ims_reachable_good [OF assms(1,2)]]
  obtain p t u i where u: "ims_insert sha256 tie now window d st = Inr (u\<lparr>m_cleanupIndex := i\<rparr>)"
    "if m_nPackets st < m_limit st then same_cache st t
     else \<exists>q j. evictItem sha256 tie st = (True, t) \<and> t = (freeEntry q st)\<lparr>m_cleanupIndex := j\<rparr> \<and> q \<in> set (m_cache st)"
    "set (m_cache u) = insert p (set (m_cache t))" "packet_at u p = as_stored sha256 d"
    "\<And>q. q \<in> set (m_cache t) \<Longrightarrow> packet_at u q = packet_at st q"
    by (rule insert_entries [OF ims_reachable_good [OF assms(1,2)] assms(3,4,2) False, of tie now window]) blast
  have new: "set (ims_packets (u\<lparr>m_cleanupIndex := i\<rparr>)) = insert (as_stored sha256 d) (packet_at st ` set (m_cache t))"
    using u(3-5) by (simp add: ims_packets_def packet_at_def)
  have old: "set (ims_packets st) = packet_at st ` set (m_cache st)" by (simp add: ims_packets_def)
  have room: "m_nPackets st < m_limit st \<Longrightarrow> set (m_cache t) = set (m_cache st)" using u(2) by (simp add: same_cache_def)
  have evict: "\<exists>q \<in> set (m_cache st). packet_at st ` set (m_cache t) = packet_at st ` set (m_cache st) - {packet_at st q}"
    if full: "\<not> m_nPackets st < m_limit st"
  proof -
    obtain q where q: "q \<in> set (m_cache st)" "set (m_cache t) = set (m_cache st) - {q}" using u(2) full g(4) by auto
    then show ?thesis using inj_on_image_set_diff [OF packet_at_inj [OF g(3) assms(2)], of "set (m_cache st)" "{q}"] by auto
  qed
  show ?thesis
  proof (cases "m_nPackets st < m_limit st")
    case True
    then show ?thesis using u(1) False new room by (simp add: old)
  next
    case full: False
    then obtain q where "q \<in> set (m_cache st)" "packet_at st ` set (m_cache t) = packet_at st ` set (m_cache st) - {packet_at st q}"
      using evict by blast
    then show ?thesis using u(1) False full new unfolding old
      by (intro exI [of _ "u\<lparr>m_cleanupIndex := i\<rparr>"]) (simp, blast)
  qed
qed

theorem ims_insert_contents_witness:
  "\<exists>st st' v. ims_insert zero_hash (\<lambda>_. 0) 0 0 (sample 17) st = Inr st' \<and> v \<in> set (ims_packets st) \<and>
    set (ims_packets st') = insert (as_stored zero_hash (sample 17)) (set (ims_packets st) - {v})"
proof -
  obtain st where st: "ims_reachable zero_hash (\<lambda>_. 0) st" "m_nPackets st = 16" "m_limit st = 16"
    "\<not> is_stored zero_hash (full_view zero_hash (sample 17)) st"
    by (rule full_storage [of "ByUsedTime []"]) auto
  have z: "length (zero_hash x) = 32" for x by simp
  have "m_nPackets st < 2 ^ 63" using st(2) by simp
  from ims_insert_contents [OF st(1) z this sample_storable [of 17], where now = 0 and window = 0] show ?thesis using st by auto
qed

text \<open>
  C17: Lookup by Interest is a search through all packets.  If the name of the Interest is the full name of
  a stored packet, that packet is returned, whatever MustBeFresh says.  Otherwise the result is the first packet, in the order of
  full names, whose name matches (a prefix match if CanBePrefix is set), that has a positive FreshnessPeriod if
  MustBeFresh is set and whose entry has not been marked stale then; there is a result exactly when such a packet is stored.  The code
  looks only at the neighbourhood of the place where the name would be.
\<close>

theorem ims_findInterest_search:
  assumes "ims_reachable sha256 tie st" "\<And>x. length (sha256 x) = 32" "name_canon (i_name i)"
  shows "\<exists>st'. ims_findInterest sha256 i st = Inr
      (map_option (packet_at st)
        (case find (\<lambda>p. name_view (full_name sha256 (packet_at st p)) = name_view (i_name i)) (m_cache st) of
           Some p \<Rightarrow> Some p
         | None \<Rightarrow> find (\<lambda>p. satisfies i (packet_at st p) \<and> (i_mustBeFresh i \<longrightarrow> m_isFresh (ims_entries st p))) (m_cache st)),
       st') \<and> ims_packets st' = ims_packets st"
proof -
  note g = ims_goodD [OF ims_reachable_good [OF assms(1,2)]]
  let ?P = "\<lambda>p. name_view (full_name sha256 (packet_at st p)) = name_view (i_name i)"
  have same: "find ?P (m_cache st) = cache_find sha256 (i_name i) st"
  proof (cases "cache_find sha256 (i_name i) st")
    case None
    then have "\<not> is_stored sha256 (name_view (i_name i)) st"
      using cache_find_None [OF g(3) assms(3)] is_stored_key [OF g(3) assms(2)] by simp
    then have "find ?P (m_cache st) = None" unfolding find_None_iff by (auto simp: is_stored_def ims_packets_def)
    then show ?thesis using None by simp
  next
    case (Some p)
    have key: "?P q \<longleftrightarrow> full_key sha256 st q = canonical_keys (i_name i)" if "q \<in> set (m_cache st)" for q
      using cached_full_name(2) [OF g(3) assms(2) that] canonical_keys_inject by simp
    have p: "p \<in> set (m_cache st)" "full_key sha256 st p = canonical_keys (i_name i)"
      using Some by (simp_all add: cache_find_iff [OF g(3) assms(3)])
    have "find ?P (m_cache st) \<noteq> None" unfolding find_None_iff using p key [OF p(1)] by blast
    then obtain q where q: "find ?P (m_cache st) = Some q" by blast
    then have "q \<in> set (m_cache st)" "?P q" by (auto simp: find_Some_iff)
    then have "q = p" using inj_onD [OF full_key_inj [OF g(3)], of q p] p key by auto
    then show ?thesis using q Some by simp
  qed
  have w: "wanted i st = (\<lambda>p. satisfies i (packet_at st p) \<and> (i_mustBeFresh i \<longrightarrow> m_isFresh (ims_entries st p)))"
    by (simp add: fun_eq_iff wanted_def packet_at_def)
  note r = findInterest_ok [OF g(1) assms(2,3)]
  show ?thesis unfolding same w [symmetric]
  proof (cases "cache_find sha256 (i_name i) st")
    case (Some p)
    then show "\<exists>st'. ims_findInterest sha256 i st = Inr (map_option (packet_at st)
        (case cache_find sha256 (i_name i) st of Some p \<Rightarrow> Some p | None \<Rightarrow> find (wanted i st) (m_cache st)), st') \<and>
        ims_packets st' = ims_packets st"
      using r by (simp add: packet_at_def)
  next
    case None
    have idx: "ims_packets (st\<lparr>m_cleanupIndex := j\<rparr>) = ims_packets st" for j by (simp add: ims_packets_def packet_at_def fun_eq_iff)
    show "\<exists>st'. ims_findInterest sha256 i st = Inr (map_option (packet_at st)
        (case cache_find sha256 (i_name i) st of Some p \<Rightarrow> Some p | None \<Rightarrow> find (wanted i st) (m_cache st)), st') \<and>
        ims_packets st' = ims_packets st"
    proof (cases "find (wanted i st) (m_cache st)")
      case None2: None
      then show ?thesis using r None by simp
    next
      case (Some p)
      then obtain j where "ims_findInterest sha256 i st = Inr (Some (packet_at st p), st\<lparr>m_cleanupIndex := j\<rparr>)"
        using r None by (auto simp: packet_at_def)
      then show ?thesis using Some None idx by auto
    qed
  qed
qed

theorem ims_findInterest_search_witness:
  "\<exists>st st' p. ims_findInterest zero_hash (malformed_signed zero_hash\<lparr>i_name := full_name zero_hash (sample 1)\<rparr>) st = Inr (Some (packet_at st p), st')"
proof -
  obtain st where st: "ims_reachable zero_hash (\<lambda>_. 0) st" "is_stored zero_hash (full_view zero_hash (sample 1)) st"
    by (rule full_storage [of "ByUsedTime []"]) auto
  let ?i = "malformed_signed zero_hash\<lparr>i_name := full_name zero_hash (sample 1)\<rparr>"
  let ?P = "\<lambda>p. name_view (full_name zero_hash (packet_at st p)) = name_view (i_name ?i)"
  have z: "length (zero_hash x) = 32" for x by simp
  have c: "name_canon (i_name ?i)" using sample_canon by simp
  have "find ?P (m_cache st) \<noteq> None" using st(2) by (auto simp: find_None_iff is_stored_def ims_packets_def)
  then obtain p where "find ?P (m_cache st) = Some p" by blast
  with ims_findInterest_search [OF st(1) z c] show ?thesis by auto
qed

text \<open>
  C23: A stored packet is found: after \<open>insert\<close>, looking up the full name of the packet, as a name or as the name of an
  Interest, returns a packet with this full name, whatever else is stored.
\<close>

theorem ims_insert_find:
  assumes "ims_reachable sha256 tie st" "\<And>x. length (sha256 x) = 32" "m_nPackets st < 2 ^ 63" "storable sha256 d"
    and "name_view (i_name i) = name_view (full_name sha256 d)" "name_canon (i_name i)"
  shows "\<exists>st' d1 d2 st1 st2. ims_insert sha256 tie now window d st = Inr st' \<and>
    ims_findInterest sha256 i st' = Inr (Some d1, st1) \<and> name_view (full_name sha256 d1) = name_view (full_name sha256 d) \<and>
    ims_findName sha256 (i_name i) st' = Inr (Some d2, st2) \<and> name_view (full_name sha256 d2) = name_view (full_name sha256 d)"
proof -
  note g = ims_reachable_good [OF assms(1,2)]
  obtain st' where ins: "ims_insert sha256 tie now window d st = Inr st'" "ims_good sha256 st'" "is_stored sha256 (name_view (full_name sha256 d)) st'"
  proof (cases "is_stored sha256 (name_view (full_name sha256 d)) st")
    case True
    then have "canonical_keys (full_name sha256 d) \<in> full_key sha256 st ` set (m_cache st)"
      using is_stored_key [OF ims_goodD(3) [OF g] assms(2)] by simp
    then show ?thesis by (rule that [OF insert_stored [OF ims_goodD(1) [OF g] assms(4,2)] g True])
  next
    case False
    obtain p u j and t :: ims where u: "ims_insert sha256 tie now window d st = Inr (u\<lparr>m_cleanupIndex := j\<rparr>)"
      "set (m_cache u) = insert p (set (m_cache t))" "packet_at u p = as_stored sha256 d" "ims_good sha256 (u\<lparr>m_cleanupIndex := j\<rparr>)"
      by (rule insert_entries [OF g assms(3,4,2) False, of tie now window]) blast
    have "name_view (full_name sha256 (as_stored sha256 d)) = name_view (full_name sha256 d)"
      by (simp add: full_name_view digest_component_view)
    then have "is_stored sha256 (name_view (full_name sha256 d)) (u\<lparr>m_cleanupIndex := j\<rparr>)"
      using u(2,3) by (simp add: is_stored_def ims_packets_def packet_at_def)
    then show ?thesis by (rule that [OF u(1,4)])
  qed
  note g' = ims_goodD [OF ins(2)]
  have keys: "canonical_keys (i_name i) = canonical_keys (full_name sha256 d)" unfolding canonical_keys_inject by (rule assms(5))
  have "cache_find sha256 (i_name i) st' \<noteq> None"
    using ins(3) unfolding cache_find_None [OF g'(3) assms(6)] is_stored_key [OF g'(3) assms(2)] keys by simp
  then obtain p where p: "cache_find sha256 (i_name i) st' = Some p" by blast
  then have pp: "p \<in> set (m_cache st')" "full_key sha256 st' p = canonical_keys (i_name i)" by (simp_all add: cache_find_iff [OF g'(3) assms(6)])
  have i: "ims_findInterest sha256 i st' = Inr (Some (packet_at st' p), st')" using p by (simp add: ims_findInterest_def packet_at_def)
  have full: "name_view (full_name sha256 (packet_at st' p)) = name_view (full_name sha256 d)"
    using pp(2) cached_full_name(2) [OF g'(3) assms(2) pp(1)] keys unfolding canonical_keys_inject [symmetric] by simp
  have lb: "lower_bound sha256 (i_name i) st' < length (m_cache st')" "m_cache st' ! lower_bound sha256 (i_name i) st' = p"
    using p by (auto simp: cache_find_def Let_def split: if_splits)
  have "isPrefixOf (i_name i) (getFullName sha256 st' p)"
    using isPrefixOf_keys [OF assms(6) cache_okD(2) [OF g'(3) pp(1)]] pp(2) by (simp add: full_key_def)
  moreover obtain j where "afterAccess p st' = Inr (st'\<lparr>m_cleanupIndex := j\<rparr>)"
    by (rule afterAccess_ok [OF g'(7,4) _ pp(1)]) (use g'(5) in auto)
  ultimately have "ims_findName sha256 (i_name i) st' = Inr (Some (packet_at st' p), st'\<lparr>m_cleanupIndex := j\<rparr>)"
    using lb by (simp add: ims_findName_def Let_def packet_at_def)
  then show ?thesis using ins(1) i full by auto
qed

theorem ims_insert_find_witness:
  "\<exists>st st' d1 st1. ims_insert zero_hash (\<lambda>_. 0) 0 0 (sample 17) st = Inr st' \<and>
    ims_findInterest zero_hash (malformed_signed zero_hash\<lparr>i_name := full_name zero_hash (sample 17)\<rparr>) st' = Inr (Some d1, st1) \<and>
    full_view zero_hash d1 = full_view zero_hash (sample 17)"
proof -
  obtain st where st: "ims_reachable zero_hash (\<lambda>_. 0) st" "m_nPackets st = 16"
    by (rule full_storage [of "ByArrival []"]) auto
  let ?i = "malformed_signed zero_hash\<lparr>i_name := full_name zero_hash (sample 17)\<rparr>"
  have z: "length (zero_hash x) = 32" for x by simp
  have "m_nPackets st < 2 ^ 63" using st(2) by simp
  from ims_insert_find [OF st(1) z this sample_storable [of 17], of ?i, where now = 0 and window = 0] sample_canon show ?thesis by auto
qed

text \<open>
  C24: What \<open>erase\<close> removes.  By prefix, it removes exactly the packets whose name has the prefix, although it only walks from the place
  of the prefix to the first packet without it; but if the prefix is the full name of a stored packet it removes nothing, since the
  loop stops at that packet, whose name is shorter.  Without the prefix flag it removes exactly the packet with the given full name.
\<close>

theorem ims_erase_contents:
  assumes "ims_reachable sha256 tie st" "\<And>x. length (sha256 x) = 32" "m_nPackets st < 2 ^ 63" "name_canon n"
  shows "\<exists>st'. ims_erase sha256 tie n isPrefix st = Inr st' \<and>
    set (ims_packets st') = {d \<in> set (ims_packets st).
      if isPrefix then is_stored sha256 (name_view n) st \<or> \<not> prefix (name_view n) (name_view (d_name d))
      else name_view (full_name sha256 d) \<noteq> name_view n}"
proof -
  note g = ims_goodD [OF ims_reachable_good [OF assms(1,2)]]
  let ?D = "if isPrefix then set (takeWhile (\<lambda>p. isPrefixOf n (Entry_getName (ims_entries st p))) (drop (lower_bound sha256 n st) (m_cache st)))
      else {p. full_key sha256 st p = canonical_keys n}"
  obtain st' where st': "ims_erase sha256 tie n isPrefix st = Inr st'" "m_cache st' = filter (\<lambda>p. p \<notin> ?D) (m_cache st)"
    "\<And>p. p \<in> set (m_cache st') \<Longrightarrow> ims_entries st' p = ims_entries st p"
    by (rule ims_erase_ok [OF g(1,2) assms(3,4), of tie isPrefix]) blast
  have keep: "p \<in> ?D \<longleftrightarrow> (if isPrefix then \<not> is_stored sha256 (name_view n) st \<and> prefix (name_view n) (name_view (d_name (packet_at st p)))
      else name_view (full_name sha256 (packet_at st p)) = name_view n)" if p: "p \<in> set (m_cache st)" for p
  proof (cases isPrefix)
    case False
    then show ?thesis using cached_full_name(2) [OF g(3) assms(2) p] canonical_keys_inject by simp
  next
    case True
    have pre: "isPrefixOf n (Entry_getName (ims_entries st p)) \<longleftrightarrow> prefix (name_view n) (name_view (d_name (packet_at st p)))"
      using isPrefixOf_prefix [OF name_canon_wf [OF assms(4)] entry_ok_parts(4) [OF cache_okD(1) [OF g(3) p] assms(2)]]
      by (simp add: Entry_getName_def packet_at_def)
    show ?thesis
    proof (cases "is_stored sha256 (name_view n) st")
      case False
      then have "canonical_keys n \<notin> full_key sha256 st ` set (m_cache st)" using is_stored_key [OF g(3) assms(2)] by simp
      from erase_prefix_set [OF g(3) assms(2,4) this] show ?thesis using True False p pre by simp
    next
      case stored: True
      then have "takeWhile (\<lambda>p. isPrefixOf n (Entry_getName (ims_entries st p))) (drop (lower_bound sha256 n st) (m_cache st)) = []"
        using erase_full_name_stops [OF g(3) assms(2,4)] is_stored_key [OF g(3) assms(2)] by simp
      then show ?thesis using True stored by simp
    qed
  qed
  have "set (ims_packets st') = packet_at st ` {p \<in> set (m_cache st). p \<notin> ?D}"
    using st'(2,3) by (auto simp: ims_packets_def packet_at_def)
  also have "\<dots> = {d \<in> set (ims_packets st).
      if isPrefix then is_stored sha256 (name_view n) st \<or> \<not> prefix (name_view n) (name_view (d_name d))
      else name_view (full_name sha256 d) \<noteq> name_view n}"
    unfolding ims_packets_def set_map using keep by (cases isPrefix) auto
  finally show ?thesis using st'(1) by blast
qed

theorem ims_erase_contents_witness:
  "\<exists>st st'. ims_packets st \<noteq> [] \<and> ims_erase zero_hash (\<lambda>_. 0) Name_default True st = Inr st' \<and> ims_packets st' = []"
proof -
  obtain st where st: "ims_reachable zero_hash (\<lambda>_. 0) st" "m_nPackets st = 16" "is_stored zero_hash (full_view zero_hash (sample 1)) st"
    by (rule full_storage [of "ByUsedTime []"]) auto
  have z: "length (zero_hash x) = 32" for x by simp
  have n: "m_nPackets st < 2 ^ 63" using st(2) by simp
  have "\<not> is_stored zero_hash (name_view Name_default) st" "ims_packets st \<noteq> []"
    using st(3) by (auto simp: is_stored_def full_name_view)
  then show ?thesis using ims_erase_contents [OF st(1) z n name_canon_default, of True] by auto
qed

section \<open>Small limits\<close>

text \<open>Erasing the last packet of a storage shrinks it to the initial capacity, even above the limit.\<close>

lemma erase_last_packet:
  assumes "ims_inv sha256 st" "\<And>x. length (sha256 x) = 32" "name_canon n" "is_stored sha256 (name_view n) st" "m_nPackets st = 1" "0 < m_capacity st"
  obtains st' where "ims_erase sha256 tie n False st = Inr st'" "ims_inv sha256 st'" "m_nPackets st' = 0" "m_cache st' = []"
    "m_capacity st' = max (m_capacity st div 2) m_initCapacity" "m_limit st' = m_limit st"
proof -
  have inv: "storage_ok sha256 st" "index_ok (m_cache st) (m_cleanupIndex st)" "m_nPackets st + length (m_freeEntries st) = m_capacity st"
    "cache_ok sha256 st" "length (m_cache st) = 1"
    using assms(1,5) by (simp_all add: ims_inv_def storage_ok_def)
  have "cache_find sha256 n st \<noteq> None"
    using assms(4) unfolding cache_find_None [OF inv(4) assms(3)] is_stored_key [OF inv(4) assms(2)] by simp
  then obtain p where p: "cache_find sha256 n st = Some p" "p \<in> set (m_cache st)" using cache_find_iff [OF inv(4) assms(3)] by blast
  let ?t = "freeEntry p (beforeErase p st)"
  have e: "erased sha256 {p} st ?t" by (rule erase_entry [OF inv(1,2) p(2)])
  have one: "m_cache st = [p]" using inv(5) p(2) by (cases "m_cache st") auto
  have c: "m_cache ?t = filter (\<lambda>q. q \<notin> {p}) (m_cache st)" "storage_ok sha256 ?t" "index_ok (m_cache ?t) (m_cleanupIndex ?t)"
    "m_nPackets ?t + length (m_freeEntries ?t) = m_nPackets st + length (m_freeEntries st)" "m_capacity ?t = m_capacity st" "m_limit ?t = m_limit st"
    using e unfolding erased_def by blast+
  then have t: "m_cache ?t = []" "m_nPackets ?t = 0" "length (m_freeEntries ?t) = m_capacity st" "ims_inv sha256 ?t"
    using one inv(3) by (simp_all add: storage_ok_def ims_inv_def)
  have "m_nPackets ?t \<le> max (m_capacity ?t div 2) m_initCapacity" using t(2) by simp
  then obtain u where u: "setCapacity sha256 tie (m_capacity ?t div 2) ?t = Inr u" "ims_inv sha256 u" "same_cache ?t u"
      "m_capacity u = max (m_capacity ?t div 2) m_initCapacity"
    using setCapacity_ok [OF t(4)] by metis
  have "ims_erase sha256 tie n False st = erase_shrink sha256 tie ?t" using p(1) by (simp add: ims_erase_def)
  also have "\<dots> = Inr u" using u(1) t(2,3) assms(6) unfolding erase_shrink_def by (simp only: t(2,3)) simp
  finally show thesis using that u t c(5,6) by (simp add: same_cache_def)
qed

text \<open>A full storage whose limit is below its capacity has no entry left for a new packet.\<close>

lemma insert_above_limit:
  assumes "ims_inv sha256 st" "storable sha256 d" "\<And>x. length (sha256 x) = 32" "\<not> is_stored sha256 (full_view sha256 d) st"
    and "m_nPackets st = m_initCapacity" "m_capacity st = m_initCapacity" "m_limit st < m_initCapacity"
  shows "ims_insert sha256 tie now window d st = Inl (LogicError ''m_freeEntries.size() > 0'')"
proof -
  have c: "cache_ok sha256 st" "name_canon (full_name sha256 d)" using assms(1,2) by (simp_all add: ims_inv_def storage_ok_def storable_def)
  have none: "cache_find sha256 (full_name sha256 d) st = None"
    unfolding cache_find_None [OF c] using assms(4) is_stored_key [OF c(1) assms(3)] by simp
  let ?c = "min (2 * m_capacity st mod 2 ^ 64) (m_limit st)"
  have max: "max ?c m_initCapacity = m_initCapacity" using assms(7) by simp
  have le: "m_nPackets st \<le> max ?c m_initCapacity" unfolding max using assms(5) by simp
  obtain t where t: "setCapacity sha256 tie ?c st = Inr t" "ims_inv sha256 t" "same_cache st t" "m_capacity t = m_initCapacity"
    by (rule setCapacity_ok [OF assms(1) le, of tie, unfolded max])
  have "make_room sha256 tie st = Inr t" using assms(5-7) t(1) by (simp add: make_room_def ims_isFull_def)
  moreover have "m_freeEntries t = []" using t(2-4) assms(5) by (simp add: ims_inv_def same_cache_def)
  ultimately show ?thesis unfolding ims_insert_steps [OF storable_fullName(1) [OF assms(2,3)]] using none
    by (simp add: place_entry_def)
qed

text \<open>
  C25: With a limit below sixteen the storage breaks.  Once a packet has been inserted and erased, it takes sixteen packets, more than its
  limit, and the next insertion takes an entry from an empty pool: \<open>setCapacity\<close> never goes below the initial capacity,
  and \<open>insert\<close> only evicts when capacity and limit are equal.
\<close>

theorem ims_small_limit:
  assumes "0 < limit" "limit < m_initCapacity" "index \<in> {ByArrival [], ByUsedTime [], ByFrequency []}"
    and "list_all (storable sha256) ds" "distinct (map (full_view sha256) ds)" "length ds = 17" "\<And>x. length (sha256 x) = 32"
  shows "\<exists>st1 st2 st3. ims_insert sha256 tie 0 0 (hd ds) (ims_make index scheduler limit) = Inr st1 \<and>
    ims_erase sha256 tie (full_name sha256 (hd ds)) False st1 = Inr st2 \<and>
    insert_all sha256 tie (butlast ds) st2 = Inr st3 \<and> m_nPackets st3 = 16 \<and> m_limit st3 = limit \<and>
    ims_insert sha256 tie 0 0 (last ds) st3 = Inl (LogicError ''m_freeEntries.size() > 0'')"
proof -
  let ?st = "ims_make index scheduler limit"
  have "index_entries index = []" using assms(3) by (auto simp: index_entries_def)
  note m = make_ok [OF this, of sha256 scheduler limit]
  have m': "ims_inv sha256 ?st" "m_nPackets ?st = 0" "m_capacity ?st = limit" "m_limit ?st = limit" "m_cache ?st = []"
    using m assms(2) by (auto simp: ims_inv_def storage_ok_def m_initCapacity_def size_max_def)
  have empty: "\<not> is_stored sha256 v st" if "m_cache st = []" for v st using that by (simp add: is_stored_def ims_packets_def)
  have ne: "ds \<noteq> []" using assms(6) by auto
  then have hd: "storable sha256 (hd ds)" "storable sha256 (last ds)" "list_all (storable sha256) (butlast ds)"
    using assms(4) by (auto simp: list_all_iff dest: in_set_butlastD)
  have canon: "name_canon (full_name sha256 (hd ds))" using hd(1) by (simp add: storable_def)
  have room: "m_nPackets ?st < m_capacity ?st" using m'(2,3) assms(1) by simp
  obtain st1 where 1: "ims_insert sha256 tie 0 0 (hd ds) ?st = Inr st1" "ims_inv sha256 st1" "m_nPackets st1 = Suc (m_nPackets ?st)"
    "m_capacity st1 = m_capacity ?st" "m_limit st1 = m_limit ?st"
    "\<And>v. is_stored sha256 v st1 \<longleftrightarrow> v = full_view sha256 (hd ds) \<or> is_stored sha256 v ?st"
    by (rule insert_while_room [OF m'(1) hd(1) assms(7) empty [OF m'(5)] room, of tie 0 0]) blast
  have one: "m_nPackets st1 = 1" "0 < m_capacity st1" "is_stored sha256 (name_view (full_name sha256 (hd ds))) st1" using 1 m' assms(1) by simp_all
  obtain st2 where 2: "ims_erase sha256 tie (full_name sha256 (hd ds)) False st1 = Inr st2" "ims_inv sha256 st2" "m_nPackets st2 = 0" "m_cache st2 = []"
    "m_capacity st2 = max (m_capacity st1 div 2) m_initCapacity" "m_limit st2 = m_limit st1"
    by (rule erase_last_packet [OF 1(2) assms(7) canon one(3,1,2), of tie]) blast
  have cap: "m_capacity st2 = 16" using 2(5) 1(4) m'(3) assms(2) by (simp add: m_initCapacity_def)
  have d: "distinct (map (full_view sha256) (butlast ds))" using assms(5) by (simp add: distinct_butlast map_butlast)
  have len: "m_nPackets st2 + length (butlast ds) \<le> m_capacity st2" using 2(3) cap assms(6) by simp
  obtain st3 where 3: "insert_all sha256 tie (butlast ds) st2 = Inr st3" "ims_inv sha256 st3" "m_nPackets st3 = m_nPackets st2 + length (butlast ds)"
    "m_capacity st3 = m_capacity st2" "m_limit st3 = m_limit st2"
    "\<forall>v. is_stored sha256 v st3 \<longleftrightarrow> v \<in> full_view sha256 ` set (butlast ds) \<or> is_stored sha256 v st2"
    using insert_all_while_room [OF 2(2) hd(3) assms(7) d empty [OF 2(4)] len, of tie] by blast
  have "distinct (map (full_view sha256) (butlast ds @ [last ds]))" using assms(5) ne by simp
  then have "full_view sha256 (last ds) \<notin> full_view sha256 ` set (butlast ds)" by simp
  then have new: "\<not> is_stored sha256 (full_view sha256 (last ds)) st3" using 3(6) empty [OF 2(4)] by simp
  have "m_nPackets st3 = 16" "m_limit st3 = limit" "m_capacity st3 = 16" using 3(3-5) 2(3,6) 1(5) m'(4) cap assms(6) by simp_all
  then show ?thesis using 1(1) 2(1) 3(1) insert_above_limit [OF 3(2) hd(2) assms(7) new] assms(2)
    by (simp add: m_initCapacity_def)
qed

theorem ims_small_limit_witness:
  "\<exists>st3. m_nPackets st3 = 16 \<and> m_limit st3 = 2 \<and>
    ims_insert zero_hash (\<lambda>_. 0) 0 0 (sample 17) st3 = Inl (LogicError ''m_freeEntries.size() > 0'')"
proof -
  have z: "length (zero_hash x) = 32" for x by simp
  let ?ds = "samples @ [sample 17]"
  have "list_all (storable zero_hash) ?ds" "distinct (map (full_view zero_hash) ?ds)" "length ?ds = 17"
    using samples_ok sample_storable by auto
  from ims_small_limit [of 2 "ByUsedTime []", OF _ _ _ this z, of "\<lambda>_. 0" False] show ?thesis by (auto simp: m_initCapacity_def)
qed

end
