(* ===== verification/InMemoryStorageTrace.thy ===== *)
theory InMemoryStorageTrace
  imports InMemoryStorageProps
begin

text \<open>
  Sequences of calls of an in-memory storage and their history: which packets arrived and which were
  used, in order.  The replacement policies are stated over the history: what leaves a full storage
  is the packet whose last use, or arrival, is the oldest, or that was used least often.
\<close>

section \<open>Calls and history\<close>

datatype ims_call =
    CallInsert int int data
  | CallFindName name
  | CallFindInterest interest
  | CallErase name bool
  | CallEvents int

datatype ims_event = Arrived data | Used data

text \<open>
  A packet arrives when \<open>insert\<close> stores it, and is used when a lookup returns it, except a lookup by an
  Interest whose name is the full name of a stored packet: the code does not call \<open>afterAccess\<close> there.
\<close>

fun ims_step ::
    "(byte list \<Rightarrow> byte list) \<Rightarrow> ((nat \<times> uint64) list \<Rightarrow> nat) \<Rightarrow> ims_call \<Rightarrow> ims \<Rightarrow> (ims_event list \<times> ims) result" where
  "ims_step sha256 tie (CallInsert now window d) st =
     bindE (ims_insert sha256 tie now window d st) (\<lambda>st'.
       Inr (if is_stored sha256 (full_view sha256 d) st then [] else [Arrived (as_stored sha256 d)], st'))"
| "ims_step sha256 tie (CallFindName n) st =
     bindE (ims_findName sha256 n st) (\<lambda>(r, st').
       Inr (case r of None \<Rightarrow> [] | Some d \<Rightarrow> [Used d], st'))"
| "ims_step sha256 tie (CallFindInterest i) st =
     bindE (ims_findInterest sha256 i st) (\<lambda>(r, st').
       Inr (case r of None \<Rightarrow> [] | Some d \<Rightarrow> if is_stored sha256 (name_view (i_name i)) st then [] else [Used d], st'))"
| "ims_step sha256 tie (CallErase n isPrefix) st =
     bindE (ims_erase sha256 tie n isPrefix st) (\<lambda>st'. Inr ([], st'))"
| "ims_step sha256 tie (CallEvents now) st = Inr ([], ims_runEvents now st)"

fun ims_run ::
    "(byte list \<Rightarrow> byte list) \<Rightarrow> ((nat \<times> uint64) list \<Rightarrow> nat) \<Rightarrow> ims_call list \<Rightarrow> ims \<Rightarrow> (ims_event list \<times> ims) result" where
  "ims_run sha256 tie [] st = Inr ([], st)"
| "ims_run sha256 tie (c # cs) st =
     bindE (ims_step sha256 tie c st) (\<lambda>(e, st1).
       bindE (ims_run sha256 tie cs st1) (\<lambda>(h, st2). Inr (e @ h, st2)))"

text \<open>Signed packets, and names in canonical form.\<close>

fun call_ok :: "(byte list \<Rightarrow> byte list) \<Rightarrow> ims_call \<Rightarrow> bool" where
  "call_ok sha256 (CallInsert now window d) = storable sha256 d"
| "call_ok sha256 (CallFindName n) = name_canon n"
| "call_ok sha256 (CallFindInterest i) = name_canon (i_name i)"
| "call_ok sha256 (CallErase n isPrefix) = name_canon n"
| "call_ok sha256 (CallEvents now) = True"

section \<open>What a call does to the entries\<close>

text \<open>A call removes packets, or counts the use of one, or stores a new one.\<close>

definition kept :: "ims \<Rightarrow> ims \<Rightarrow> bool" where
  "kept st st' \<longleftrightarrow> set (m_cache st') \<subseteq> set (m_cache st) \<and> m_nPackets st' \<le> m_nPackets st \<and> m_limit st' = m_limit st \<and>
     (\<forall>p \<in> set (m_cache st'). packet_at st' p = packet_at st p) \<and>
     m_cleanupIndex st' = index_keep (set (m_cache st')) (m_cleanupIndex st)"

definition accessed :: "nat \<Rightarrow> ims \<Rightarrow> ims \<Rightarrow> bool" where
  "accessed p st st' \<longleftrightarrow> p \<in> set (m_cache st) \<and> afterAccess p st = Inr st' \<and> (\<exists>j. st' = st\<lparr>m_cleanupIndex := j\<rparr>)"

lemma kept_refl: "ims_good sha256 st \<Longrightarrow> kept st st"
  using ims_goodD(7) [of sha256 st] by (simp add: kept_def index_keep_all)

lemma kept_runEvents: "ims_good sha256 st \<Longrightarrow> kept st (ims_runEvents now st)"
  using ims_goodD(7) [of sha256 st]
  by (simp add: kept_def index_keep_all ims_runEvents_def packet_at_def Entry_getData_def Entry_runEvent_def split: option.split)

lemma findName_step:
  assumes "ims_good sha256 st" "name_canon n"
  shows "\<exists>st'. (ims_findName sha256 n st = Inr (None, st') \<and> st' = st) \<or>
    (\<exists>p. ims_findName sha256 n st = Inr (Some (packet_at st p), st') \<and> accessed p st st')"
  using findName_ok [OF ims_goodD(1) [OF assms(1)] assms(2)]
  by (auto simp: accessed_def packet_at_def split: option.splits)

lemma findInterest_step:
  assumes "ims_good sha256 st" "\<And>x. length (sha256 x) = 32" "name_canon (i_name i)"
  shows "\<exists>r st'. ims_findInterest sha256 i st = Inr (r, st') \<and>
    (if r = None \<or> is_stored sha256 (name_view (i_name i)) st then st' = st
     else \<exists>p. r = Some (packet_at st p) \<and> accessed p st st')"
proof -
  note g = ims_goodD [OF assms(1)]
  note f = findInterest_ok [OF g(1) assms(2,3)]
  show ?thesis
  proof (cases "cache_find sha256 (i_name i) st")
    case (Some p)
    then have "is_stored sha256 (name_view (i_name i)) st"
      using is_stored_key [OF g(3) assms(2)] cache_find_iff [OF g(3) assms(3)] by (auto intro: rev_image_eqI)
    then show ?thesis using f Some by simp
  next
    case None
    then have "\<not> is_stored sha256 (name_view (i_name i)) st"
      using is_stored_key [OF g(3) assms(2)] cache_find_None [OF g(3) assms(3)] by simp
    then show ?thesis using f None by (auto simp: accessed_def packet_at_def split: option.splits)
  qed
qed

lemma erase_step:
  assumes "ims_good sha256 st" "m_nPackets st < 2 ^ 63" "name_canon n"
  obtains st' where "ims_erase sha256 tie n isPrefix st = Inr st'" "ims_good sha256 st'" "kept st st'"
proof -
  note g = ims_goodD [OF assms(1)]
  obtain st' D where st': "ims_erase sha256 tie n isPrefix st = Inr st'" "ims_inv sha256 st'" "room_ok st'"
    "m_cache st' = filter (\<lambda>p. p \<notin> D) (m_cache st)"
    "\<And>p. p \<in> set (m_cache st') \<Longrightarrow> ims_entries st' p = ims_entries st p" "m_limit st' = m_limit st"
    "m_cleanupIndex st' = index_keep (set (m_cache st')) (m_cleanupIndex st)"
    by (rule ims_erase_ok [OF g(1,2) assms(2,3), of tie isPrefix]) blast
  have "m_nPackets st' = length (m_cache st')" using st'(2) by (simp add: ims_inv_def storage_ok_def)
  then have "kept st st'" using st'(4-7) g(5) by (auto simp: kept_def packet_at_def)
  then show thesis using that st' by (simp add: ims_good_def)
qed

lemma access_good:
  assumes "ims_good sha256 st" "accessed p st st'"
  shows "ims_good sha256 st'"
proof -
  note g = ims_goodD [OF assms(1)]
  have "length (m_cache st) \<le> m_nPackets st" "p \<in> set (m_cache st)" using g(5) assms(2) by (simp_all add: accessed_def)
  then obtain j where j: "afterAccess p st = Inr (st\<lparr>m_cleanupIndex := j\<rparr>)" "index_ok (m_cache st) j" "j = NoIndex \<longleftrightarrow> m_cleanupIndex st = NoIndex"
    using afterAccess_ok [OF g(7,4)] by metis
  then have "st' = st\<lparr>m_cleanupIndex := j\<rparr>" using assms(2) by (simp add: accessed_def)
  moreover have "ims_inv sha256 (st\<lparr>m_cleanupIndex := j\<rparr>)"
    using g(1) j(2) by (simp add: ims_inv_def storage_ok_def cache_ok_def full_key_def getFullName_def)
  ultimately show ?thesis using ims_good_index [OF assms(1) _ j(3)] by simp
qed

text \<open>The three effects of a call, with what they add to the history.\<close>

inductive ims_effect ::
    "(byte list \<Rightarrow> byte list) \<Rightarrow> ((nat \<times> uint64) list \<Rightarrow> nat) \<Rightarrow> ims \<Rightarrow> ims_event list \<Rightarrow> ims \<Rightarrow> bool" for sha256 tie where
  keep: "kept st st' \<Longrightarrow> ims_effect sha256 tie st [] st'"
| access: "accessed p st st' \<Longrightarrow> ims_effect sha256 tie st [Used (packet_at st p)] st'"
| arrive: "storable sha256 d \<Longrightarrow> \<not> is_stored sha256 (full_view sha256 d) st \<Longrightarrow> ims_insert sha256 tie now window d st = Inr st' \<Longrightarrow>
    ims_effect sha256 tie st [Arrived (as_stored sha256 d)] st'"

inductive_cases ims_effectE: "ims_effect sha256 tie st e st'"

lemma insert_size:
  assumes "ims_good sha256 st" "m_nPackets st < 2 ^ 63" "storable sha256 d" "\<And>x. length (sha256 x) = 32"
    and "\<not> is_stored sha256 (full_view sha256 d) st" "ims_insert sha256 tie now window d st = Inr st'"
  shows "m_nPackets st' \<le> Suc (m_nPackets st)" "m_limit st' = m_limit st"
proof -
  obtain u i and t :: ims where "ims_insert sha256 tie now window d st = Inr (u\<lparr>m_cleanupIndex := i\<rparr>)"
    "m_nPackets u = Suc (m_nPackets t)" "m_limit u = m_limit st" "m_nPackets t \<le> m_nPackets st"
    by (rule insert_entries [OF assms(1-5), of tie now window]) blast
  then show "m_nPackets st' \<le> Suc (m_nPackets st)" "m_limit st' = m_limit st" using assms(6) by auto
qed

lemma effect_good:
  assumes "ims_effect sha256 tie st e st'" "ims_good sha256 st" "m_nPackets st < 2 ^ 63" "\<And>x. length (sha256 x) = 32"
  shows "m_nPackets st' \<le> Suc (m_nPackets st)" "m_limit st' = m_limit st" "length e \<le> 1"
  using assms(1)
  by (cases; use insert_size [OF assms(2,3) _ assms(4)] in \<open>auto simp: kept_def accessed_def\<close>)+

lemma step_effect:
  assumes "ims_good sha256 st" "m_nPackets st < 2 ^ 63" "\<And>x. length (sha256 x) = 32" "call_ok sha256 c"
  shows "\<exists>e st'. ims_step sha256 tie c st = Inr (e, st') \<and> ims_good sha256 st' \<and> ims_effect sha256 tie st e st'"
proof (cases c)
  case (CallInsert now window d)
  note g = ims_goodD [OF assms(1)]
  obtain st' where st': "ims_insert sha256 tie now window d st = Inr st'" "ims_good sha256 st'"
    using insert_good [OF assms(1,2) _ assms(3)] assms(4) CallInsert by fastforce
  have "st' = st" if "is_stored sha256 (full_view sha256 d) st"
    using insert_stored [OF g(1) _ assms(3), of d tie now window] is_stored_key [OF g(3) assms(3)] that assms(4) st'(1) CallInsert by simp
  then show ?thesis using st' assms(4) CallInsert keep [OF kept_refl [OF assms(1)]] arrive [of sha256 d st tie now window st'] by auto
next
  case (CallFindName n)
  then show ?thesis using findName_step [OF assms(1), of n] assms(1,4) access_good [OF assms(1)] keep [OF kept_refl [OF assms(1)]]
    by (auto intro: access)
next
  case (CallFindInterest i)
  then obtain r st' where r: "ims_findInterest sha256 i st = Inr (r, st')"
    "if r = None \<or> is_stored sha256 (name_view (i_name i)) st then st' = st else \<exists>p. r = Some (packet_at st p) \<and> accessed p st st'"
    using findInterest_step [OF assms(1,3), of i] assms(4) by auto
  then show ?thesis using CallFindInterest assms(1) access_good [OF assms(1)] keep [OF kept_refl [OF assms(1)]]
    by (cases r) (auto intro: access split: if_split_asm)
next
  case (CallErase n isPrefix)
  then have "name_canon n" using assms(4) by simp
  then obtain st' where "ims_erase sha256 tie n isPrefix st = Inr st'" "ims_good sha256 st'" "kept st st'"
    by (rule erase_step [OF assms(1,2), of n tie isPrefix])
  then show ?thesis using CallErase by (auto intro: keep)
next
  case (CallEvents now)
  have "ims_good sha256 (ims_runEvents now st)"
    using assms(1) runEvents_ok by (auto simp: ims_good_def room_ok_def ims_runEvents_def)
  then show ?thesis using CallEvents kept_runEvents [OF assms(1), of now] by (auto intro: keep)
qed

text \<open>A sequence of calls returns, and keeps what every effect keeps.\<close>

lemma run_induct:
  assumes "\<And>x. length (sha256 x) = 32"
    and step: "\<And>h st e st'. Inv h st \<Longrightarrow> ims_good sha256 st \<Longrightarrow> m_nPackets st < 2 ^ 63 \<Longrightarrow> ims_effect sha256 tie st e st' \<Longrightarrow>
      ims_good sha256 st' \<Longrightarrow> Inv (h @ e) st'"
  shows "Inv h st \<Longrightarrow> ims_good sha256 st \<Longrightarrow> m_nPackets st + length cs \<le> 2 ^ 63 \<Longrightarrow> list_all (call_ok sha256) cs \<Longrightarrow>
    \<exists>h' st'. ims_run sha256 tie cs st = Inr (h', st') \<and> Inv (h @ h') st' \<and> ims_good sha256 st' \<and>
      m_nPackets st' \<le> m_nPackets st + length cs \<and> length h' \<le> length cs \<and> m_limit st' = m_limit st"
proof (induction cs arbitrary: h st)
  case (Cons c cs)
  have n: "m_nPackets st < 2 ^ 63" using Cons.prems(3) by simp
  have "call_ok sha256 c" using Cons.prems(4) by simp
  from step_effect [OF Cons.prems(2) n assms(1) this, of tie]
  obtain e st1 where 1: "ims_step sha256 tie c st = Inr (e, st1)" "ims_good sha256 st1" "ims_effect sha256 tie st e st1" by blast
  note e = effect_good [OF 1(3) Cons.prems(2) n assms(1)]
  have "m_nPackets st1 + length cs \<le> 2 ^ 63" using e(1) Cons.prems(3) by simp
  then obtain h' st' where "ims_run sha256 tie cs st1 = Inr (h', st')" "Inv ((h @ e) @ h') st'" "ims_good sha256 st'"
      "m_nPackets st' \<le> m_nPackets st1 + length cs" "length h' \<le> length cs" "m_limit st' = m_limit st1"
    using Cons.IH [OF step [OF Cons.prems(1,2) n 1(3,2)] 1(2)] Cons.prems(4) by auto
  then show ?case using 1(1) e by auto
qed simp

section \<open>Order of last occurrence\<close>

text \<open>The elements of \<open>S\<close> in the order in which a log mentions them last.\<close>

definition in_order :: "'a list \<Rightarrow> 'a set \<Rightarrow> 'a list" where
  "in_order log S = filter (\<lambda>x. x \<in> S) (remdups log)"

lemma remdups_snoc: "remdups (xs @ [x]) = filter (\<lambda>y. y \<noteq> x) (remdups xs) @ [x]"
  by (induction xs) auto

lemma in_order_snoc: "in_order (log @ [x]) (insert x S) = filter (\<lambda>y. y \<noteq> x) (in_order log S) @ [x]"
  by (auto simp: in_order_def remdups_snoc intro: filter_cong)

lemma in_order_subset: "T \<subseteq> S \<Longrightarrow> in_order log T = filter (\<lambda>x. x \<in> T) (in_order log S)"
  by (auto simp: in_order_def intro: filter_cong)

lemma in_order_tl:
  assumes "distinct xs" "in_order log (set xs) = xs"
  shows "in_order log (set (tl xs)) = tl xs"
proof -
  have "set (tl xs) \<subseteq> set xs" by (cases xs) auto
  then have "in_order log (set (tl xs)) = filter (\<lambda>x. x \<in> set (tl xs)) xs" using assms(2) by (simp add: in_order_subset)
  also have "\<dots> = tl xs" using assms(1) by (cases xs) (auto simp: filter_id_conv)
  finally show ?thesis .
qed

lemma in_order_queue_insert:
  assumes "distinct q" "in_order log (set q) = q" "x \<notin> set q"
  shows "queue_insert limit x q = in_order (log @ [x]) (set (queue_insert limit x q))"
proof -
  let ?q = "if length q < limit then q else tl q"
  have "set ?q \<subseteq> set q" by (cases q) auto
  then have "filter (\<lambda>y. y \<noteq> x) ?q = ?q" using assms(3) by (auto simp: filter_id_conv)
  moreover have "in_order log (set ?q) = ?q" using assms(2) in_order_tl [OF assms(1,2)] by simp
  ultimately have "in_order (log @ [x]) (insert x (set ?q)) = ?q @ [x]" by (simp only: in_order_snoc)
  then show ?thesis by (simp add: queue_insert_def)
qed

section \<open>The queues of the policies\<close>

fun event_packet :: "ims_event \<Rightarrow> data" where
  "event_packet (Arrived d) = d"
| "event_packet (Used d) = d"

definition uses :: "ims_event list \<Rightarrow> data list" where
  "uses h = map event_packet h"

definition arrivals :: "ims_event list \<Rightarrow> data list" where
  "arrivals h = concat (map (\<lambda>e. case e of Arrived d \<Rightarrow> [d] | Used d \<Rightarrow> []) h)"

definition queued :: "(nat list \<Rightarrow> cleanup_index) \<Rightarrow> data list \<Rightarrow> ims \<Rightarrow> bool" where
  "queued mk log st \<longleftrightarrow> (\<exists>q. m_cleanupIndex st = mk q) \<and> ims_queue st = in_order log (set (ims_packets st))"

lemma queue_packets:
  assumes "ims_good sha256 st" "\<And>x. length (sha256 x) = 32" "m_cleanupIndex st \<noteq> NoIndex"
  shows "set (ims_queue st) = set (ims_packets st)" "distinct (ims_queue st)"
proof -
  note g = ims_goodD [OF assms(1)]
  have i: "set (index_entries (m_cleanupIndex st)) = set (m_cache st)" "distinct (index_entries (m_cleanupIndex st))"
    using g(7) assms(3) by (auto simp: index_ok_def)
  then show "set (ims_queue st) = set (ims_packets st)" "distinct (ims_queue st)"
    using packet_at_inj [OF g(3) assms(2)] by (simp_all add: ims_queue_def ims_packets_def distinct_map)
qed

lemma kept_packets:
  assumes "kept st st'"
  shows "set (ims_packets st') = packet_at st ` set (m_cache st')" "set (ims_packets st') \<subseteq> set (ims_packets st)"
  using assms by (auto simp: ims_packets_def kept_def)

lemma kept_queued:
  assumes "queued mk log st" "kept st st'" "ims_good sha256 st" "\<And>x. length (sha256 x) = 32" "mk = ByArrival \<or> mk = ByUsedTime"
  shows "queued mk log st'"
proof -
  note g = ims_goodD [OF assms(3)]
  obtain q where q: "m_cleanupIndex st = mk q" using assms(1) by (auto simp: queued_def)
  have e: "index_entries (mk q') = q'" "index_keep S (mk q') = mk (filter (\<lambda>p. p \<in> S) q')" for q' S
    using assms(5) by (elim disjE; simp add: index_entries_def index_keep_def)+
  have sub: "set q = set (m_cache st)" using queue_index(2) [of "m_cache st" mk q] g(7) q assms(5) by simp
  let ?S = "set (m_cache st')"
  have st': "m_cleanupIndex st' = mk (filter (\<lambda>p. p \<in> ?S) q)" using assms(2) q by (simp add: kept_def e)
  have "p \<in> ?S \<longleftrightarrow> packet_at st p \<in> set (ims_packets st')" if "p \<in> set q" for p
    using that sub assms(2) inj_on_image_mem_iff [OF packet_at_inj [OF g(3) assms(4)], of p ?S]
    unfolding kept_packets(1) [OF assms(2)] by (simp add: kept_def)
  then have f: "filter (\<lambda>p. p \<in> ?S) q = filter (\<lambda>p. packet_at st p \<in> set (ims_packets st')) q" by (rule filter_cong [OF refl])
  have "ims_queue st' = map (packet_at st) (filter (\<lambda>p. p \<in> ?S) q)"
    unfolding ims_queue_def st' e using assms(2) by (simp add: kept_def)
  also have "\<dots> = filter (\<lambda>d. d \<in> set (ims_packets st')) (ims_queue st)"
    unfolding f by (simp add: ims_queue_def q e filter_map comp_def)
  also have "\<dots> = in_order log (set (ims_packets st'))"
    using assms(1) in_order_subset [OF kept_packets(2) [OF assms(2)], of log] by (simp add: queued_def)
  finally show ?thesis using st' unfolding queued_def by blast
qed

lemma arrived_queued:
  assumes "queued mk log st" "ims_good sha256 st" "m_nPackets st < 2 ^ 63" "\<And>x. length (sha256 x) = 32" "mk = ByArrival \<or> mk = ByUsedTime"
    and "storable sha256 d" "\<not> is_stored sha256 (full_view sha256 d) st" "ims_insert sha256 tie now window d st = Inr st'" "ims_good sha256 st'"
  shows "queued mk (log @ [as_stored sha256 d]) st'"
proof -
  obtain q where q: "m_cleanupIndex st = mk q" using assms(1) by (auto simp: queued_def)
  have ne: "mk q' \<noteq> NoIndex" for q' using assms(5) by auto
  have Q: "set (ims_queue st) = set (ims_packets st)" "distinct (ims_queue st)" using queue_packets [OF assms(2,4)] q ne by simp_all
  have st': "ims_queue st' = queue_insert (m_limit st) (as_stored sha256 d) (ims_queue st)" "\<exists>q'. m_cleanupIndex st' = mk q'"
    using insert_queue [OF assms(2,3,6,4,7) q assms(5), of tie now window] assms(8) by auto
  have "full_view sha256 (as_stored sha256 d) = full_view sha256 d" by (simp add: full_name_view digest_component_view)
  then have "as_stored sha256 d \<notin> set (ims_queue st)" using assms(7) unfolding Q(1) is_stored_def by blast
  moreover have "in_order log (set (ims_queue st)) = ims_queue st" unfolding Q(1) using assms(1) by (simp add: queued_def)
  ultimately have "ims_queue st' = in_order (log @ [as_stored sha256 d]) (set (ims_queue st'))"
    unfolding st'(1) using Q(2) by (intro in_order_queue_insert)
  moreover have "set (ims_queue st') = set (ims_packets st')" using queue_packets(1) [OF assms(9,4)] st'(2) ne by auto
  ultimately show ?thesis using st'(2) by (simp add: queued_def)
qed

lemma accessed_packets: "accessed p st st' \<Longrightarrow> ims_packets st' = ims_packets st"
  by (auto simp: accessed_def ims_packets_def packet_at_def)

lemma lru_accessed_queued:
  assumes "queued ByUsedTime log st" "accessed p st st'" "ims_good sha256 st" "\<And>x. length (sha256 x) = 32"
  shows "queued ByUsedTime (log @ [packet_at st p]) st'"
proof -
  note g = ims_goodD [OF assms(3)]
  obtain q where q: "m_cleanupIndex st = ByUsedTime q" using assms(1) by (auto simp: queued_def)
  have i: "distinct q" "set q = set (m_cache st)" "length q \<le> m_nPackets st"
    using g(4,5,7) q index_length [OF g(7,4)] by (auto simp: index_ok_def index_entries_def)
  have p: "p \<in> set (m_cache st)" using assms(2) by (simp add: accessed_def)
  have st': "st' = st\<lparr>m_cleanupIndex := ByUsedTime (remove1 p q @ [p])\<rparr>"
    using assms(2) lru.afterAccess [OF q i(3,1)] p i by (simp add: accessed_def sequence_insert_def)
  have "ims_queue st' = map (packet_at st) (remove1 p q) @ [packet_at st p]"
    unfolding st' by (simp add: ims_queue_def index_entries_def packet_at_def)
  also have "map (packet_at st) (remove1 p q) = remove1 (packet_at st p) (ims_queue st)"
    using map_remove1_inj [of "packet_at st" p q] packet_at_inj [OF g(3) assms(4)] p i(2)
    by (simp add: insert_absorb ims_queue_def q index_entries_def)
  also have "\<dots> = filter (\<lambda>y. y \<noteq> packet_at st p) (ims_queue st)"
    using queue_packets(2) [OF assms(3,4)] q by (simp add: distinct_remove1_removeAll removeAll_filter_not_eq eq_commute)
  also have "ims_queue st = in_order log (set (ims_packets st))" using assms(1) by (simp add: queued_def)
  also have "filter (\<lambda>y. y \<noteq> packet_at st p) \<dots> @ [packet_at st p] = in_order (log @ [packet_at st p]) (insert (packet_at st p) (set (ims_packets st)))"
    by (rule in_order_snoc [symmetric])
  also have "insert (packet_at st p) (set (ims_packets st)) = set (ims_packets st')"
    using p accessed_packets [OF assms(2)] by (auto simp: ims_packets_def)
  finally show ?thesis using st' by (simp add: queued_def)
qed

lemma fifo_accessed_queued:
  assumes "queued ByArrival log st" "accessed p st st'"
  shows "queued ByArrival log st'"
  using assms accessed_packets [OF assms(2)]
  by (auto simp: accessed_def queued_def afterAccess_def ims_queue_def packet_at_def fun_eq_iff)

lemma lru_effect:
  assumes "queued ByUsedTime (uses h) st" "ims_effect sha256 tie st e st'" "ims_good sha256 st" "m_nPackets st < 2 ^ 63"
    and "\<And>x. length (sha256 x) = 32" "ims_good sha256 st'"
  shows "queued ByUsedTime (uses (h @ e)) st'"
  using assms(2)
proof (rule ims_effectE)
  assume "e = []" "kept st st'"
  then show ?thesis using kept_queued [OF assms(1) _ assms(3,5)] by simp
next
  fix p assume "e = [Used (packet_at st p)]" "accessed p st st'"
  then show ?thesis using lru_accessed_queued [OF assms(1) _ assms(3,5)] by (simp add: uses_def)
next
  fix d now window
  assume "e = [Arrived (as_stored sha256 d)]" "storable sha256 d" "\<not> is_stored sha256 (full_view sha256 d) st"
    "ims_insert sha256 tie now window d st = Inr st'"
  then show ?thesis using arrived_queued [OF assms(1,3,4,5) _ _ _ _ assms(6)] by (simp add: uses_def)
qed

lemma fifo_effect:
  assumes "queued ByArrival (arrivals h) st" "ims_effect sha256 tie st e st'" "ims_good sha256 st" "m_nPackets st < 2 ^ 63"
    and "\<And>x. length (sha256 x) = 32" "ims_good sha256 st'"
  shows "queued ByArrival (arrivals (h @ e)) st'"
  using assms(2)
proof (rule ims_effectE)
  assume "e = []" "kept st st'"
  then show ?thesis using kept_queued [OF assms(1) _ assms(3,5)] by simp
next
  fix p assume "e = [Used (packet_at st p)]" "accessed p st st'"
  then show ?thesis using fifo_accessed_queued [OF assms(1)] by (simp add: arrivals_def)
next
  fix d now window
  assume "e = [Arrived (as_stored sha256 d)]" "storable sha256 d" "\<not> is_stored sha256 (full_view sha256 d) st"
    "ims_insert sha256 tie now window d st = Inr st'"
  then show ?thesis using arrived_queued [OF assms(1,3,4,5) _ _ _ _ assms(6)] by (simp add: arrivals_def)
qed

section \<open>Frequencies\<close>

text \<open>How often a packet was used since it arrived.\<close>

definition uses_since :: "ims_event list \<Rightarrow> data \<Rightarrow> nat" where
  "uses_since h d = length (filter (\<lambda>e. e = Used d) (takeWhile (\<lambda>e. e \<noteq> Arrived d) (rev h)))"

lemma uses_since_snoc:
  "uses_since (h @ [Used d]) d' = (if d' = d then Suc (uses_since h d') else uses_since h d')"
  "uses_since (h @ [Arrived d]) d' = (if d' = d then 0 else uses_since h d')"
  by (auto simp: uses_since_def)

lemma uses_since_le: "uses_since h d \<le> length h"
  unfolding uses_since_def using le_trans [OF length_filter_le length_takeWhile_le] by (metis length_rev)

definition counted :: "ims_event list \<Rightarrow> ims \<Rightarrow> bool" where
  "counted h st \<longleftrightarrow> (\<exists>xs. m_cleanupIndex st = ByFrequency xs \<and>
     (\<forall>x \<in> set xs. snd x = word_of_nat (uses_since h (packet_at st (fst x)))))"

lemma counted_index:
  assumes "ims_good sha256 st" "m_cleanupIndex st = ByFrequency xs"
  shows "distinct (map fst xs)" "fst ` set xs = set (m_cache st)" "length xs \<le> m_nPackets st"
  using ims_goodD(4,5,7) [OF assms(1)] index_length [OF ims_goodD(7) [OF assms(1)] ims_goodD(4) [OF assms(1)]] assms(2)
  by (auto simp: index_ok_def index_entries_def)

lemma kept_counted:
  assumes "counted h st" "kept st st'"
  shows "counted h st'"
  using assms by (auto simp: counted_def kept_def index_keep_def)

lemma accessed_counted:
  assumes "counted h st" "accessed p st st'" "ims_good sha256 st" "\<And>x. length (sha256 x) = 32"
  shows "counted (h @ [Used (packet_at st p)]) st'"
proof -
  obtain xs where xs: "m_cleanupIndex st = ByFrequency xs" "\<forall>x \<in> set xs. snd x = word_of_nat (uses_since h (packet_at st (fst x)))"
    using assms(1) by (auto simp: counted_def)
  note i = counted_index [OF assms(3) xs(1)]
  have p: "p \<in> set (m_cache st)" using assms(2) by (simp add: accessed_def)
  have len: "length (map fst xs) \<le> m_nPackets st" using i(3) by simp
  have st': "st' = st\<lparr>m_cleanupIndex := ByFrequency (map (\<lambda>x. if fst x = p then incrementFrequency x else x) xs)\<rparr>"
    using assms(2) lfu.afterAccess [OF xs(1) len i(1), of p] p i(2) by (simp add: accessed_def)
  have "packet_at st (fst x) = packet_at st p \<longleftrightarrow> fst x = p" if "x \<in> set xs" for x
    using inj_on_eq_iff [OF packet_at_inj [OF ims_goodD(3) [OF assms(3)] assms(4)], of "fst x" p] p i(2) that by auto
  then show ?thesis using xs(2)
    by (auto simp: st' counted_def packet_at_def incrementFrequency_def uses_since_snoc)
qed

text \<open>A new packet of the LFU storage: the one that leaves, if any, has the least counter.\<close>

lemma lfu_insert:
  assumes "ims_good sha256 st" "m_nPackets st < 2 ^ 63" "storable sha256 d" "\<And>x. length (sha256 x) = 32"
    and "\<not> is_stored sha256 (full_view sha256 d) st" "m_cleanupIndex st = ByFrequency xs"
  obtains p u ys where "ims_insert sha256 tie now window d st = Inr (u\<lparr>m_cleanupIndex := ByFrequency (ys @ [(p, 0)])\<rparr>)"
    "packet_at u p = as_stored sha256 d" "\<And>q. q \<in> fst ` set ys \<Longrightarrow> packet_at u q = packet_at st q" "set ys \<subseteq> set xs"
    "set (m_cache u) = insert p (fst ` set ys)"
    "m_nPackets st < m_limit st \<or> (\<exists>v \<in> set xs. (\<forall>x \<in> set xs. snd v \<le> snd x) \<and> fst ` set ys = set (m_cache st) - {fst v})"
proof -
  note g = ims_goodD [OF assms(1)]
  note i = counted_index [OF assms(1,6)]
  obtain p u j and t :: ims where u: "ims_insert sha256 tie now window d st = Inr (u\<lparr>m_cleanupIndex := j\<rparr>)" "afterInsert p u = Inr (u\<lparr>m_cleanupIndex := j\<rparr>)"
    "if m_nPackets st < m_limit st then same_cache st t
     else \<exists>q j. evictItem sha256 tie st = (True, t) \<and> t = (freeEntry q st)\<lparr>m_cleanupIndex := j\<rparr> \<and> q \<in> set (m_cache st)"
    "p \<notin> set (m_cache t)" "set (m_cache u) = insert p (set (m_cache t))" "m_cleanupIndex u = m_cleanupIndex t"
    "packet_at u p = as_stored sha256 d" "\<And>q. q \<in> set (m_cache t) \<Longrightarrow> packet_at u q = packet_at st q" "m_nPackets u = Suc (m_nPackets t)"
    by (rule insert_entries [OF assms(1-5), of tie now window]) blast
  have "\<exists>ys. m_cleanupIndex t = ByFrequency ys \<and> set ys \<subseteq> set xs \<and> fst ` set ys = set (m_cache t) \<and> length ys \<le> m_nPackets t \<and>
    (m_nPackets st < m_limit st \<or> (\<exists>v \<in> set xs. (\<forall>x \<in> set xs. snd v \<le> snd x) \<and> set (m_cache t) = set (m_cache st) - {fst v}))"
  proof (cases "m_nPackets st < m_limit st")
    case True
    then show ?thesis using u(3) assms(6) i by (auto simp: same_cache_def)
  next
    case False
    then have e: "evictItem sha256 tie st = (True, t)" "m_cache st \<noteq> []" using u(3) by auto
    let ?v = "byFrequency_begin tie xs" and ?ys = "filter (\<lambda>x. fst x \<noteq> fst (byFrequency_begin tie xs)) xs"
    have v: "t = (freeEntry (fst ?v) st)\<lparr>m_cleanupIndex := ByFrequency ?ys\<rparr>" "fst ?v \<in> set (m_cache st)"
      using lfu.evict_ok [OF g(6) assms(6) g(7) [unfolded assms(6)] e(2), of tie] e(1) by auto
    have "xs \<noteq> []" using i(2) e(2) by auto
    note least = byFrequency_begin_least [OF this, of tie]
    have "length ?ys < length xs" using least by (intro length_filter_less) auto
    then have "length ?ys \<le> m_nPackets t" using v(1) i(3) by (simp add: freeEntry_def)
    moreover have "set (m_cache t) = set (m_cache st) - {fst ?v}" using v g(4) by simp
    moreover have "fst ` set ?ys = set (m_cache st) - {fst ?v}" unfolding i(2) [symmetric] by auto
    ultimately show ?thesis using v(1) least by (intro exI [of _ ?ys]) auto
  qed
  then obtain ys where ys: "m_cleanupIndex t = ByFrequency ys" "set ys \<subseteq> set xs" "fst ` set ys = set (m_cache t)" "length ys \<le> m_nPackets t"
    "m_nPackets st < m_limit st \<or> (\<exists>v \<in> set xs. (\<forall>x \<in> set xs. snd v \<le> snd x) \<and> set (m_cache t) = set (m_cache st) - {fst v})" by blast
  then have "afterInsert p u = Inr (u\<lparr>m_cleanupIndex := ByFrequency (ys @ [(p, 0)])\<rparr>)"
    using u(4,6,9) by (simp add: afterInsert_def Lfu_afterInsert_def)
  then show thesis using u ys by (intro that [where u = u and ys = ys and p = p]) simp_all
qed

lemma arrived_counted:
  assumes "counted h st" "ims_good sha256 st" "m_nPackets st < 2 ^ 63" "storable sha256 d" "\<And>x. length (sha256 x) = 32"
    and "\<not> is_stored sha256 (full_view sha256 d) st" "ims_insert sha256 tie now window d st = Inr st'"
  shows "counted (h @ [Arrived (as_stored sha256 d)]) st'"
proof -
  obtain xs where xs: "m_cleanupIndex st = ByFrequency xs" "\<forall>x \<in> set xs. snd x = word_of_nat (uses_since h (packet_at st (fst x)))"
    using assms(1) by (auto simp: counted_def)
  note i = counted_index [OF assms(2) xs(1)]
  obtain p u ys where u: "ims_insert sha256 tie now window d st = Inr (u\<lparr>m_cleanupIndex := ByFrequency (ys @ [(p, 0)])\<rparr>)"
    "packet_at u p = as_stored sha256 d" "\<And>q. q \<in> fst ` set ys \<Longrightarrow> packet_at u q = packet_at st q" "set ys \<subseteq> set xs"
    by (rule lfu_insert [OF assms(2-4,5,6) xs(1), of tie now window]) blast
  have "full_view sha256 (as_stored sha256 d) = full_view sha256 d" by (simp add: full_name_view digest_component_view)
  then have other: "packet_at st (fst x) \<noteq> as_stored sha256 d" if "x \<in> set xs" for x
    using assms(6) imageI [OF that, of fst] unfolding i(2) by (auto simp: is_stored_def ims_packets_def)
  have old: "snd y = word_of_nat (uses_since (h @ [Arrived (as_stored sha256 d)]) (packet_at u (fst y)))" if "y \<in> set ys" for y
    using u(3) [OF imageI, OF that] other [OF subsetD [OF u(4) that]] bspec [OF xs(2) subsetD [OF u(4) that]] by (simp add: uses_since_snoc)
  have st': "st' = u\<lparr>m_cleanupIndex := ByFrequency (ys @ [(p, 0)])\<rparr>" using u(1) assms(7) by simp
  have "packet_at st' q = packet_at u q" for q by (simp add: st' packet_at_def)
  then show ?thesis using old u(2) by (auto simp: counted_def st' uses_since_snoc)
qed

lemma lfu_effect:
  assumes "counted h st" "ims_effect sha256 tie st e st'" "ims_good sha256 st" "m_nPackets st < 2 ^ 63" "\<And>x. length (sha256 x) = 32"
  shows "counted (h @ e) st'"
  using assms(2)
proof (rule ims_effectE)
  assume "e = []" "kept st st'"
  then show ?thesis using kept_counted [OF assms(1)] by simp
next
  fix p assume "e = [Used (packet_at st p)]" "accessed p st st'"
  then show ?thesis using accessed_counted [OF assms(1) _ assms(3,5)] by simp
next
  fix d now window
  assume "e = [Arrived (as_stored sha256 d)]" "storable sha256 d" "\<not> is_stored sha256 (full_view sha256 d) st"
    "ims_insert sha256 tie now window d st = Inr st'"
  then show ?thesis using arrived_counted [OF assms(1,3,4) _ assms(5)] by simp
qed

section \<open>New storages\<close>

definition proper_storage :: "cleanup_index \<Rightarrow> nat \<Rightarrow> bool" where
  "proper_storage index limit \<longleftrightarrow> m_initCapacity \<le> limit \<and>
     (index = NoIndex \<and> limit = size_max \<or> index = ByArrival [] \<or> index = ByUsedTime [] \<or> index = ByFrequency [])"

lemma new_storage:
  assumes "proper_storage index limit"
  shows "ims_good sha256 (ims_make index scheduler limit)" "m_nPackets (ims_make index scheduler limit) = 0"
    "m_limit (ims_make index scheduler limit) = limit" "m_cleanupIndex (ims_make index scheduler limit) = index"
    "m_cache (ims_make index scheduler limit) = []"
proof -
  have i: "index_entries index = []" "m_initCapacity \<le> limit" "index = NoIndex \<longrightarrow> limit = size_max"
    using assms by (auto simp: proper_storage_def index_entries_def)
  show "ims_good sha256 (ims_make index scheduler limit)" by (rule make_good [OF i])
  note m = make_ok [OF i(1), of sha256 scheduler limit]
  show "m_nPackets (ims_make index scheduler limit) = 0" "m_limit (ims_make index scheduler limit) = limit"
    "m_cleanupIndex (ims_make index scheduler limit) = index" "m_cache (ims_make index scheduler limit) = []"
    using m by (auto simp: ims_inv_def storage_ok_def)
qed

text \<open>What holds of a new storage and is kept by every effect holds after any sequence of calls.\<close>

lemma run_new:
  assumes "proper_storage index limit" "\<And>x. length (sha256 x) = 32" "length cs \<le> 2 ^ 63" "list_all (call_ok sha256) cs"
    and init: "Inv [] (ims_make index scheduler limit)"
    and step: "\<And>h st e st'. Inv h st \<Longrightarrow> ims_good sha256 st \<Longrightarrow> m_nPackets st < 2 ^ 63 \<Longrightarrow> ims_effect sha256 tie st e st' \<Longrightarrow>
      ims_good sha256 st' \<Longrightarrow> Inv (h @ e) st'"
  obtains h st where "ims_run sha256 tie cs (ims_make index scheduler limit) = Inr (h, st)" "Inv h st" "ims_good sha256 st"
    "m_nPackets st \<le> length cs" "length h \<le> length cs" "m_limit st = limit"
proof -
  note n = new_storage(1) [OF assms(1), of sha256 scheduler] new_storage(2,3) [OF assms(1), of scheduler]
  have "m_nPackets (ims_make index scheduler limit) + length cs \<le> 2 ^ 63" using n(2) assms(3) by simp
  then have "\<exists>h' st'. ims_run sha256 tie cs (ims_make index scheduler limit) = Inr (h', st') \<and> Inv ([] @ h') st' \<and> ims_good sha256 st' \<and>
      m_nPackets st' \<le> m_nPackets (ims_make index scheduler limit) + length cs \<and> length h' \<le> length cs \<and>
      m_limit st' = m_limit (ims_make index scheduler limit)"
    by (intro run_induct [where Inv = Inv, OF assms(2) _ init n(1) _ assms(4)]) (rule step)
  then show thesis using that n(2,3) by auto
qed

section \<open>Iteration, printing and destruction\<close>

lemma Component_toUri_returns: "wf_block c \<Longrightarrow> \<exists>s. Component_toUri env format c = Inr s"
  using toNumber_spec [of c] by (cases "ComponentTypeTable_get (m_type c)") (auto simp: Component_toUri_def)

lemma Name_uri_components_returns: "list_all wf_block cs \<Longrightarrow> \<exists>s. Name_uri_components env format cs = Inr s"
proof (induction cs)
  case (Cons c cs)
  obtain s where "Component_toUri env format c = Inr s" using Component_toUri_returns [of c] Cons.prems by auto
  then show ?case using Cons by auto
qed simp

lemma Name_toUri_returns:
  assumes "name_canon n"
  shows "\<exists>s. Name_toUri env format n = Inr s"
proof -
  have "list_all wf_block (components n)" using name_canon_wf [OF assms] by (cases "name_wire n") (simp add: list_all_iff)
  then show ?thesis using Name_uri_components_returns [of "components n" env format] by (auto simp: Name_toUri_def)
qed

lemma printCache_returns: "\<forall>p \<in> set ps. name_canon (getFullName sha256 st p) \<Longrightarrow> \<exists>s. printCache env sha256 st ps = Inr s"
proof (induction ps)
  case (Cons p ps)
  obtain s where "Name_toUri env UriFormat_DEFAULT (getFullName sha256 st p) = Inr s" using Name_toUri_returns Cons.prems by (metis list.set_intros(1))
  then show ?case using Cons by auto
qed simp

lemma iterator_steps:
  assumes "k \<le> length (m_cache st)"
  shows "(iterator_increment st ^^ k) (Some (packet_at st (hd (m_cache st))), 0) =
    (if k = 0 then Some (packet_at st (hd (m_cache st))) else if k < length (m_cache st) then Some (ims_packets st ! k) else None, k)"
  using assms by (induction k) (auto simp: iterator_increment_def Let_def ims_packets_def packet_at_def)

lemma fold_freeEntry:
  "length (m_freeEntries (fold freeEntry ps st)) = length (m_freeEntries st) + length ps" "m_capacity (fold freeEntry ps st) = m_capacity st"
  by (induction ps arbitrary: st) (simp_all add: freeEntry_def)

lemma destroy_returns:
  assumes "ims_good sha256 st"
  shows "ims_destroy st = Inr ()"
  using ims_goodD(1,5) [OF assms] by (simp add: ims_destroy_def Let_def ims_inv_def fold_freeEntry)

lemma queue_replaces:
  assumes "queued mk log st" "ims_good sha256 st" "m_nPackets st < 2 ^ 63" "\<And>x. length (sha256 x) = 32" "mk = ByArrival \<or> mk = ByUsedTime"
    and "storable sha256 d"
  shows "\<exists>st'. ims_insert sha256 tie now window d st = Inr st' \<and> set (ims_packets st') =
    (let q = in_order log (set (ims_packets st)) in
     if is_stored sha256 (full_view sha256 d) st then set q
     else insert (as_stored sha256 d) (set (if length q < m_limit st then q else tl q)))"
proof -
  note g = ims_goodD [OF assms(2)]
  obtain q where q: "m_cleanupIndex st = mk q" using assms(1) by (auto simp: queued_def)
  have ne: "mk q' \<noteq> NoIndex" for q' using assms(5) by auto
  have Q: "in_order log (set (ims_packets st)) = ims_queue st" using assms(1) by (simp add: queued_def)
  show ?thesis
  proof (cases "is_stored sha256 (full_view sha256 d) st")
    case True
    then show ?thesis unfolding Q
      using insert_stored [OF g(1) assms(6,4)] is_stored_key [OF g(3) assms(4)] queue_packets(1) [OF assms(2,4)] q ne by simp
  next
    case False
    obtain st' where st': "ims_insert sha256 tie now window d st = Inr st'" "ims_good sha256 st'"
      using insert_good [OF assms(2,3,6,4)] by blast
    have "ims_queue st' = queue_insert (m_limit st) (as_stored sha256 d) (ims_queue st)" "m_cleanupIndex st' \<noteq> NoIndex"
      using insert_queue [OF assms(2,3,6,4) False q assms(5), of tie now window] st'(1) ne by auto metis
    then have "set (ims_packets st') = set (queue_insert (m_limit st) (as_stored sha256 d) (ims_queue st))"
      using queue_packets(1) [OF st'(2) assms(4)] by simp
    then show ?thesis unfolding Q using st'(1) False by (simp add: queue_insert_def)
  qed
qed

text \<open>Insertion of new packets while there is room, as a sequence of calls.\<close>

lemma run_inserts:
  assumes "ims_inv sha256 st" "list_all (storable sha256) ds" "\<And>x. length (sha256 x) = 32" "distinct (map (full_view sha256) ds)"
    and "\<And>d. d \<in> set ds \<Longrightarrow> \<not> is_stored sha256 (full_view sha256 d) st" "m_nPackets st + length ds \<le> m_capacity st"
  shows "\<exists>st'. ims_run sha256 tie (map (CallInsert 0 0) ds) st = Inr (map (\<lambda>d. Arrived (as_stored sha256 d)) ds, st') \<and>
    m_nPackets st' = m_nPackets st + length ds \<and> (\<forall>v. is_stored sha256 v st' \<longleftrightarrow> v \<in> full_view sha256 ` set ds \<or> is_stored sha256 v st)"
  using assms(1,2,4,5,6)
proof (induction ds arbitrary: st)
  case (Cons d ds)
  have d: "storable sha256 d" "\<not> is_stored sha256 (full_view sha256 d) st" "m_nPackets st < m_capacity st" using Cons.prems by simp_all
  obtain t where t: "ims_insert sha256 tie 0 0 d st = Inr t" "ims_inv sha256 t" "m_nPackets t = Suc (m_nPackets st)" "m_capacity t = m_capacity st"
    "\<And>v. is_stored sha256 v t \<longleftrightarrow> v = full_view sha256 d \<or> is_stored sha256 v st"
    by (rule insert_while_room [OF Cons.prems(1) d(1) assms(3) d(2,3), of tie 0 0]) blast
  have new: "\<not> is_stored sha256 (full_view sha256 d') t" if "d' \<in> set ds" for d'
  proof -
    have "full_view sha256 d' \<in> full_view sha256 ` set ds" using that by (rule imageI)
    then have "full_view sha256 d' \<noteq> full_view sha256 d" using Cons.prems(3) by auto
    then show ?thesis using that Cons.prems(4) [of d'] t(5) by simp
  qed
  have ih: "list_all (storable sha256) ds" "distinct (map (full_view sha256) ds)" "m_nPackets t + length ds \<le> m_capacity t"
    using Cons.prems t(3,4) by simp_all
  obtain st' where "ims_run sha256 tie (map (CallInsert 0 0) ds) t = Inr (map (\<lambda>d. Arrived (as_stored sha256 d)) ds, st')"
    "m_nPackets st' = m_nPackets t + length ds" "\<forall>v. is_stored sha256 v st' \<longleftrightarrow> v \<in> full_view sha256 ` set ds \<or> is_stored sha256 v t"
    using Cons.IH [OF t(2) ih(1,2) _ ih(3)] new by blast
  then show ?case using t(1,3,5) d(2) by auto
qed simp

lemma sample_run:
  assumes "index \<in> {ByArrival [], ByUsedTime [], ByFrequency []}"
  obtains st where "ims_run zero_hash tie (map (CallInsert 0 0) samples) (ims_make index False 16) =
      Inr (map (\<lambda>d. Arrived (as_stored zero_hash d)) samples, st)"
    "m_nPackets st = 16" "\<not> is_stored zero_hash (full_view zero_hash (sample 17)) st"
proof -
  let ?st = "ims_make index False 16"
  have "index_entries index = []" using assms by (auto simp: index_entries_def)
  note m = make_ok [OF this, of zero_hash False 16]
  have m': "ims_inv zero_hash ?st" "m_nPackets ?st = 0" "m_capacity ?st = 16" "m_cache ?st = []"
    using m by (auto simp: ims_inv_def storage_ok_def m_initCapacity_def)
  have none: "\<not> is_stored zero_hash v ?st" for v using m'(4) by (simp add: is_stored_def ims_packets_def)
  have len: "m_nPackets ?st + length samples \<le> m_capacity ?st" using m' by (simp add: samples_ok)
  obtain st where "ims_run zero_hash tie (map (CallInsert 0 0) samples) ?st = Inr (map (\<lambda>d. Arrived (as_stored zero_hash d)) samples, st)"
    "m_nPackets st = m_nPackets ?st + length samples" "\<forall>v. is_stored zero_hash v st \<longleftrightarrow> v \<in> full_view zero_hash ` set samples \<or> is_stored zero_hash v ?st"
    using run_inserts [OF m'(1) samples_ok(1) length_zero_hash samples_ok(2) none len, of tie] by blast
  then show thesis using that [of st] m'(2) none samples_ok(3,4) by simp
qed

lemma sample_calls: "length (map (CallInsert 0 0) samples) < 2 ^ 63" "list_all (call_ok zero_hash) (map (CallInsert 0 0) samples)"
  "m_initCapacity \<le> 16"
  using samples_ok by (simp_all add: list_all_iff m_initCapacity_def)

lemma in_order_full:
  assumes "length (in_order xs S) = length xs"
  shows "in_order xs S = xs"
proof -
  have l: "length (filter (\<lambda>x. x \<in> S) (remdups xs)) = length (remdups xs)" "length (remdups xs) = length xs"
    using assms [unfolded in_order_def] length_filter_le [of "\<lambda>x. x \<in> S" "remdups xs"] length_remdups_leq [of xs] by linarith+
  then have "remdups xs = xs" by (simp only: length_remdups_eq)
  moreover have "filter (\<lambda>x. x \<in> S) (remdups xs) = remdups xs" using l(1) length_filter_less [of _ "remdups xs"] by (metis filter_True nat_neq_iff)
  ultimately show ?thesis by (simp add: in_order_def)
qed

text \<open>The three policies after any sequence of calls.\<close>

lemma run_queue:
  assumes "mk = ByArrival \<and> log = arrivals \<or> mk = ByUsedTime \<and> log = uses" "m_initCapacity \<le> limit" "\<And>x. length (sha256 x) = 32"
    and "length cs < 2 ^ 63" "list_all (call_ok sha256) cs" "ims_run sha256 tie cs (ims_make (mk []) scheduler limit) = Inr (h, st)"
  shows "queued mk (log h) st" "ims_good sha256 st" "m_nPackets st < 2 ^ 63" "m_limit st = limit" "length (ims_queue st) = m_nPackets st"
proof -
  have p: "proper_storage (mk []) limit" using assms(1,2) by (auto simp: proper_storage_def)
  have init: "queued mk (log []) (ims_make (mk []) scheduler limit)"
    using assms(1) new_storage(4,5) [OF p, of scheduler] by (auto simp: queued_def ims_queue_def index_entries_def in_order_def uses_def arrivals_def)
  have step: "queued mk (log (h @ e)) st'" if "queued mk (log h) st" "ims_good sha256 st" "m_nPackets st < 2 ^ 63" "ims_effect sha256 tie st e st'"
      "ims_good sha256 st'" for h st e st'
    using assms(1) lru_effect [OF _ that(4,2,3) assms(3) that(5)] fifo_effect [OF _ that(4,2,3) assms(3) that(5)] that(1) by auto
  obtain q: "queued mk (log h) st" "ims_good sha256 st" "m_nPackets st \<le> length cs" "m_limit st = limit"
    by (rule run_new [where Inv = "\<lambda>h. queued mk (log h)", OF p assms(3) less_imp_le [OF assms(4)] assms(5) init, OF step])
      (use assms(6) in auto)
  moreover have "m_cleanupIndex st \<noteq> NoIndex" using q(1) assms(1) by (auto simp: queued_def)
  ultimately show "queued mk (log h) st" "ims_good sha256 st" "m_nPackets st < 2 ^ 63" "m_limit st = limit" "length (ims_queue st) = m_nPackets st"
    using assms(4) queue_length [OF q(2)] by simp_all
qed

lemma run_counted:
  assumes "m_initCapacity \<le> limit" "\<And>x. length (sha256 x) = 32"
    and "length cs < 2 ^ 63" "list_all (call_ok sha256) cs" "ims_run sha256 tie cs (ims_make (ByFrequency []) scheduler limit) = Inr (h, st)"
  shows "counted h st" "ims_good sha256 st" "m_nPackets st < 2 ^ 63" "m_limit st = limit" "length h < 2 ^ 63"
proof -
  have p: "proper_storage (ByFrequency []) limit" using assms(1) by (simp add: proper_storage_def)
  have init: "counted [] (ims_make (ByFrequency []) scheduler limit)" using new_storage(4) [OF p, of scheduler] by (simp add: counted_def)
  have step: "counted (h @ e) st'" if "counted h st" "ims_good sha256 st" "m_nPackets st < 2 ^ 63" "ims_effect sha256 tie st e st'"
      "ims_good sha256 st'" for h st e st'
    using lfu_effect [OF that(1,4,2,3) assms(2)] .
  obtain q: "counted h st" "ims_good sha256 st" "m_nPackets st \<le> length cs" "length h \<le> length cs" "m_limit st = limit"
    by (rule run_new [where Inv = counted, OF p assms(2) less_imp_le [OF assms(3)] assms(4) init, OF step])
      (use assms(5) in auto)
  then show "counted h st" "ims_good sha256 st" "m_nPackets st < 2 ^ 63" "m_limit st = limit" "length h < 2 ^ 63" using assms(3) by simp_all
qed

section \<open>Properties\<close>

text \<open>
  C18: A storage with a limit of at least sixteen, or without one, does not fail.  Any sequence of fewer than \<open>2^63\<close> calls of \<open>insert\<close> (of
  signed packets), of both lookups and of \<open>erase\<close> (with names in canonical form) and of expiring events on a new storage returns:
  no assertion of the storage or of a replacement policy fails, no entry is taken from an empty pool, and the capacity can always be reduced
  when the code reduces it.  Afterwards the storage can be printed, the assertion of its destructor holds, and its iterators give the
  packets in the order of their full names and then arrive at \<open>end()\<close>; but \<open>begin()\<close> of an empty storage dereferences \<open>end()\<close>.  Limits below
  sixteen are left out here: with them an assertion does fail, which is a property of its own.
\<close>

theorem ims_operations_return:
  assumes "proper_storage index limit" "\<And>x. length (sha256 x) = 32" "length cs < 2 ^ 63" "list_all (call_ok sha256) cs"
  shows "\<exists>h st. ims_run sha256 tie cs (ims_make index scheduler limit) = Inr (h, st) \<and> ims_destroy st = Inr () \<and>
    (\<exists>s. printCache env sha256 st (m_cache st) = Inr s) \<and>
    (case ims_begin st of
       Inl e \<Rightarrow> ims_packets st = []
     | Inr it \<Rightarrow> ims_packets st \<noteq> [] \<and>
         map (\<lambda>k. iterator_dereference ((iterator_increment st ^^ k) it)) [0..<length (ims_packets st)] = map Inr (ims_packets st) \<and>
         iterator_equals ((iterator_increment st ^^ length (ims_packets st)) it) (ims_end st))"
proof -
  have len: "length cs \<le> 2 ^ 63" using assms(3) by simp
  obtain h st where st: "ims_run sha256 tie cs (ims_make index scheduler limit) = Inr (h, st)" "ims_good sha256 st"
    by (rule run_new [OF assms(1,2) len assms(4), where Inv = "\<lambda>_ _. True" and scheduler = scheduler and tie = tie]) auto
  have "\<exists>s. printCache env sha256 st (m_cache st) = Inr s"
    using printCache_returns cache_okD(2) [OF ims_goodD(3) [OF st(2)]] by blast
  moreover have "case ims_begin st of
       Inl e \<Rightarrow> ims_packets st = []
     | Inr it \<Rightarrow> ims_packets st \<noteq> [] \<and>
         map (\<lambda>k. iterator_dereference ((iterator_increment st ^^ k) it)) [0..<length (ims_packets st)] = map Inr (ims_packets st) \<and>
         iterator_equals ((iterator_increment st ^^ length (ims_packets st)) it) (ims_end st)"
  proof (cases "m_cache st")
    case Nil
    then show ?thesis by (simp add: ims_begin_def ims_packets_def)
  next
    case (Cons p ps)
    let ?n = "length (m_cache st)" and ?it = "(Some (packet_at st (hd (m_cache st))), 0)"
    have "iterator_dereference ((iterator_increment st ^^ k) ?it) = Inr (ims_packets st ! k)" if "k < ?n" for k
      using that iterator_steps [of k st] Cons by (auto simp: iterator_dereference_def ims_packets_def)
    then have "map (\<lambda>k. iterator_dereference ((iterator_increment st ^^ k) ?it)) [0..<?n] = map Inr (ims_packets st)"
      by (intro nth_equalityI) (simp_all add: ims_packets_def)
    moreover have "ims_begin st = Inr ?it" using Cons by (simp add: ims_begin_def packet_at_def)
    ultimately show ?thesis
      using iterator_steps [of ?n st] Cons by (simp add: iterator_equals_def ims_end_def ims_packets_def)
  qed
  ultimately show ?thesis using st(1) destroy_returns [OF st(2)] by blast
qed

theorem ims_operations_return_witness:
  "\<exists>h st it. ims_run zero_hash (\<lambda>_. 0) (map (CallInsert 0 0) samples) (ims_make (ByUsedTime []) False 16) = Inr (h, st) \<and>
    ims_destroy st = Inr () \<and> ims_begin st = Inr it \<and> iterator_equals ((iterator_increment st ^^ 16) it) (ims_end st)"
proof -
  have p: "proper_storage (ByUsedTime []) 16" by (simp add: proper_storage_def sample_calls(3))
  have z: "length (zero_hash x) = 32" for x by simp
  obtain st where st: "ims_run zero_hash (\<lambda>_. 0) (map (CallInsert 0 0) samples) (ims_make (ByUsedTime []) False 16) =
      Inr (map (\<lambda>d. Arrived (as_stored zero_hash d)) samples, st)" "m_nPackets st = 16"
    by (rule sample_run [of "ByUsedTime []" "\<lambda>_. 0"]) auto
  have g: "ims_good zero_hash st"
    by (rule run_new [OF p z less_imp_le [OF sample_calls(1)] sample_calls(2), where Inv = "\<lambda>_ _. True" and scheduler = False and tie = "\<lambda>_. 0"])
      (use st(1) in auto)
  have len: "length (ims_packets st) = 16" using ims_goodD(5) [OF g] st(2) by (simp add: ims_packets_def)
  from ims_operations_return [OF p z sample_calls(1,2), of "\<lambda>_. 0" False None] st(1) len show ?thesis
    by (auto split: sum.splits)
qed

text \<open>
  C19: The LRU storage replaces the packet whose last use is the oldest.  After any sequence of insertions, lookups by name and by Interest,
  erasures and events, its queue has the stored packets in the order of their last use (their arrival counts as one), and a new packet
  takes the place of the first of them once the limit is reached.  A use is a lookup that returns the packet; the exception is a lookup by an
  Interest whose name is the full name of a stored packet, which the code does not count.
\<close>

theorem lru_refines_queue:
  assumes "m_initCapacity \<le> limit" "\<And>x. length (sha256 x) = 32" "length cs < 2 ^ 63" "list_all (call_ok sha256) cs"
    and "ims_run sha256 tie cs (InMemoryStorageLru scheduler limit) = Inr (h, st)" "storable sha256 d"
  shows "ims_queue st = in_order (uses h) (set (ims_packets st)) \<and>
    (\<exists>st'. ims_insert sha256 tie now window d st = Inr st' \<and> set (ims_packets st') =
      (let q = in_order (uses h) (set (ims_packets st)) in
       if is_stored sha256 (name_view (full_name sha256 d)) st then set q
       else insert (as_stored sha256 d) (set (if length q < limit then q else tl q))))"
proof -
  note q = run_queue [where mk = ByUsedTime and log = uses, OF _ assms(1-4) assms(5) [unfolded InMemoryStorageLru_def], simplified]
  show ?thesis using queue_replaces [OF q(1,2) _ assms(2) _ assms(6), of tie now window, unfolded q(4)] q(1,3) by (simp add: queued_def)
qed

theorem lru_refines_queue_witness:
  "\<exists>h st st'. ims_run zero_hash (\<lambda>_. 0) (map (CallInsert 0 0) samples) (InMemoryStorageLru False 16) = Inr (h, st) \<and>
    ims_queue st = map (as_stored zero_hash) samples \<and> ims_insert zero_hash (\<lambda>_. 0) 0 0 (sample 17) st = Inr st' \<and>
    set (ims_packets st') = insert (as_stored zero_hash (sample 17)) (as_stored zero_hash ` set (tl samples))"
proof -
  have z: "length (zero_hash x) = 32" for x by simp
  let ?h = "map (\<lambda>d. Arrived (as_stored zero_hash d)) samples"
  obtain st where st: "ims_run zero_hash (\<lambda>_. 0) (map (CallInsert 0 0) samples) (InMemoryStorageLru False 16) = Inr (?h, st)"
    "m_nPackets st = 16" "\<not> is_stored zero_hash (full_view zero_hash (sample 17)) st"
    unfolding InMemoryStorageLru_def by (rule sample_run [of "ByUsedTime []" "\<lambda>_. 0"]) auto
  note r = lru_refines_queue [OF sample_calls(3) z sample_calls(1,2) st(1) sample_storable [of 17], of 0 0]
  have u: "uses ?h = map (as_stored zero_hash) samples" by (simp add: uses_def comp_def)
  have "length (ims_queue st) = 16"
    using st(2) run_queue(5) [where mk = ByUsedTime and log = uses, OF _ sample_calls(3) z sample_calls(1,2) st(1) [unfolded InMemoryStorageLru_def]] by simp
  then have q: "in_order (uses ?h) (set (ims_packets st)) = map (as_stored zero_hash) samples"
    using conjunct1 [OF r] in_order_full [of "uses ?h" "set (ims_packets st)"] samples_ok(3) unfolding u by simp
  show ?thesis using r st(1,3) samples_ok(3) unfolding q by (auto simp: map_tl [symmetric])
qed

text \<open>
  C20: The FIFO storage replaces the packet that arrived first.  After any sequence of insertions, lookups by name and by Interest, erasures
  and events, its queue has the stored packets in the order in which they arrived (the last time, if one came back), and a new packet
  takes the place of the first of them once the limit is reached; lookups do not change the order.
\<close>

theorem fifo_refines_queue:
  assumes "m_initCapacity \<le> limit" "\<And>x. length (sha256 x) = 32" "length cs < 2 ^ 63" "list_all (call_ok sha256) cs"
    and "ims_run sha256 tie cs (InMemoryStorageFifo scheduler limit) = Inr (h, st)" "storable sha256 d"
  shows "ims_queue st = in_order (arrivals h) (set (ims_packets st)) \<and>
    (\<exists>st'. ims_insert sha256 tie now window d st = Inr st' \<and> set (ims_packets st') =
      (let q = in_order (arrivals h) (set (ims_packets st)) in
       if is_stored sha256 (name_view (full_name sha256 d)) st then set q
       else insert (as_stored sha256 d) (set (if length q < limit then q else tl q))))"
proof -
  note q = run_queue [where mk = ByArrival and log = arrivals, OF _ assms(1-4) assms(5) [unfolded InMemoryStorageFifo_def], simplified]
  show ?thesis using queue_replaces [OF q(1,2) _ assms(2) _ assms(6), of tie now window, unfolded q(4)] q(1,3) by (simp add: queued_def)
qed

theorem fifo_refines_queue_witness:
  "\<exists>h st st'. ims_run zero_hash (\<lambda>_. 0) (map (CallInsert 0 0) samples) (InMemoryStorageFifo False 16) = Inr (h, st) \<and>
    ims_queue st = map (as_stored zero_hash) samples \<and> ims_insert zero_hash (\<lambda>_. 0) 0 0 (sample 17) st = Inr st' \<and>
    set (ims_packets st') = insert (as_stored zero_hash (sample 17)) (as_stored zero_hash ` set (tl samples))"
proof -
  have z: "length (zero_hash x) = 32" for x by simp
  let ?h = "map (\<lambda>d. Arrived (as_stored zero_hash d)) samples"
  obtain st where st: "ims_run zero_hash (\<lambda>_. 0) (map (CallInsert 0 0) samples) (InMemoryStorageFifo False 16) = Inr (?h, st)"
    "m_nPackets st = 16" "\<not> is_stored zero_hash (full_view zero_hash (sample 17)) st"
    unfolding InMemoryStorageFifo_def by (rule sample_run [of "ByArrival []" "\<lambda>_. 0"]) auto
  note r = fifo_refines_queue [OF sample_calls(3) z sample_calls(1,2) st(1) sample_storable [of 17], of 0 0]
  have u: "arrivals ?h = map (as_stored zero_hash) samples" by (simp add: arrivals_def comp_def)
  have "length (ims_queue st) = 16"
    using st(2) run_queue(5) [where mk = ByArrival and log = arrivals, OF _ sample_calls(3) z sample_calls(1,2) st(1) [unfolded InMemoryStorageFifo_def]] by simp
  then have q: "in_order (arrivals ?h) (set (ims_packets st)) = map (as_stored zero_hash) samples"
    using conjunct1 [OF r] in_order_full [of "arrivals ?h" "set (ims_packets st)"] samples_ok(3) unfolding u by simp
  show ?thesis using r st(1,3) samples_ok(3) unfolding q by (auto simp: map_tl [symmetric])
qed

text \<open>
  C21: The LFU storage replaces a packet that was used least often.  After any sequence of fewer than \<open>2^63\<close> insertions, lookups by name and by
  Interest, erasures and events, if the limit is reached, the packet that leaves for a new one has been used no more often since it arrived
  than any other stored packet since it arrived; the 64-bit counters do not wrap around in so short a sequence.  As with LRU, a lookup
  by an Interest whose name is the full name of a stored packet does not count as a use.
\<close>

theorem lfu_evicts_least:
  assumes "m_initCapacity \<le> limit" "\<And>x. length (sha256 x) = 32" "length cs < 2 ^ 63" "list_all (call_ok sha256) cs"
    and "ims_run sha256 tie cs (InMemoryStorageLfu scheduler limit) = Inr (h, st)" "storable sha256 d"
    and "m_nPackets st = limit" "\<not> is_stored sha256 (name_view (full_name sha256 d)) st"
  shows "\<exists>st' v. ims_insert sha256 tie now window d st = Inr st' \<and> v \<in> set (ims_packets st) \<and>
    (\<forall>x \<in> set (ims_packets st). uses_since h v \<le> uses_since h x) \<and>
    set (ims_packets st') = insert (as_stored sha256 d) (set (ims_packets st) - {v})"
proof -
  note c = run_counted [OF assms(1-4) assms(5) [unfolded InMemoryStorageLfu_def]]
  note g = ims_goodD [OF c(2)]
  obtain xs where xs: "m_cleanupIndex st = ByFrequency xs" "\<forall>x \<in> set xs. snd x = word_of_nat (uses_since h (packet_at st (fst x)))"
    using c(1) by (auto simp: counted_def)
  note i = counted_index [OF c(2) xs(1)]
  obtain p u ys where u: "ims_insert sha256 tie now window d st = Inr (u\<lparr>m_cleanupIndex := ByFrequency (ys @ [(p, 0)])\<rparr>)"
    "packet_at u p = as_stored sha256 d" "\<And>q. q \<in> fst ` set ys \<Longrightarrow> packet_at u q = packet_at st q"
    "set (m_cache u) = insert p (fst ` set ys)"
    "m_nPackets st < m_limit st \<or> (\<exists>v \<in> set xs. (\<forall>x \<in> set xs. snd v \<le> snd x) \<and> fst ` set ys = set (m_cache st) - {fst v})"
    by (rule lfu_insert [OF c(2,3) assms(6,2,8) xs(1), of tie now window]) blast
  then obtain v where v: "v \<in> set xs" "\<forall>x \<in> set xs. snd v \<le> snd x" "fst ` set ys = set (m_cache st) - {fst v}" using assms(7) c(4) by auto
  have small: "unat (word_of_nat (uses_since h x) :: uint64) = uses_since h x" for x
    using uses_since_le [of h x] c(5) by (simp add: unat_of_nat)
  have "uses_since h (packet_at st (fst v)) \<le> uses_since h (packet_at st (fst x))" if "x \<in> set xs" for x
    using bspec [OF v(2) that] bspec [OF xs(2) that] bspec [OF xs(2) v(1)] by (simp add: word_le_nat_alt small)
  then have "\<forall>x \<in> set (ims_packets st). uses_since h (packet_at st (fst v)) \<le> uses_since h x"
    unfolding ims_packets_def by (auto simp: i(2) [symmetric])
  moreover have mem: "fst v \<in> set (m_cache st)" using v(1) i(2) by auto
  moreover have "packet_at st ` (set (m_cache st) - {fst v}) = set (ims_packets st) - {packet_at st (fst v)}"
    using inj_on_image_set_diff [OF packet_at_inj [OF g(3) assms(2)], of "set (m_cache st)" "{fst v}"] mem by (simp add: ims_packets_def)
  moreover have "set (ims_packets (u\<lparr>m_cleanupIndex := ByFrequency (ys @ [(p, 0)])\<rparr>)) = insert (as_stored sha256 d) (packet_at st ` (fst ` set ys))"
    using u(2-4) by (simp add: ims_packets_def packet_at_def cong: image_cong)
  ultimately show ?thesis using u(1) v(3)
    by (intro exI [of _ "u\<lparr>m_cleanupIndex := ByFrequency (ys @ [(p, 0)])\<rparr>"] exI [of _ "packet_at st (fst v)"]) (simp add: ims_packets_def)
qed

theorem lfu_evicts_least_witness:
  "\<exists>h st st' v. ims_run zero_hash (\<lambda>_. 0) (map (CallInsert 0 0) samples) (InMemoryStorageLfu False 16) = Inr (h, st) \<and>
    ims_insert zero_hash (\<lambda>_. 0) 0 0 (sample 17) st = Inr st' \<and> (\<forall>x \<in> set (ims_packets st). uses_since h v \<le> uses_since h x) \<and>
    set (ims_packets st') = insert (as_stored zero_hash (sample 17)) (set (ims_packets st) - {v})"
proof -
  have z: "length (zero_hash x) = 32" for x by simp
  obtain st where st: "ims_run zero_hash (\<lambda>_. 0) (map (CallInsert 0 0) samples) (InMemoryStorageLfu False 16) =
      Inr (map (\<lambda>d. Arrived (as_stored zero_hash d)) samples, st)"
    "m_nPackets st = 16" "\<not> is_stored zero_hash (full_view zero_hash (sample 17)) st"
    unfolding InMemoryStorageLfu_def by (rule sample_run [of "ByFrequency []" "\<lambda>_. 0"]) auto
  from lfu_evicts_least [OF sample_calls(3) z sample_calls(1,2) st(1) sample_storable [of 17] st(2,3), of 0 0] st(1) show ?thesis by blast
qed

end
