(* ===== verification/BlockProps.thy ===== *)
theory BlockProps
  imports BlockHelpers
begin

text \<open>
  What the class \<open>Block\<close> promises its clients: every block the library can build satisfies the
  invariant, the four ways of reading an element agree, \<open>parse()\<close> splits a value without losing a
  byte, and \<open>encode()\<close> writes the bytes the block denotes.
\<close>

section \<open>Reachable blocks\<close>

text \<open>
  The calls a client can make, starting from the public constructors.  The preconditions of the class
  are kept: the range constructor gets its positions in order; the two constructors that do not
  check the length, the range constructor with \<open>verifyLength = false\<close> (behind \<open>Encoder::block(false)\<close>) and
  the one that takes the positions of the value, get what their documentation asks for, a TLV element at
  the range and the position of its value; and \<open>encode()\<close> gets an element that can be written at all
  (no type 0, a total size below \<open>2^64\<close>).
\<close>

inductive block_reachable :: "block \<Rightarrow> bool" where
  "block_reachable Block_default"
| "Block_fromSpan bs = Inr b \<Longrightarrow> block_reachable b"
| "Block_fromRange mb i j True = Inr b \<Longrightarrow> i \<le> j \<Longrightarrow> block_reachable b"
| "fromBuffer buf offset = (True, b) \<Longrightarrow> block_reachable b"
| "fromBuffer_span bs = (True, b) \<Longrightarrow> block_reachable b"
| "fromStream s = Inr (b, s') \<Longrightarrow> block_reachable b"
| "block_reachable (Block_ofType t)"
| "block_reachable (Block_ofValue t v)"
| "block_reachable v \<Longrightarrow> Block_ofBlock t v = Inr b \<Longrightarrow> block_reachable b"
| "block_reachable b \<Longrightarrow> block_reachable (Block_reset b)"
| "block_reachable b \<Longrightarrow> block_reachable (resetWire b)"
| "block_reachable b \<Longrightarrow> blockFromValue b = Inr v \<Longrightarrow> block_reachable v"
| "block_reachable b \<Longrightarrow> parse b = (err, b') \<Longrightarrow> block_reachable b'"
| "block_reachable b \<Longrightarrow> Block_get t b = Inr x \<Longrightarrow> block_reachable x"
| "block_reachable b \<Longrightarrow> block_reachable (Block_remove t b)"
| "block_reachable b \<Longrightarrow> block_reachable (Block_erase i b)"
| "block_reachable b \<Longrightarrow> block_reachable (Block_erase_range i j b)"
| "block_reachable b \<Longrightarrow> block_reachable x \<Longrightarrow> block_reachable (Block_push_back x b)"
| "block_reachable b \<Longrightarrow> block_reachable x \<Longrightarrow> block_reachable (Block_insert i x b)"
| "block_reachable b \<Longrightarrow> types_ok b \<Longrightarrow> encode_estimator b < 2 ^ 64 \<Longrightarrow> block_reachable (Block_encode b)"
| "is_tlv (bslice i j buf) t v \<Longrightarrow> i \<le> j \<Longrightarrow> j \<le> length buf \<Longrightarrow> Block_fromRange (Some buf) i j False = Inr b \<Longrightarrow>
    block_reachable b"
| "is_tlv (bslice i j buf) t (bslice vb j buf) \<Longrightarrow> i \<le> vb \<Longrightarrow> vb \<le> j \<Longrightarrow> j \<le> length buf \<Longrightarrow>
    block_reachable (Block_raw buf t i j vb j)"

text \<open>These preconditions are needed: an unverified range whose length field is wrong breaks the invariant.\<close>

lemma unverified_range_not_wf:
  "case Block_fromRange (Some [7, 9, 65]) 0 3 False of Inr b \<Rightarrow> \<not> wf_block b | Inl _ \<Rightarrow> False"
  by code_simp

lemma wf_parse_any:
  assumes "wf_block b" "parse b = (err, b')"
  shows "wf_block b'"
proof (cases "parse b = (None, b')")
  case True
  then show ?thesis by (rule wf_parse [OF assms(1)])
next
  case False
  then obtain er where er: "err = Some er" using assms(2) by (cases err) auto
  with assms(2) obtain buf els where b: "m_buffer b = Some buf"
    "parse_loop buf (m_valueBegin b) (m_valueEnd b) [] = (Some er, els)" "b' = set_elements els b"
    by (auto simp: parse_def set_elements_def split: if_splits option.splits prod.splits)
  have "m_valueBegin b \<le> m_valueEnd b" "m_valueEnd b \<le> length buf"
    using assms(1) b(1) by (cases b; auto)+
  from parse_loop_Some [OF b(2) this] have "list_all wf_block els"
    by (auto simp: consecutive_def list_all_iff)
  with assms(1) b(3) show ?thesis by simp
qed

lemma wf_Block_get: "wf_block b \<Longrightarrow> Block_get t b = Inr x \<Longrightarrow> wf_block x"
  using wf_elements [of b] length_takeWhile_le [of "\<lambda>s. m_type s \<noteq> t" "m_elements b"]
  by (auto simp: Block_get_def Block_find_def Let_def list_all_length le_neq_implies_less split: if_splits)

lemma fromRange_Some: "Block_fromRange mb i j v = Inr b \<Longrightarrow> \<exists>buf. mb = Some buf"
  by (cases mb) (auto simp: Block_fromRange_def)

section \<open>Reading from memory and from a stream\<close>

lemma fromBuffer_span_eq:
  "fromBuffer_span bs = (case Block_fromSpan bs of Inl _ \<Rightarrow> (False, Block_default) | Inr b \<Rightarrow> (True, b))"
proof (cases "readType ContiguousIterator bs")
  case (Inl e)
  then show ?thesis
    using readType_nothrow_iff [of ContiguousIterator bs 0]
    by (auto simp: fromBuffer_span_def Block_fromSpan_def split: prod.split)
next
  case (Inr p)
  then obtain t r1 where t: "readType ContiguousIterator bs = Inr (t, r1)" by (cases p) auto
  show ?thesis
  proof (cases "readVarNumber ContiguousIterator r1")
    case (Inl e)
    then show ?thesis
      using readVarNumber_nothrow_iff [of ContiguousIterator r1 0]
      by (auto simp: fromBuffer_span_def Block_fromSpan_def t readType_nothrow_Inr [OF t] split: prod.split)
  next
    case (Inr q)
    then obtain len r2 where "readVarNumber ContiguousIterator r1 = Inr (len, r2)" by (cases q) auto
    from readVarNumber_nothrow_Inr [OF this] this show ?thesis
      by (simp add: fromBuffer_span_def Block_fromSpan_def t readType_nothrow_Inr [OF t] Block_raw_def Let_def)
  qed
qed

lemma wf_fromBuffer:
  assumes "fromBuffer buf offset = (True, b)"
  shows "wf_block b"
proof -
  let ?bs = "drop offset buf"
  obtain t r1 where t: "readType ContiguousIterator ?bs = Inr (t, r1)"
    using readType_nothrow_iff [of ContiguousIterator ?bs 0] assms
    by (auto simp: fromBuffer_def split: prod.splits if_splits)
  obtain len r2 where l: "readVarNumber ContiguousIterator r1 = Inr (len, r2)"
    using readVarNumber_nothrow_iff [of ContiguousIterator r1 0] assms
    by (auto simp: fromBuffer_def readType_nothrow_Inr [OF t] split: prod.splits if_splits)
  let ?w = "take (length ?bs - length r2 + unat len) ?bs" and ?v = "take (unat len) r2"
  have le: "unat len \<le> length r2"
    and b: "b = Block_raw buf t offset (length buf - length r2 + unat len) (length buf - length r2)
      (length buf - length r2 + unat len)"
    using assms by (auto simp: fromBuffer_def readType_nothrow_Inr [OF t] readVarNumber_nothrow_Inr [OF l]
        Let_def split: if_splits)
  have s: "length r2 < length ?bs" by (rule header_suffix(2) [OF t l])
  then have o: "offset \<le> length buf" by simp
  have "is_tlv ?w t ?v" by (rule header_tlv [OF t l le])
  moreover have "bslice offset (length buf) buf = ?w @ drop (length ?bs - length r2 + unat len) ?bs"
    by (simp only: append_take_drop_id) (simp add: bslice_def)
  ultimately have "wf_block (Block_raw buf t offset (offset + length ?w) (offset + length ?w - length ?v)
      (offset + length ?w))"
    using raw_bytes(3) o by blast
  moreover have "offset + length ?w = length buf - length r2 + unat len"
    "offset + length ?w - length ?v = length buf - length r2"
    using s le o by auto
  ultimately show ?thesis using b by simp
qed

lemma wf_fromStream: "fromStream s = Inr (b, s') \<Longrightarrow> wf_block b"
  by (auto simp: fromStream_def Block_fromPtr_def Let_def bindE_eq_Inr split: prod.splits if_splits
      dest!: Block_fromRange_Inr(1))

lemma fromStream_buffer:
  fixes t :: uint32 and v :: "byte list"
  defines "h \<equiv> varNumber_bytes (ucast t)" and "l \<equiv> varNumber_bytes (word_of_nat (length v))"
  defines "e0 \<equiv> mk_Encoder (length h + length l + length v) (length v)"
  defines "e1 \<equiv> e0\<lparr>e_buffer := overwrite (e_begin e0) v (e_buffer e0)\<rparr>"
  defines "e2 \<equiv> snd (Encoder_prependVarNumber (word_of_nat (length v)) e1)"
  shows "e_buffer (snd (Encoder_prependVarNumber (ucast t) e2)) = tlv_bytes t v"
proof -
  have pos: "0 < length h" "0 < length l" by (simp_all add: h_def l_def sizeOfVarNumber_pos)
  have e0: "e_begin e0 = length h + length l" "e_end e0 = length h + length l"
    "e_buffer e0 = replicate (length h + length l + length v) 0"
    using pos by (simp_all add: e0_def mk_Encoder_def Let_def)
  have e1: "e_buffer e1 = replicate (length h + length l) 0 @ v" "e_begin e1 = length h + length l"
    "e_end e1 = length h + length l"
    by (simp_all add: e1_def e0 overwrite_def)
  have inv: "enc_inv e1" by (simp add: enc_inv_def e1)
  have e2: "e2 = inPlace l e1"
    using prependVarNumber_in_place [OF inv, of "word_of_nat (length v)"] by (simp add: e2_def e1 l_def)
  have "enc_inv e2" "e_begin e2 = length h" using inv by (simp_all add: e2 inPlace_inv e1)
  then have "snd (Encoder_prependVarNumber (ucast t) e2) = inPlace h e2"
    using prependVarNumber_in_place [of e2 "ucast t"] by (simp add: h_def)
  also have "\<dots> = inPlace (h @ l) e1" unfolding e2 by (rule inPlace_append [OF inv]) (simp add: e1)
  finally show ?thesis by (simp add: inPlace_def e1 overwrite_def tlv_bytes_def h_def l_def)
qed

lemma fromStream_tlv:
  assumes "t \<noteq> 0" "length (tlv_bytes t v) \<le> MAX_NDN_PACKET_SIZE"
  shows "fromStream (tlv_bytes t v @ rest) = Inr (tlv_block t v, rest)"
proof -
  let ?len = "word_of_nat (length v) :: uint64"
  have le: "length v \<le> 8800" "sizeOfVarNumber (ucast t) + sizeOfVarNumber ?len + length v \<le> 8800"
    using assms(2) by (simp_all add: length_tlv_bytes MAX_NDN_PACKET_SIZE_def)
  then have un: "unat ?len = length v" by (intro unat_word_of_length) simp
  have sum: "unat (word_of_nat (sizeOfVarNumber (ucast t) + sizeOfVarNumber ?len) + ?len) =
      sizeOfVarNumber (ucast t) + sizeOfVarNumber ?len + length v"
    using le by (simp only: flip: of_nat_add) (rule unat_word_of_length, simp)
  have "Block_fromPtr (tlv_bytes t v) = Inr (tlv_block t v)"
    unfolding Block_fromPtr_def tlv_block_def Let_def
    using Block_fromRange_tlv [of 0 "length (tlv_bytes t v)" "tlv_bytes t v" t v True]
      is_tlv_bytes [OF assms(1), of v] le by (simp add: bslice_def)
  moreover have "\<not> word_of_nat (sizeOfVarNumber (ucast t) + sizeOfVarNumber ?len) + ?len
      > MAX_SIZE_OF_BLOCK_FROM_STREAM"
    using le by (simp only: word_less_nat_alt sum) (simp add: MAX_SIZE_OF_BLOCK_FROM_STREAM_def MAX_NDN_PACKET_SIZE_def)
  ultimately show ?thesis
    using fromStream_buffer [of t v] readType_tlv_bytes [OF assms(1), of OtherIterator v rest]
    by (simp add: fromStream_def readVarNumber_bytes Let_def sum un del: of_nat_add)
qed

section \<open>Properties of Block\<close>

text \<open>
  C1: Every block that clients can obtain by a sequence of constructions, parses (failed ones
  included), edits and encodings that keeps the documented preconditions satisfies the invariant: its
  positions lie inside the shared buffer, its wire is one TLV with the recorded type and value, its size
  is the length of that TLV, and the same holds of its sub-elements.  The preconditions are those of
  \<open>block_reachable\<close>: the constructors that check the length themselves take any bytes, while a range
  with \<open>verifyLength = false\<close> and the constructor from positions must be given one TLV element, without
  which the invariant can fail (\<open>unverified_range_not_wf\<close>).
\<close>

theorem block_reachable_wf:
  assumes "block_reachable b"
  shows "wf_block b"
  using assms
proof (induction rule: block_reachable.induct)
  case (2 bs b)
  then show ?case by (rule Block_fromSpan_Inr(1))
next
  case (3 mb i j b)
  then show ?case using fromRange_Some Block_fromRange_Inr(1) by blast
next
  case (5 bs b)
  then show ?case by (auto simp: fromBuffer_span_eq dest: Block_fromSpan_Inr(1) split: sum.splits)
next
  case (12 b v)
  then have v: "Block_fromRange (m_buffer b) (m_valueBegin b) (m_valueEnd b) True = Inr v"
    by (simp add: blockFromValue_def split: if_splits)
  with fromRange_Some [OF this] obtain buf where buf: "m_buffer b = Some buf"
    "Block_fromRange (Some buf) (m_valueBegin b) (m_valueEnd b) True = Inr v" by auto
  moreover have "m_valueBegin b \<le> m_valueEnd b" using 12(3) buf(1) by (cases b) auto
  ultimately show ?case by (auto dest: Block_fromRange_Inr(1))
next
  case (20 b)
  then show ?case
  proof (cases "hasWire b")
    case True
    then show ?thesis using 20(4) by (simp add: Block_encode_def)
  next
    case False
    then show ?thesis using 20 by (intro Block_encode_spec(1))
  qed
next
  case (4 buf offset b)
  then show ?case by (rule wf_fromBuffer)
next
  case (6 s b s')
  then show ?case by (rule wf_fromStream)
next
  case (9 v t b)
  then show ?case by (blast intro: wf_ofBlock)
next
  case (13 b err b')
  then show ?case by (blast intro: wf_parse_any)
next
  case (14 b t x)
  then show ?case by (blast intro: wf_Block_get)
next
  case (21 i j buf t v b)
  then have "Block_fromRange (Some buf) i j True = Inr b"
    using Block_fromRange_tlv [OF 21(1-3), of False] Block_fromRange_tlv [OF 21(1-3), of True] by simp
  then show ?case using 21(2) by (rule Block_fromRange_Inr(1))
next
  case (22 i j buf t vb)
  then have "i \<noteq> j" by (auto simp: is_tlv_def readType_def)
  then show ?case using 22 by (simp add: Block_raw_def)
qed (simp_all add: Block_reset_def wf_remove wf_erase wf_erase_range wf_push_back wf_insert)

theorem block_reachable_wf_witness:
  "wf_block (Block_encode (Block_push_back (Block_ofValue 8 [65]) (Block_ofType 7)))"
proof -
  let ?b = "Block_push_back (Block_ofValue 8 [65]) (Block_ofType 7)"
  have "types_ok ?b" by code_simp
  moreover have "encode_estimator ?b = 5" by code_simp
  moreover have "block_reachable ?b" by (rule block_reachable.intros(18) [OF block_reachable.intros(7,8)])
  ultimately have "block_reachable (Block_encode ?b)" by (simp add: block_reachable.intros(20))
  then show ?thesis by (rule block_reachable_wf)
qed

text \<open>
  C31: \<open>parse()\<close> of a value that is a sequence of TLVs succeeds and yields exactly these, in order,
  each as a block on the same buffer that satisfies the invariant and is itself not parsed yet.
\<close>

theorem parse_elements:
  assumes "wf_block b" "m_elements b = []" "value_bytes b = tlvs_bytes tvs" "tlvs_ok tvs"
  shows "\<exists>b'. parse b = (None, b') \<and> map view (m_elements b') = tvs \<and> wf_block b' \<and>
    list_all hasWire (m_elements b') \<and> view b' = view b \<and> wire_bytes b' = wire_bytes b"
proof -
  obtain b' where "parse b = (None, b')" "map view (m_elements b') = tvs" "wf_block b'"
    "list_all hasWire (m_elements b')" by (rule parse_tlvs [OF assms])
  with parse_same [of b None b'] show ?thesis by auto
qed

theorem parse_elements_witness:
  "\<exists>b'. parse (Block_ofValue 7 [8, 1, 65, 8, 0]) = (None, b') \<and> map view (m_elements b') = [(8, [65]), (8, [])] \<and>
    wf_block b' \<and> list_all hasWire (m_elements b') \<and>
    view b' = view (Block_ofValue 7 [8, 1, 65, 8, 0]) \<and> wire_bytes b' = wire_bytes (Block_ofValue 7 [8, 1, 65, 8, 0])"
proof (rule parse_elements)
  show "wf_block (Block_ofValue 7 [8, 1, 65, 8, 0])" "m_elements (Block_ofValue 7 [8, 1, 65, 8, 0]) = []" 
    "value_bytes (Block_ofValue 7 [8, 1, 65, 8, 0]) = tlvs_bytes [(8, [65]), (8, [])]"
    "tlvs_ok [(8, [65]), (8, [])]" by (code_simp, code_simp, code_simp, simp)
qed

text \<open>
  C32: When \<open>parse()\<close> succeeds, the sub-elements cover the value: their wires, concatenated, are its
  bytes, with nothing skipped and nothing left over.
\<close>

theorem parse_covers_value:
  assumes "wf_block b" "m_elements b = []" "parse b = (None, b')"
  shows "concat (map wire_bytes (m_elements b')) = value_bytes b \<and>
    list_all (\<lambda>x. wf_block x \<and> hasWire x) (m_elements b')"
  using parse_None [OF assms] wf_elements [of b'] by (auto simp: list_all_iff)

theorem parse_covers_value_witness:
  "concat (map wire_bytes (m_elements (snd (parse (Block_ofValue 7 [253, 0, 8, 1, 65]))))) =
     value_bytes (Block_ofValue 7 [253, 0, 8, 1, 65]) \<and>
   list_all (\<lambda>x. wf_block x \<and> hasWire x) (m_elements (snd (parse (Block_ofValue 7 [253, 0, 8, 1, 65]))))"
proof (rule parse_covers_value)
  show "wf_block (Block_ofValue 7 [253, 0, 8, 1, 65])" "m_elements (Block_ofValue 7 [253, 0, 8, 1, 65]) = []" 
    by (code_simp, code_simp)
  have "fst (parse (Block_ofValue 7 [253, 0, 8, 1, 65])) = None" by code_simp
  then show "parse (Block_ofValue 7 [253, 0, 8, 1, 65]) = (None, snd (parse (Block_ofValue 7 [253, 0, 8, 1, 65])))" 
    by (cases "parse (Block_ofValue 7 [253, 0, 8, 1, 65])") simp
qed

text \<open>
  C39: \<open>parse()\<close> is not safe to call again after it has thrown: there is a valid block whose
  \<open>parse()\<close> fails on a truncated header, keeps the sub-elements read so far, and whose next \<open>parse()\<close>
  reports success although the sub-elements do not cover the value.
\<close>

theorem parse_after_failure:
  "\<exists>b b' err. wf_block b \<and> m_elements b = [] \<and> parse b = (Some err, b') \<and> parse b' = (None, b') \<and>
     concat (map wire_bytes (m_elements b')) \<noteq> value_bytes b'"
proof -
  let ?b = "Block_ofValue 7 [8, 1, 65, 8]" let ?b' = "snd (parse ?b)"
  have w: "wf_block ?b" "m_elements ?b = []" by (code_simp, code_simp)
  have "fst (parse ?b) = Some EmptyBuffer" by code_simp
  then have p: "parse ?b = (Some EmptyBuffer, ?b')" by (cases "parse ?b") simp
  have els: "map view (m_elements ?b') = [(8, [65])]" by code_simp
  have "concat (map wire_bytes (m_elements ?b')) = [8, 1, 65]" "value_bytes ?b' = [8, 1, 65, 8]"
    by (code_simp, code_simp)
  with w p els show ?thesis by (metis Nil_is_map_conv list.inject not_Cons_self2 parse_parsed)
qed

text \<open>
  C2: \<open>encode()\<close> of a block without wire writes the TLV the block denotes (its type, and its value or
  the encodings of its sub-elements in order), the result satisfies the invariant and caches that
  wire, and reading the bytes back gives the type and the value.
\<close>

theorem encode_exact:
  assumes "wf_block b" "\<not> hasWire b" "types_ok b" "encode_estimator b < 2 ^ 64"
  shows "wf_block (Block_encode b) \<and> wire_bytes (Block_encode b) = block_tlv b \<and>
    view (Block_encode b) = (m_type b, block_val b) \<and>
    (\<exists>r. Block_fromSpan (wire_bytes (Block_encode b)) = Inr r \<and> view r = (m_type b, block_val b))"
proof -
  note e = Block_encode_spec [OF assms(1,2,4,3)]
  have tlv: "is_tlv (wire_bytes (Block_encode b)) (m_type b) (block_val b)"
    using wf_wire_tlv [OF e(1,2)] e(4,5) by simp
  obtain r where r: "Block_fromSpan (wire_bytes (Block_encode b)) = Inr r"
    using Block_fromSpan_tlv [OF tlv, of "[]"] by simp
  from Block_fromSpan_Inr [OF r] have "is_tlv (wire_bytes r) (m_type r) (value_bytes r)"
    by (simp add: wf_wire_tlv)
  moreover have "wire_bytes r = wire_bytes (Block_encode b)"
    using Block_fromSpan_tlv [OF tlv, of "[]"] r by (auto simp: wire_bytes_def bslice_def)
  ultimately have "view r = (m_type b, block_val b)" using is_tlv_fun tlv by (auto simp: view_def)
  with e r show ?thesis by (auto simp: view_def)
qed

theorem encode_exact_witness:
  "wf_block (Block_encode (Block_push_back (Block_ofValue 8 [65]) (Block_ofType 7))) \<and>
   wire_bytes (Block_encode (Block_push_back (Block_ofValue 8 [65]) (Block_ofType 7))) = [7, 3, 8, 1, 65]"
proof -
  let ?b = "Block_push_back (Block_ofValue 8 [65]) (Block_ofType 7)"
  have "wf_block ?b" "\<not> hasWire ?b" "types_ok ?b" by (code_simp, code_simp, code_simp)
  moreover have "encode_estimator ?b = 5" by code_simp
  moreover have "block_tlv ?b = [7, 3, 8, 1, 65]" by code_simp
  ultimately show ?thesis using encode_exact [of ?b] by simp
qed

text \<open>
  The size estimate is enough: the first pass of \<open>encode()\<close> never reserves fewer bytes than the
  second pass writes, so the encoder never moves the buffer whose iterators the sub-elements keep.
\<close>

theorem encode_estimate_suffices:
  assumes "wf_block b" "encode_estimator b < 2 ^ 64"
  shows "length (block_tlv b) \<le> encode_estimator b"
  by (rule encode_estimator_upper [OF assms])

theorem encode_estimate_suffices_witness:
  "length (block_tlv (Block_push_back (Block_ofValue 8 [65]) (Block_ofType 7)))
     \<le> encode_estimator (Block_push_back (Block_ofValue 8 [65]) (Block_ofType 7))"
proof (rule encode_estimate_suffices)
  let ?b = "Block_push_back (Block_ofValue 8 [65]) (Block_ofType 7)"
  show "wf_block ?b" by code_simp
  have "encode_estimator ?b = 5" by code_simp
  then show "encode_estimator ?b < 2 ^ 64" by simp
qed

text \<open>
  The four readers agree.  The exception-free \<open>fromBuffer\<close> succeeds exactly when the constructor
  does, with the same block; and \<open>fromStream\<close> reads a shortest TLV of at most \<open>MAX_NDN_PACKET_SIZE\<close>
  bytes off the front of a stream, leaves the rest of the stream alone, and gives the block of those bytes.
\<close>

theorem readers_of_blocks_agree:
  "fromBuffer_span bs = (case Block_fromSpan bs of Inl _ \<Rightarrow> (False, Block_default) | Inr b \<Rightarrow> (True, b)) \<and>
   (t \<noteq> 0 \<and> length (tlv_bytes t v) \<le> MAX_NDN_PACKET_SIZE \<longrightarrow>
      fromStream (tlv_bytes t v @ rest) = Inr (tlv_block t v, rest) \<and>
      Block_fromSpan (tlv_bytes t v @ rest) = Inr (tlv_block t v))"
proof -
  have "Block_fromSpan (tlv_bytes t v @ rest) = Inr (tlv_block t v)"
    if "t \<noteq> 0" "length (tlv_bytes t v) \<le> MAX_NDN_PACKET_SIZE"
  proof -
    have "length v < 2 ^ 64" using that(2) by (simp add: length_tlv_bytes MAX_NDN_PACKET_SIZE_def)
    from Block_fromSpan_tlv [OF is_tlv_bytes [OF that(1) this], of rest] show ?thesis
      by (simp add: tlv_block_def Let_def)
  qed
  then show ?thesis using fromBuffer_span_eq fromStream_tlv by blast
qed

theorem readers_of_blocks_agree_witness:
  "fromStream (tlv_bytes 8 [65] @ [1, 2]) = Inr (tlv_block 8 [65], [1, 2])"
  using readers_of_blocks_agree [of "[]" 8 "[65]" "[1, 2]"]
  by (simp add: length_tlv_bytes sizeOfVarNumber_def MAX_NDN_PACKET_SIZE_def)

text \<open>
  The helpers for simple elements round trip: \<open>makeNonNegativeIntegerBlock\<close>, \<open>makeStringBlock\<close> and
  \<open>makeDoubleBlock\<close> give the element of the requested type, and the matching readers return the value.
\<close>

theorem helper_round_trips:
  assumes "t \<noteq> 0" "length s < 2 ^ 64"
  shows "\<exists>bn bs bd. makeNonNegativeIntegerBlock t n = Inr bn \<and> m_type bn = t \<and> readNonNegativeInteger_block bn = Inr n \<and>
    makeStringBlock t s = Inr bs \<and> m_type bs = t \<and> readString bs = s \<and>
    makeDoubleBlock t d = Inr bd \<and> m_type bd = t \<and> readDouble bd = Inr d"
proof -
  have "makeNonNegativeIntegerBlock t n = Inr (tlv_block t (nni_bytes n))"
    unfolding makeNonNegativeIntegerBlock_def using assms(1)
    by (intro makeBlock_tlv) (auto simp: sizeOfNonNegativeInteger_def)
  moreover have "makeStringBlock t s = Inr (tlv_block t (bytes_of s))"
    unfolding makeStringBlock_def makeBinaryBlock_def using assms by (intro makeBlock_tlv) (auto simp: bytes_of_def)
  moreover have "makeDoubleBlock t d = Inr (tlv_block t (native_to_big64 d))"
    unfolding makeDoubleBlock_def using assms(1) by (intro makeBlock_tlv) auto
  moreover have "readDouble (tlv_block t (native_to_big64 d)) = Inr d"
    using word_of_be_bytes [of d 8] unat_uint64_less [of d]
    by (simp add: readDouble_def value_size_bytes native_to_big64_def)
  ultimately show ?thesis by (simp add: readString_def string_of_bytes_of)
qed

theorem helper_round_trips_witness:
  "\<exists>bn bs bd. makeNonNegativeIntegerBlock 128 300 = Inr bn \<and> m_type bn = 128 \<and> readNonNegativeInteger_block bn = Inr 300 \<and>
    makeStringBlock 128 ''ndn'' = Inr bs \<and> m_type bs = 128 \<and> readString bs = ''ndn'' \<and>
    makeDoubleBlock 128 4607182418800017408 = Inr bd \<and> m_type bd = 128 \<and> readDouble bd = Inr 4607182418800017408"
  by (rule helper_round_trips) simp_all

text \<open>
  The two implementations behind \<open>makeBinaryBlock(type, first, last)\<close>, the exact reservation for
  random-access iterators and the growing buffer for the others, build the same element: same type,
  same value and the same shortest wire.
\<close>

theorem binaryBlock_fast_slow:
  assumes "t \<noteq> 0" "length v < 2 ^ 64"
  shows "\<exists>f s. BinaryBlockFast t v = Inr f \<and> BinaryBlockSlow t v = Inr s \<and> view f = (t, v) \<and> view s = (t, v) \<and>
    wire_bytes f = tlv_bytes t v \<and> wire_bytes s = tlv_bytes t v"
proof -
  have f: "\<exists>b. Block_fromEncoder (snd (Encoder_prependVarNumber (ucast t) (snd (Encoder_prependVarNumber
      (word_of_nat (length v)) e)))) = Inr b \<and> view b = (t, v) \<and> wire_bytes b = tlv_bytes t v"
    if "enc_inv e" "contents e = v" for e
  proof -
    let ?e2 = "snd (Encoder_prependVarNumber (word_of_nat (length v)) e)"
    let ?e3 = "snd (Encoder_prependVarNumber (ucast t) ?e2)"
    have "enc_inv ?e3" "contents ?e3 = tlv_bytes t v"
      using that by (simp_all add: Encoder_prependVarNumber_spec tlv_bytes_def)
    then show ?thesis by (metis Block_fromEncoder_tlv assms)
  qed
  let ?n = "length v + Estimator_prependVarNumber (word_of_nat (length v)) + Estimator_prependVarNumber (ucast t)"
  obtain l1 a where a: "Encoder_prependRange v (mk_Encoder ?n 0) = (l1, a)" by fastforce
  obtain l2 b where b: "Encoder_appendRange v (mk_Encoder 4 4) = (l2, b)" by fastforce
  from prependRange_spec [OF mk_Encoder_inv a] f [of a]
  obtain fast where fast: "BinaryBlockFast t v = Inr fast" "view fast = (t, v)" "wire_bytes fast = tlv_bytes t v"
    by (auto simp: BinaryBlockFast_def Let_def a)
  from appendRange_spec [OF mk_Encoder_inv b] f [of b]
  obtain slow where "BinaryBlockSlow t v = Inr slow" "view slow = (t, v)" "wire_bytes slow = tlv_bytes t v"
    by (auto simp: BinaryBlockSlow_def Let_def b)
  with fast show ?thesis by blast
qed

theorem binaryBlock_fast_slow_witness:
  "\<exists>f s. BinaryBlockFast 128 [1, 2, 3] = Inr f \<and> BinaryBlockSlow 128 [1, 2, 3] = Inr s \<and>
    view f = (128, [1, 2, 3]) \<and> view s = (128, [1, 2, 3]) \<and>
    wire_bytes f = tlv_bytes 128 [1, 2, 3] \<and> wire_bytes s = tlv_bytes 128 [1, 2, 3]"
  by (rule binaryBlock_fast_slow) simp_all

end
