(* ===== verification/Spec2Isabelle.thy ===== *)
theory Spec2Isabelle
  imports NameUri InMemoryStorageTrace BlockProps
begin

text \<open>
  Verification of ndn-cxx (\<open>src/ndn-cxx\<close>), the C++ library of Named Data Networking: the TLV
  encoding, names and the packet parts built on them.

  Parts of the program, bottom up.  \<open>encoding/tlv\<close> reads and writes the variable-length numbers of
  NDN-TLV.  \<open>encoding/encoder\<close> is a buffer that packets are written into back to front;
  \<open>encoding/estimator\<close> has the same interface and only counts.  \<open>encoding/block\<close> is one TLV element: a
  window on a shared buffer, with the sub-elements that \<open>parse()\<close> finds in its value.
  \<open>encoding/block-helpers\<close> builds and reads simple elements.  \<open>name-component\<close> and \<open>name\<close> are built on
  blocks, with the canonical order and the URI syntax; the latter uses \<open>util/string-helper\<close>, whose hex
  functions run the pipeline of \<open>security/transform\<close>.  \<open>meta-info\<close>, \<open>key-locator\<close>,
  \<open>security/validity-period\<close> and \<open>signature-info\<close> are packet fields; \<open>data\<close> and \<open>interest\<close> are the two
  network packets.  Both cache their encoding; \<open>data\<close> also caches its full name, which ends with the digest
  of the packet, and \<open>interest\<close> keeps the digest of its parameters in its name.  \<open>ims\<close> stores Data packets
  by full name and answers Interests from them, with a replacement policy in a derived class.

  Correspondence.  \<open>Prelude\<close>: machine integers, buffers, exceptions as values of one error type.
  \<open>Tlv\<close>: \<open>tlv.hpp\<close> and \<open>tlv.cpp\<close>; a pair of iterators is the list of bytes between them.
  \<open>Encoder\<close>: \<open>encoder.cpp\<close> and \<open>estimator.hpp\<close>; the record \<open>encoder\<close> has the buffer and the two
  positions, a \<open>wireEncode\<close> template is a function on the sum of encoder and estimator.
  \<open>Transform\<close> and \<open>StringHelper\<close>: the pipeline with the hex and whitespace modules, and the string
  functions.  \<open>Block\<close>: the class \<open>Block\<close>, its eight members as a datatype, one function per member
  function.  \<open>BlockHelpers\<close>, \<open>NameComponent\<close>, \<open>Name\<close>, \<open>MetaInfo\<close>,
  \<open>KeyLocator\<close>, \<open>ValidityPeriod\<close>, \<open>SignatureInfo\<close>, \<open>Data\<close>, \<open>Interest\<close>: the files of these names; a class
  is a record of its members, the cached encoding included.  \<open>InMemoryStorage\<close>: the files of \<open>ims\<close>; entries are
  addresses in a heap that the cache, the pool and the index of the policy share, the virtual functions
  of the four derived classes dispatch on the kind of index, and an event marks an entry as stale.  A member
  function that may throw returns \<open>error + 'a\<close>; one that changes the object takes it and returns it.
  Strings are lists of characters, \<open>time_point\<close> is the number of nanoseconds since the epoch.  What a transform
  that throws has already written stays in its sink, so the pipeline returns its outcome and the sink.

  What is shown.  \<open>Tlv\<close>: the number codes round trip, both kinds of reader agree.  \<open>Encoder\<close>: the
  encoder is a deque of bytes (locale \<open>byte_deque\<close>, the sequence of calls as a list), and every
  \<open>wireEncode\<close> built from the prepend steps writes the same bytes in both passes (\<open>prepends\<close>).
  \<open>Transform\<close>: a module that meets the contract \<open>streaming\<close> gives a pipeline that returns and whose
  outcome does not depend on how the input is cut, nor what the sink receives unless an input is refused.  \<open>BlockTlv\<close>, \<open>BlockParse\<close>, \<open>BlockEncode\<close>, \<open>BlockProps\<close>: the
  invariant \<open>wf_block\<close>, that every operation called within its documented preconditions keeps it, what \<open>parse()\<close> finds and what \<open>encode()\<close>
  writes.  \<open>BlockHelpers\<close>: the contract \<open>wire_encodable\<close> of classes with \<open>wireEncode(encoder)\<close>.
  \<open>NameComponentOrder\<close>, \<open>NameComponentSuccessor\<close>, \<open>NameComponentUri\<close>: order, successor, URI and
  naming conventions (contract \<open>number_convention\<close>).  \<open>NameProps\<close>, \<open>NameUri\<close>: the same for names.
  \<open>PacketCodec\<close>: the contract \<open>packet_codec\<close> of a class with an encoder and a decoder, from which
  the round trip through bytes follows once; the packet fields, \<open>Data\<close> and (in \<open>InterestWire\<close>) \<open>Interest\<close>
  meet it.  \<open>Data\<close> also shows what two-step signing signs and that the full name is never stale;
  \<open>InterestDigest\<close> that no sequence of calls leaves a stale parameters digest; \<open>InterestProps\<close> what is
  signed, what matches, when \<open>refreshNonce\<close> returns and that \<open>isSigned\<close> can throw.
  \<open>InMemoryStorageInv\<close>: the invariant of the storage and the contract \<open>replacement_policy\<close> between it and
  its derived classes, met by three of them.  \<open>InMemoryStorageOps\<close>, \<open>InMemoryStorageFind\<close>,
  \<open>InMemoryStorageErase\<close>: what each operation does.  \<open>InMemoryStorageProps\<close>: the properties of all storages
  that can be reached by calls and events.  \<open>InMemoryStorageTrace\<close>: sequences of calls with their history of
  arrivals and uses, that they return, and what each policy replaces in terms of the history.  These are
  about limits of at least sixteen; with smaller ones the storage fails, which is shown as well.

  Bounds and fuel.  No definition uses fuel.  Two loops of the modelled code may run forever and
  are \<open>partial_function\<close>s: the one that offers a buffer to a transform module, proved to return for the
  modelled modules, and the one that draws a new nonce, proved to return exactly when the source of random
  words yields another nonce.  Sizes are natural numbers where the code's \<open>size_t\<close>
  cannot overflow for buffers that fit in memory and words where it can; the hypotheses bound
  lengths by \<open>2^64\<close>, and by \<open>2^31\<close> where a difference of sizes is returned as an \<open>int\<close>.

  Not modelled.  Sharing of buffers between blocks is visible only through equality of contents:
  buffers are never written after a block refers to them.  Iterator invalidation and object lifetimes
  are left out.  In particular the storage has a copy of an inserted packet where the code keeps the caller's
  object, which nobody must change afterwards.  Time points and durations are unbounded integers: overflow
  of the 64-bit counts of nanoseconds in conversions is left out.  Memory allocation does not fail.  An object whose member function threw is not used
  further, except where a statement is about just that.  SHA-256 is a function argument, with the length
  of its result as a hypothesis where it matters; so are random words, the text of a duration and the
  ISO 8601 functions of boost.  Management,
  link protocol, faces, key management and validation are listed in the manifest with the reason.
\<close>

end
